(* ===== verification/Prelude.thy ===== *)
theory Prelude
  imports Main "HOL-Library.Word"
begin

unbundle bit_operations_syntax

text \<open>
  What every component shares: the machine integer types of the C code, byte strings, the error
  codes of include/m2022/qpdl.h, and generic lemmas on words and lists.

  A C buffer is a list of bytes; a pointer \<open>p + k\<close> into a buffer is \<open>drop k p\<close>. Sizes
  (\<open>size_t\<close>) are natural numbers: every subtraction of sizes in the code stands behind a
  comparison that keeps it non-negative, and no buffer reaches \<open>2 ^ 64\<close> bytes. Fixed-width
  integers (\<open>uint8_t\<close>, \<open>uint16_t\<close>, \<open>uint32_t\<close>) are words, so their wrap-around is the
  wrap-around of the code.
\<close>

section \<open>Types\<close>

type_synonym u8 = "8 word"
type_synonym u16 = "16 word"
type_synonym u32 = "32 word"
type_synonym bytes = "8 word list"

section \<open>Collections\<close>

named_theorems codec_simps \<open>equations of the codec's loops, used by the codec proofs\<close>
named_theorems record_simps \<open>round trips of the fixed-size records\<close>
named_theorems stream_simps \<open>how the walker reads what the encoder wrote\<close>

section \<open>Text as bytes\<close>

text \<open>A C string literal is the list of its bytes; \<open>ascii\<close> turns a HOL string into bytes.\<close>

definition ascii :: "string \<Rightarrow> bytes" where
  "ascii s = map (\<lambda>c. word_of_nat (of_char c)) s"

lemma ascii_Nil [simp]: "ascii [] = []"
  by (simp add: ascii_def)

lemma ascii_append [simp]: "ascii (a @ b) = ascii a @ ascii b"
  by (simp add: ascii_def)

lemma length_ascii [simp]: "length (ascii s) = length s"
  by (simp add: ascii_def)

text \<open>\<open>strcasecmp(a, b) == 0\<close> on ASCII strings: equal up to the case of the letters A to Z.\<close>

definition lower :: "char \<Rightarrow> nat" where
  "lower c = (let n = of_char c in if 65 \<le> n \<and> n \<le> 90 then n + 32 else n)"

definition strcasecmp :: "string \<Rightarrow> string \<Rightarrow> bool" where
  "strcasecmp a b \<longleftrightarrow> map lower a = map lower b"

lemma strcasecmp_refl [simp]: "strcasecmp a a"
  by (simp add: strcasecmp_def)

text \<open>\<open>printf("%u", n)\<close>, and \<open>"%03u"\<close>.\<close>

fun decimal :: "nat \<Rightarrow> string" where
  "decimal n =
    (if n < 10 then [char_of (48 + n)] else decimal (n div 10) @ [char_of (48 + n mod 10)])"

declare decimal.simps [simp del]

definition decimal3 :: "nat \<Rightarrow> string" where
  "decimal3 n = (let d = decimal n in replicate (3 - length d) (CHR ''0'') @ d)"

section \<open>Words\<close>

lemma unat_u8_less [simp]: "unat (b :: u8) < 256"
  using unsigned_less [of b] by simp

lemma unat_u16_less [simp]: "unat (b :: u16) < 65536"
  using unsigned_less [of b] by simp

lemma ucast_u8_of_nat [simp]: "unat (word_of_nat n :: u8) = n mod 256"
  by (simp add: unat_of_nat take_bit_eq_mod)

lemma bit_u8_beyond [simp]: "8 \<le> k \<Longrightarrow> bit (b :: u8) (k + n) = False"
  using bit_imp_le_length [of b "k + n"] by auto

text \<open>Splitting a word into bytes and joining the bytes again.\<close>

lemma join16_split [simp]:
  "push_bit 8 (ucast (ucast (drop_bit 8 (v :: u16)) :: u8)) OR ucast (ucast v :: u8) = v"
  by (rule bit_word_eqI) (auto simp: bit_simps)

lemma join32_split [simp]:
  "push_bit 24 (ucast (ucast (drop_bit 24 (v :: u32)) :: u8))
     OR push_bit 16 (ucast (ucast (drop_bit 16 v) :: u8))
     OR push_bit 8 (ucast (ucast (drop_bit 8 v) :: u8)) OR ucast (ucast v :: u8) = v"
  (is "?lhs = v")
proof (rule bit_word_eqI)
  fix n
  assume "n < LENGTH(32)"
  then consider "n < 8" | "8 \<le> n" "n < 16" | "16 \<le> n" "n < 24" | "24 \<le> n" "n < 32"
    by fastforce
  then show "bit ?lhs n = bit v n"
    by cases (auto simp: bit_simps)
qed

text \<open>Masks and shifts on natural numbers.\<close>

lemma and_shifted: "x AND push_bit n m = push_bit n (drop_bit n x AND (m :: nat))"
  by (rule bit_eqI) (auto simp: bit_simps)

lemma push_or_add: "b < 2 ^ n \<Longrightarrow> push_bit n a OR b = push_bit n a + (b :: nat)"
proof -
  assume "b < 2 ^ n"
  then have b: "take_bit n b = b" by (simp add: take_bit_nat_eq_self_iff)
  have "push_bit n a AND take_bit n b = 0"
    by (rule bit_eqI) (auto simp: bit_simps)
  then show ?thesis by (simp add: b disjunctive_add_eq_or)
qed

lemma and_127: "x AND 127 = x mod (128 :: nat)"
  using take_bit_eq_mask [of 7 x] by (simp add: take_bit_eq_mod mask_eq_exp_minus_1)
lemma and_63: "x AND 63 = x mod (64 :: nat)"
  using take_bit_eq_mask [of 6 x] by (simp add: take_bit_eq_mod mask_eq_exp_minus_1)

lemma unat_of_nat_u8: "n < 256 \<Longrightarrow> unat (word_of_nat n :: u8) = n"
  by (simp add: unat_of_nat take_bit_eq_mod)

section \<open>Lists\<close>

lemma length_ge_Suc_iff: "Suc n \<le> length xs \<longleftrightarrow> (\<exists>y ys. xs = y # ys \<and> n \<le> length ys)"
  by (cases xs) auto

lemma take_append_le: "n \<le> length xs \<Longrightarrow> take n (xs @ ys) = take n xs"
  by simp

lemma list_eq_nthI:
  "length xs = length ys \<Longrightarrow> (\<And>i. i < length ys \<Longrightarrow> xs ! i = ys ! i) \<Longrightarrow> xs = ys"
  by (rule nth_equalityI) auto

lemma take_Suc_nth: "n < length xs \<Longrightarrow> take (Suc n) xs = take n xs @ [xs ! n]"
  by (rule take_Suc_conv_app_nth)

text \<open>The slice \<open>xs[a..a+n)\<close>, as \<open>memcpy(out, xs + a, n)\<close> reads it.\<close>

definition part :: "nat \<Rightarrow> nat \<Rightarrow> 'a list \<Rightarrow> 'a list" where
  "part a n xs = take n (drop a xs)"

lemma length_part [simp]: "a + n \<le> length xs \<Longrightarrow> length (part a n xs) = n"
  by (simp add: part_def)

lemma take_part: "take a xs @ part a n xs = take (a + n) xs"
  by (simp add: part_def take_add)

section \<open>Loops that store into a buffer\<close>

text \<open>
  \<open>for (x in xs) buf[f(x)] = g(x);\<close> as a fold of list updates. When the indices are distinct, the
  cell \<open>f x\<close> holds \<open>g x\<close> at the end and the other cells are unchanged. A nested loop is the loop
  over the pairs.
\<close>

definition store_loop :: "('i \<Rightarrow> nat) \<Rightarrow> ('i \<Rightarrow> 'a) \<Rightarrow> 'i list \<Rightarrow> 'a list \<Rightarrow> 'a list" where
  "store_loop f g xs buf = fold (\<lambda>x b. b[f x := g x]) xs buf"

lemma store_loop_Nil [simp]: "store_loop f g [] buf = buf"
  by (simp add: store_loop_def)

lemma store_loop_Cons [simp]:
  "store_loop f g (x # xs) buf = store_loop f g xs (buf[f x := g x])"
  by (simp add: store_loop_def)

lemma length_store_loop [simp]: "length (store_loop f g xs buf) = length buf"
  by (induction xs arbitrary: buf) auto

lemma nth_store_loop_other:
  "i \<notin> f ` set xs \<Longrightarrow> store_loop f g xs buf ! i = buf ! i"
  by (induction xs arbitrary: buf) auto

lemma nth_store_loop:
  "\<lbrakk>x \<in> set xs; inj_on f (set xs); f x < length buf\<rbrakk> \<Longrightarrow> store_loop f g xs buf ! f x = g x"
proof (induction xs arbitrary: buf)
  case Nil
  then show ?case by simp
next
  case (Cons y ys)
  show ?case
  proof (cases "x \<in> set ys")
    case True
    with Cons show ?thesis by (simp add: inj_on_def)
  next
    case False
    with Cons.prems have "x = y" and "f y \<notin> f ` set ys"
      by (auto simp: inj_on_def)
    with Cons.prems show ?thesis by (simp add: nth_store_loop_other)
  qed
qed

lemma store_loop_nested:
  "fold (\<lambda>c. store_loop (f c) (g c) ls) cs buf =
   store_loop (\<lambda>(c, l). f c l) (\<lambda>(c, l). g c l) (List.product cs ls) buf"
  by (induction cs arbitrary: buf) (auto simp: store_loop_def fold_map comp_def)

lemma div_add_le: "a div n + b div n \<le> (a + b) div (n :: nat)"
  by (simp only: div_add1_eq [of a b n])

text \<open>Row-major indices: \<open>a * n + b\<close> with \<open>b < n\<close> determines \<open>a\<close> and \<open>b\<close>.\<close>

lemma index_pair_less: "\<lbrakk>a < m; b < n\<rbrakk> \<Longrightarrow> a * n + b < m * (n :: nat)"
proof -
  assume "a < m" and "b < n"
  then have "a * n + b < Suc a * n" by simp
  also have "\<dots> \<le> m * n" using \<open>a < m\<close> by (intro mult_le_mono1) simp
  finally show ?thesis .
qed

lemma index_pair_eq_iff:
  "\<lbrakk>b < n; d < n\<rbrakk> \<Longrightarrow> a * n + b = c * n + d \<longleftrightarrow> a = c \<and> b = (d :: nat)"
  by (metis (no_types, lifting) add.commute div_less div_mult_self3 gr_zeroI less_nat_zero_code
      mod_less mod_mult_self1 add_0)

end
