(* ===== verification/Halftone.thy ===== *)
theory Halftone
  imports Prelude
begin

text \<open>
  Model of src/halftone/halftone.c: the ordered matrices, the halftoner, its line operation and
  error diffusion. Lines are lists of bytes; a packed line holds pixel \<open>x\<close> in bit \<open>7 - x mod 8\<close> of
  byte \<open>x div 8\<close>. The diffusion buffers are lists of \<open>int16_t\<close> values, with the conversion to 16 bits
  written out at every store. The generated mask of bluenoise64.c is a parameter. The screen's sort
  key, computed in the code in double precision, is written in exact arithmetic, 400 times as large:
  its distances are multiples of a quarter pixel.
\<close>

section \<open>Parameters\<close>

datatype ht_method =
  M2022_HT_THRESHOLD | M2022_HT_BAYER4 | M2022_HT_BAYER8 | M2022_HT_CLUSTERED
| M2022_HT_BLUE_NOISE | M2022_HT_FLOYD_STEINBERG

record ht_params =
  ht_method :: ht_method
  ht_threshold :: u8
  cluster_cell :: u8

abbreviation (input) M2022_HT_MAX_CELL :: nat where "M2022_HT_MAX_CELL \<equiv> 16"

text \<open>The two diffusion buffers are \<open>None\<close> when no state was given to the halftoner.\<close>

record halftoner =
  ht_params :: ht_params
  ht_width :: nat
  matrix :: bytes
  cell :: nat
  err_cur :: "int list option"
  err_next :: "int list option"

definition m2022_ht_default :: "ht_method \<Rightarrow> ht_params" where
  "m2022_ht_default m = \<lparr>ht_method = m, ht_threshold = 127, cluster_cell = 8\<rparr>"

definition method_names :: "(string \<times> ht_method) list" where
  "method_names =
    [(''threshold'', M2022_HT_THRESHOLD), (''bayer4'', M2022_HT_BAYER4), (''bayer8'', M2022_HT_BAYER8),
     (''clustered'', M2022_HT_CLUSTERED), (''blue-noise'', M2022_HT_BLUE_NOISE),
     (''floyd-steinberg'', M2022_HT_FLOYD_STEINBERG)]"

fun m2022_ht_method_name :: "ht_method \<Rightarrow> string" where
  "m2022_ht_method_name M2022_HT_THRESHOLD = ''threshold''"
| "m2022_ht_method_name M2022_HT_BAYER4 = ''bayer4''"
| "m2022_ht_method_name M2022_HT_BAYER8 = ''bayer8''"
| "m2022_ht_method_name M2022_HT_CLUSTERED = ''clustered''"
| "m2022_ht_method_name M2022_HT_BLUE_NOISE = ''blue-noise''"
| "m2022_ht_method_name M2022_HT_FLOYD_STEINBERG = ''floyd-steinberg''"

definition m2022_ht_method_parse :: "string \<Rightarrow> ht_method option" where
  "m2022_ht_method_parse name =
     map_option snd (find (\<lambda>(n, _). strcasecmp name n) method_names)"

section \<open>Ordered matrices\<close>

text \<open>\<open>M(2n) = [[4M, 4M+2], [4M+3, 4M+1]]\<close>, in place; \<open>s = 2 ^ k\<close> is the size already built.\<close>

definition bayer_step :: "nat \<Rightarrow> nat \<Rightarrow> bytes \<Rightarrow> bytes" where
  "bayer_step n s m =
     fold (\<lambda>(y, x) m.
         let v = m ! (y * n + x)
         in m[y * n + x := 4 * v,
              y * n + x + s := 4 * v + 2,
              (y + s) * n + x := 4 * v + 3,
              (y + s) * n + x + s := 4 * v + 1])
       (List.product [0..<s] [0..<s]) m"

function bayer_from :: "nat \<Rightarrow> nat \<Rightarrow> bytes \<Rightarrow> bytes" where
  "bayer_from n k m = (if 2 ^ k < n then bayer_from n (Suc k) (bayer_step n (2 ^ k) m) else m)"
  by pat_completeness auto
termination
  by (relation "measure (\<lambda>(n, k, m). n - 2 ^ k)") (auto intro: diff_less_mono2)

declare bayer_from.simps [simp del]

definition bayer :: "nat \<Rightarrow> bytes \<Rightarrow> bytes" where
  "bayer n m = bayer_from n 0 (m[0 := 0])"

text \<open>
  The clustered screen. \<open>screen_key c dot i\<close> is the key of cell \<open>i\<close> for the dot centre of the rank,
  with distances in quarter pixels, wrapped around the cell.
\<close>

definition wrap_distance :: "nat \<Rightarrow> int \<Rightarrow> int" where
  "wrap_distance c d0 =
    (let d1 = (if d0 > 2 * int c then d0 - 4 * int c else d0)
     in if d1 < - (2 * int c) then d1 + 4 * int c else d1)"

definition screen_key :: "nat \<Rightarrow> nat \<Rightarrow> nat \<Rightarrow> int" where
  "screen_key c dot i =
    (let centre = (if dot = 0 then int c else 3 * int c);
         dx = wrap_distance c (4 * int (i mod c) + 2 - centre);
         dy = wrap_distance c (4 * int (i div c) + 2 - centre)
     in 25000 * (dx * dx + dy * dy) + (37 * dx + 11 * dy))"

text \<open>The scan for the free cell with the least key, from \<open>best = 1e30\<close>, \<open>bi = 0\<close>.\<close>

definition best_cell :: "nat \<Rightarrow> nat \<Rightarrow> bool list \<Rightarrow> nat" where
  "best_cell c dot taken =
     snd (fold (\<lambda>i (best, bi).
         if taken ! i then (best, bi)
         else let key = screen_key c dot i in if key < best then (key, i) else (best, bi))
       [0..<c * c] (400 * 10 ^ 30, 0))"

definition clustered_step :: "nat \<Rightarrow> nat \<Rightarrow> bool list \<times> bytes \<Rightarrow> bool list \<times> bytes" where
  "clustered_step c rank st =
    (case st of (taken, m) \<Rightarrow>
       let bi = best_cell c (rank mod 2) taken
       in (taken[bi := True], m[bi := word_of_nat rank]))"

definition clustered :: "nat \<Rightarrow> bytes \<Rightarrow> bytes" where
  "clustered c m =
     snd (fold (clustered_step c) [0..<c * c]
       (replicate (M2022_HT_MAX_CELL * M2022_HT_MAX_CELL) False, m))"

definition scale_matrix :: "bytes \<Rightarrow> nat \<Rightarrow> nat \<Rightarrow> bytes" where
  "scale_matrix m n levels =
     fold (\<lambda>i m. m[i := word_of_nat ((2 * unat (m ! i) + 1) * 256 div (2 * levels))]) [0..<n] m"

section \<open>The halftoner\<close>

definition m2022_halftoner_state_bytes :: "nat \<Rightarrow> nat" where
  "m2022_halftoner_state_bytes w = 2 * (w + 2) * 2"

definition m2022_halftoner_reset :: "halftoner \<Rightarrow> halftoner" where
  "m2022_halftoner_reset ht =
    (if err_cur ht \<noteq> None
     then ht\<lparr>err_cur := Some (replicate (ht_width ht + 2) 0),
             err_next := Some (replicate (ht_width ht + 2) 0)\<rparr>
     else ht)"

text \<open>
  \<open>state\<close> is the size of the buffer, \<open>None\<close> for NULL. The buffer's contents do not matter: the
  reset clears them. The result is \<open>None\<close> where the function returns -1.
\<close>

definition m2022_halftoner_init :: "ht_params \<Rightarrow> nat \<Rightarrow> nat option \<Rightarrow> halftoner option" where
  "m2022_halftoner_init p w state =
    (let zero = replicate (M2022_HT_MAX_CELL * M2022_HT_MAX_CELL) 0;
         ht = \<lparr>ht_params = p, ht_width = w, matrix = zero, cell = 0, err_cur = None, err_next = None\<rparr>
     in case ht_method p of
          M2022_HT_BAYER4 \<Rightarrow> Some (ht\<lparr>cell := 4, matrix := scale_matrix (bayer 4 zero) 16 16\<rparr>)
        | M2022_HT_BAYER8 \<Rightarrow> Some (ht\<lparr>cell := 8, matrix := scale_matrix (bayer 8 zero) 64 64\<rparr>)
        | M2022_HT_CLUSTERED \<Rightarrow>
            let c = (if cluster_cell p \<ge> 4 \<and> unat (cluster_cell p) \<le> M2022_HT_MAX_CELL
                     then unat (cluster_cell p) else 8)
            in Some (ht\<lparr>cell := c, matrix := scale_matrix (clustered c zero) (c * c) (c * c)\<rparr>)
        | M2022_HT_FLOYD_STEINBERG \<Rightarrow>
            (case state of
               None \<Rightarrow> None
             | Some n \<Rightarrow>
                 if n < m2022_halftoner_state_bytes w then None
                 else Some (m2022_halftoner_reset
                        (ht\<lparr>err_cur := Some (replicate (w + 2) 0), err_next := Some (replicate (w + 2) 0)\<rparr>)))
        | M2022_HT_THRESHOLD \<Rightarrow> Some ht
        | M2022_HT_BLUE_NOISE \<Rightarrow> Some ht)"

section \<open>A line\<close>

definition set_black :: "bytes \<Rightarrow> nat \<Rightarrow> bytes" where
  "set_black bits x = bits[x div 8 := bits ! (x div 8) OR drop_bit (x mod 8) 0x80]"

text \<open>The conversion of an \<open>int\<close> to \<open>int16_t\<close>, and C's division, which rounds towards zero.\<close>

definition int16 :: "int \<Rightarrow> int" where
  "int16 v = (v + 32768) mod 65536 - 32768"

definition cdiv16 :: "int \<Rightarrow> int" where
  "cdiv16 v = (if v < 0 then - (- v div 16) else v div 16)"

text \<open>One pixel of error diffusion: \<open>ahead\<close> and \<open>behind\<close> are the buffer indices on its two sides.\<close>

definition fs_pixel ::
  "bytes \<Rightarrow> bool \<Rightarrow> nat \<Rightarrow> int list \<times> int list \<times> bytes \<Rightarrow> int list \<times> int list \<times> bytes" where
  "fs_pixel ink reverse x st =
    (case st of (cur, nxt, bits) \<Rightarrow>
       let ahead = (if reverse then x else x + 2);
           behind = (if reverse then x + 2 else x);
           v = int (unat (ink ! x)) + cur ! (x + 1);
           out = (if v \<ge> 128 then 255 else 0);
           err = v - out;
           bits' = (if out \<noteq> 0 then set_black bits x else bits);
           cur' = cur[ahead := int16 (cur ! ahead + cdiv16 (err * 7))];
           nxt1 = nxt[behind := int16 (nxt ! behind + cdiv16 (err * 3))];
           nxt2 = nxt1[x + 1 := int16 (nxt1 ! (x + 1) + cdiv16 (err * 5))];
           nxt3 = nxt2[ahead := int16 (nxt2 ! ahead + cdiv16 (err * 1))]
       in (cur', nxt3, bits'))"

definition floyd_steinberg :: "halftoner \<Rightarrow> bytes \<Rightarrow> nat \<Rightarrow> bytes \<Rightarrow> halftoner \<times> bytes" where
  "floyd_steinberg ht ink y bits =
    (let w = ht_width ht;
         reverse = (y mod 2 \<noteq> 0);
         (cur, nxt, bits') =
           fold (\<lambda>i. fs_pixel ink reverse (if reverse then w - 1 - i else i)) [0..<w]
             (the (err_cur ht), replicate (w + 2) 0, bits)
     in (ht\<lparr>err_cur := Some nxt, err_next := Some cur\<rparr>, bits'))"

text \<open>\<open>for (x < w) if (ink[x] > thr(x)) set_black(bits, x);\<close>\<close>

definition ordered_line :: "(nat \<Rightarrow> u8) \<Rightarrow> nat \<Rightarrow> bytes \<Rightarrow> bytes \<Rightarrow> bytes" where
  "ordered_line thr w ink bits =
     fold (\<lambda>x b. if ink ! x > thr x then set_black b x else b) [0..<w] bits"

definition m2022_halftone_line ::
  "bytes \<Rightarrow> halftoner \<Rightarrow> bytes \<Rightarrow> nat \<Rightarrow> halftoner \<times> bytes" where
  "m2022_halftone_line bluenoise64 ht ink y =
    (let w = ht_width ht;
         bits = replicate ((w + 7) div 8) 0;
         c = cell ht
     in case ht_method (ht_params ht) of
          M2022_HT_THRESHOLD \<Rightarrow> (ht, ordered_line (\<lambda>x. ht_threshold (ht_params ht)) w ink bits)
        | M2022_HT_BLUE_NOISE \<Rightarrow>
            (ht, ordered_line (\<lambda>x. bluenoise64 ! (y mod 64 * 64 + x mod 64)) w ink bits)
        | M2022_HT_FLOYD_STEINBERG \<Rightarrow> floyd_steinberg ht ink y bits
        | _ \<Rightarrow> (ht, ordered_line (\<lambda>x. matrix ht ! (y mod c * c + x mod c)) w ink bits))"

section \<open>Pixels of a packed line\<close>

definition pixel :: "bytes \<Rightarrow> nat \<Rightarrow> bool" where
  "pixel bits x = bit (bits ! (x div 8)) (7 - x mod 8)"

lemma bit_0x80: "bit (0x80 :: u8) n \<longleftrightarrow> n = 7"
proof -
  have "(0x80 :: u8) = push_bit 7 1" by simp
  then show ?thesis by (simp only: bit_push_bit_iff) (auto simp: bit_1_iff)
qed

lemma length_set_black [simp]: "length (set_black bits x) = length bits"
  by (simp add: set_black_def)

lemma pixel_set_black:
  assumes "x div 8 < length bits"
  shows "pixel (set_black bits x) z \<longleftrightarrow> z = x \<or> pixel bits z"
proof (cases "z div 8 = x div 8")
  case True
  have "x mod 8 + (7 - z mod 8) = 7 \<longleftrightarrow> z mod 8 = x mod 8"
    using mod_less_divisor [of 8 z] mod_less_divisor [of 8 x] by linarith
  then have "bit (drop_bit (x mod 8) (0x80 :: u8)) (7 - z mod 8) \<longleftrightarrow> z mod 8 = x mod 8"
    by (simp only: bit_drop_bit_eq comp_apply bit_0x80)
  moreover have "z = x \<longleftrightarrow> z mod 8 = x mod 8" using True by (metis mult_div_mod_eq)
  ultimately show ?thesis
    using True assms
    by (auto simp: pixel_def set_black_def bit_or_iff)
next
  case False
  then show ?thesis by (auto simp: pixel_def set_black_def)
qed

lemma pixel_zero: "x div 8 < n \<Longrightarrow> \<not> pixel (replicate n 0) x"
  by (simp add: pixel_def)

lemma byte_index_less: "x < w \<Longrightarrow> x div 8 < (w + 7) div (8 :: nat)"
proof -
  assume "x < w"
  then have "x + 8 \<le> w + 7" by simp
  then have "(x + 8) div 8 \<le> (w + 7) div 8" by (rule div_le_mono)
  then show ?thesis by simp
qed

lemma ordered_line_pixels:
  assumes "w \<le> 8 * length bits"
  shows "length (ordered_line thr w ink bits) = length bits
    \<and> (\<forall>x. pixel (ordered_line thr w ink bits) x \<longleftrightarrow> pixel bits x \<or> x < w \<and> ink ! x > thr x)"
  using assms
proof (induction w)
  case (Suc w)
  then have IH: "length (ordered_line thr w ink bits) = length bits"
    "\<And>x. pixel (ordered_line thr w ink bits) x \<longleftrightarrow> pixel bits x \<or> x < w \<and> ink ! x > thr x" by auto
  have "w div 8 < length bits" using Suc.prems by (simp add: less_mult_imp_div_less mult.commute)
  then show ?case
    using IH by (auto simp: ordered_line_def pixel_set_black less_Suc_eq)
qed (simp add: ordered_line_def)

text \<open>A fresh line: exactly the pixels whose ink is above the threshold are black.\<close>

lemma ordered_line_fresh:
  "pixel (ordered_line thr w ink (replicate ((w + 7) div 8) 0)) x \<longleftrightarrow> x < w \<and> ink ! x > thr x"
  if "x div 8 < (w + 7) div 8"
proof -
  have "w \<le> 8 * ((w + 7) div 8)"
    using mult_div_mod_eq [of 8 "w + 7"] mod_less_divisor [of 8 "w + 7"] by linarith
  then show ?thesis
    using ordered_line_pixels [of w "replicate ((w + 7) div 8) 0" thr ink] pixel_zero [OF that] by simp
qed

section \<open>Error diffusion\<close>

lemma int16_id: "\<bar>v\<bar> \<le> 32767 \<Longrightarrow> int16 v = v"
  by (simp add: int16_def)

lemma cdiv16_bound: "\<bar>err\<bar> \<le> 127 \<Longrightarrow> 0 \<le> k \<Longrightarrow> 16 * \<bar>cdiv16 (err * k)\<bar> \<le> 127 * k"
proof -
  assume e: "\<bar>err\<bar> \<le> 127" and k: "0 \<le> k"
  then have "\<bar>err * k\<bar> \<le> 127 * k" by (simp add: abs_mult mult_right_mono)
  moreover have "16 * \<bar>cdiv16 v\<bar> \<le> \<bar>v\<bar>" for v by (auto simp: cdiv16_def)
  ultimately show ?thesis using order_trans by blast
qed

lemma pixel_error_bound:
  assumes "\<bar>c\<bar> \<le> 127" "0 \<le> n" "n \<le> 255" "v = n + c"
  shows "\<bar>v - (if v \<ge> 128 then 255 else 0)\<bar> \<le> (127 :: int)"
  using assms by auto

lemma byte_range: "0 \<le> int (unat (b :: u8)) \<and> int (unat b) \<le> 255"
  using unat_u8_less [of b] by linarith

text \<open>
  The weight, in sixteenths, that cell \<open>j\<close> of the next line has received when \<open>i\<close> pixels of the
  current one are done: 1 from the pixel behind it, 5 from the one above, 3 from the one ahead.
  \<open>mirror\<close> counts cells in the direction of the scan.
\<close>

definition got :: "nat \<Rightarrow> nat \<Rightarrow> int" where
  "got i j = (if j > i + 1 then 0 else if j = i + 1 then 1 else if j = i then 6 else 9)"

definition mirror :: "bool \<Rightarrow> nat \<Rightarrow> nat \<Rightarrow> nat" where
  "mirror reverse w j = (if reverse then w + 1 - j else j)"

definition fs_inv :: "bool \<Rightarrow> nat \<Rightarrow> nat \<Rightarrow> int list \<times> int list \<times> bytes \<Rightarrow> bool" where
  "fs_inv reverse w i st \<longleftrightarrow> (case st of (cur, nxt, bits) \<Rightarrow>
     length cur = w + 2 \<and> length nxt = w + 2 \<and> length bits = (w + 7) div 8
     \<and> (\<forall>j < w + 2. 16 * \<bar>nxt ! mirror reverse w j\<bar> \<le> 127 * got i j)
     \<and> (\<forall>j < w + 2. i + 1 < j \<longrightarrow> 16 * \<bar>cur ! mirror reverse w j\<bar> \<le> 127 * 9)
     \<and> \<bar>cur ! mirror reverse w (i + 1)\<bar> \<le> 127)"

lemma mirror_less: "j < w + 2 \<Longrightarrow> mirror reverse w j < w + 2"
  by (auto simp: mirror_def)

lemma mirror_eq: "j < w + 2 \<Longrightarrow> k < w + 2 \<Longrightarrow> mirror reverse w j = mirror reverse w k \<longleftrightarrow> j = k"
  by (auto simp: mirror_def)

lemma fs_pixel_inv:
  assumes inv: "fs_inv reverse w i st" and "i < w"
  shows "fs_inv reverse w (Suc i) (fs_pixel ink reverse (if reverse then w - 1 - i else i) st)"
proof -
  obtain cur nxt bits where st: "st = (cur, nxt, bits)" using prod_cases3 by blast
  define x where "x = (if reverse then w - 1 - i else i)"
  define M where "M = mirror reverse w"
  define c where "c = cur ! (x + 1)"
  define v where "v = int (unat (ink ! x)) + c"
  define err where "err = v - (if v \<ge> 128 then 255 else 0)"
  have len: "length cur = w + 2" "length nxt = w + 2" "length bits = (w + 7) div 8"
    and nxt: "\<And>j. j < w + 2 \<Longrightarrow> 16 * \<bar>nxt ! M j\<bar> \<le> 127 * got i j"
    and cur: "\<And>j. j < w + 2 \<Longrightarrow> i + 1 < j \<Longrightarrow> 16 * \<bar>cur ! M j\<bar> \<le> 127 * 9"
    and here: "\<bar>cur ! M (i + 1)\<bar> \<le> 127"
    using inv by (auto simp: fs_inv_def st M_def)
  have idx: "x + 1 = M (i + 1)" "(if reverse then x else x + 2) = M (i + 2)" "(if reverse then x + 2 else x) = M i"
    using assms(2) by (auto simp: x_def M_def mirror_def)
  have small: "i < w + 2" "i + 1 < w + 2" "i + 2 < w + 2" using assms(2) by auto
  have Mless: "j < w + 2 \<Longrightarrow> M j < w + 2" for j unfolding M_def by (rule mirror_less)
  have Meq: "j < w + 2 \<Longrightarrow> k < w + 2 \<Longrightarrow> M j = M k \<longleftrightarrow> j = k" for j k unfolding M_def by (rule mirror_eq)
  have err: "\<bar>err\<bar> \<le> 127"
    unfolding err_def using here byte_range [of "ink ! x"]
    by (intro pixel_error_bound [of c "int (unat (ink ! x))"]) (simp_all only: v_def c_def idx)
  define cur' where "cur' = cur[M (i + 2) := int16 (cur ! M (i + 2) + cdiv16 (err * 7))]"
  define n1 where "n1 = nxt[M i := int16 (nxt ! M i + cdiv16 (err * 3))]"
  define n2 where "n2 = n1[M (i + 1) := int16 (n1 ! M (i + 1) + cdiv16 (err * 5))]"
  define n3 where "n3 = n2[M (i + 2) := int16 (n2 ! M (i + 2) + cdiv16 (err * 1))]"
  have step: "fs_pixel ink reverse x st = (cur', n3, if v \<ge> 128 then set_black bits x else bits)"
    unfolding cur'_def n1_def n2_def n3_def err_def v_def c_def fs_pixel_def st prod.case Let_def idx
    by simp
  have add: "16 * \<bar>int16 (a + cdiv16 (err * k))\<bar> \<le> 127 * (g + k)"
    if "16 * \<bar>a\<bar> \<le> 127 * g" "0 \<le> k" "g + k \<le> 16" for a g k
  proof -
    define z where "z = cdiv16 (err * k)"
    have z: "16 * \<bar>z\<bar> \<le> 127 * k" unfolding z_def by (rule cdiv16_bound [OF err that(2)])
    have tri: "\<bar>a + z\<bar> \<le> \<bar>a\<bar> + \<bar>z\<bar>" by (rule abs_triangle_ineq)
    have sum: "16 * \<bar>a + z\<bar> \<le> 127 * g + 127 * k" using tri z that(1) by simp
    then have "\<bar>a + z\<bar> \<le> 32767" using that(3) by simp
    then have "int16 (a + z) = a + z" by (rule int16_id)
    with sum show ?thesis by (simp add: z_def distrib_left)
  qed
  have n3: "n3 ! M j = (if j = i then int16 (nxt ! M i + cdiv16 (err * 3))
      else if j = i + 1 then int16 (nxt ! M (i + 1) + cdiv16 (err * 5))
      else if j = i + 2 then int16 (nxt ! M (i + 2) + cdiv16 (err * 1)) else nxt ! M j)"
    if "j < w + 2" for j
    using that small len Mless Meq by (simp add: n1_def n2_def n3_def nth_list_update)
  have next_ok: "16 * \<bar>n3 ! M j\<bar> \<le> 127 * got (Suc i) j" if j: "j < w + 2" for j
  proof -
    consider "j = i" | "j = i + 1" | "j = i + 2" | "j < i" | "j > i + 2" by linarith
    then show ?thesis
    proof cases
      case 1
      then show ?thesis using add [of "nxt ! M i" 6 3] nxt [OF small(1)] n3 [OF j] by (simp add: got_def)
    next
      case 2
      then show ?thesis using add [of "nxt ! M (i + 1)" 1 5] nxt [OF small(2)] n3 [OF j] by (simp add: got_def)
    next
      case 3
      then show ?thesis using add [of "nxt ! M (i + 2)" 0 1] nxt [OF small(3)] n3 [OF j] by (simp add: got_def)
    next
      case 4
      then show ?thesis using nxt [OF j] n3 [OF j] by (simp add: got_def)
    next
      case 5
      then show ?thesis using nxt [OF j] n3 [OF j] by (simp add: got_def)
    qed
  qed
  have cur_n: "cur' ! M j = (if j = i + 2 then int16 (cur ! M (i + 2) + cdiv16 (err * 7)) else cur ! M j)"
    if "j < w + 2" for j
    using that small len Mless Meq by (simp add: cur'_def nth_list_update)
  have "16 * \<bar>cur ! M (i + 2)\<bar> \<le> 127 * 9" using cur [OF small(3)] by simp
  from add [OF this, of 7] have "\<bar>cur' ! M (i + 2)\<bar> \<le> 127" using cur_n [OF small(3)] by simp
  moreover have "\<forall>j < w + 2. Suc i + 1 < j \<longrightarrow> 16 * \<bar>cur' ! M j\<bar> \<le> 127 * 9"
    using cur cur_n by auto
  moreover have "length cur' = w + 2" "length n3 = w + 2"
    using len by (simp_all add: cur'_def n1_def n2_def n3_def)
  ultimately show ?thesis
    unfolding x_def [symmetric] step fs_inv_def prod.case M_def [symmetric] using next_ok len by simp
qed


text \<open>The buffers between lines: every error fits, with the room the next line needs.\<close>

definition fs_ok :: "halftoner \<Rightarrow> bool" where
  "fs_ok ht \<longleftrightarrow> (case (err_cur ht, err_next ht) of
     (Some cur, Some nxt) \<Rightarrow> length cur = ht_width ht + 2 \<and> length nxt = ht_width ht + 2
       \<and> (\<forall>e \<in> set cur. 16 * \<bar>e\<bar> \<le> 127 * 9)
   | _ \<Rightarrow> False)"

lemma fs_inv_start:
  assumes "length cur = w + 2" "\<forall>e \<in> set cur. 16 * \<bar>e\<bar> \<le> 127 * 9"
  shows "fs_inv reverse w 0 (cur, replicate (w + 2) 0, replicate ((w + 7) div 8) 0)"
proof -
  have cur: "16 * \<bar>cur ! mirror reverse w j\<bar> \<le> 127 * 9" if "j < w + 2" for j
    using assms mirror_less [OF that, of reverse] nth_mem by fastforce
  moreover from cur [of 1] have "\<bar>cur ! mirror reverse w 1\<bar> \<le> 127" by simp
  moreover have "replicate (w + 2) (0 :: int) ! mirror reverse w j = 0" if "j < w + 2" for j
    using mirror_less [OF that, of reverse] by (rule nth_replicate)
  ultimately show ?thesis
    using assms(1) by (simp add: fs_inv_def got_def del: replicate_Suc replicate.simps)
qed

lemma fs_fold_inv:
  "\<lbrakk>fs_inv reverse w 0 st; n \<le> w\<rbrakk> \<Longrightarrow>
   fs_inv reverse w n (fold (\<lambda>i. fs_pixel ink reverse (if reverse then w - 1 - i else i)) [0..<n] st)"
proof (induction n)
  case (Suc n)
  then show ?case using fs_pixel_inv [of reverse w n] by simp
qed simp

text \<open>No store wraps: what every line leaves behind is within the same bound again.\<close>

lemma floyd_steinberg_ok:
  assumes "fs_ok ht" "floyd_steinberg ht ink y (replicate ((ht_width ht + 7) div 8) 0) = (ht', bits')"
  shows "fs_ok ht' \<and> length bits' = (ht_width ht + 7) div 8 \<and> ht_width ht' = ht_width ht
    \<and> ht_params ht' = ht_params ht"
proof -
  define w where "w = ht_width ht"
  define reverse where "reverse = (y mod 2 \<noteq> 0)"
  obtain cur nxt0 where cur: "err_cur ht = Some cur" "length cur = w + 2" "\<forall>e \<in> set cur. 16 * \<bar>e\<bar> \<le> 127 * 9"
    using assms(1) by (auto simp: fs_ok_def w_def split: option.splits)
  obtain cur' nxt' where fold: "fold (\<lambda>i. fs_pixel ink reverse (if reverse then w - 1 - i else i)) [0..<w]
      (cur, replicate (w + 2) 0, replicate ((w + 7) div 8) 0) = (cur', nxt', bits')"
    and ht': "ht' = ht\<lparr>err_cur := Some nxt', err_next := Some cur'\<rparr>"
    using assms(2) cur(1) unfolding floyd_steinberg_def Let_def w_def [symmetric] reverse_def [symmetric]
    by (auto split: prod.splits)
  have "fs_inv reverse w w (cur', nxt', bits')"
    using fs_fold_inv [OF fs_inv_start [OF cur(2,3)], of w reverse ink] fold by simp
  then have inv: "length cur' = w + 2" "length nxt' = w + 2" "length bits' = (w + 7) div 8"
    "\<And>j. j < w + 2 \<Longrightarrow> 16 * \<bar>nxt' ! mirror reverse w j\<bar> \<le> 127 * got w j"
    by (auto simp: fs_inv_def)
  have "16 * \<bar>e\<bar> \<le> 127 * 9" if e: "e \<in> set nxt'" for e
  proof -
    obtain k where k: "k < w + 2" "e = nxt' ! k" using e inv(2) by (metis in_set_conv_nth)
    have "mirror reverse w (mirror reverse w k) = k" using k(1) by (auto simp: mirror_def)
    moreover have "got w (mirror reverse w k) \<le> 9" by (simp add: got_def)
    ultimately show ?thesis using inv(4) [OF mirror_less [OF k(1), of reverse]] k(2) by simp
  qed
  with inv show ?thesis by (simp add: fs_ok_def ht' w_def [symmetric])
qed

section \<open>The screen is a permutation\<close>

lemma wrap_distance_bound: "\<bar>d\<bar> \<le> 4 * int c \<Longrightarrow> \<bar>wrap_distance c d\<bar> \<le> 4 * int c"
  by (auto simp: wrap_distance_def Let_def)

lemma screen_key_less:
  assumes "i < c * c" "c \<le> 16"
  shows "screen_key c dot i < 400 * 10 ^ 30"
proof -
  have c: "0 < c" using assms(1) by (cases c) auto
  have x: "i mod c < c" "i div c < c" using assms(1) c by (simp_all add: less_mult_imp_div_less)
  define centre where "centre = (if dot = 0 then int c else 3 * int c)"
  have near: "\<bar>4 * int a + 2 - centre\<bar> \<le> 4 * int c" if "a < c" for a
  proof -
    have "int a + 1 \<le> int c" using that by simp
    then show ?thesis by (cases "dot = 0") (simp_all add: centre_def abs_le_iff)
  qed
  define dx where "dx = wrap_distance c (4 * int (i mod c) + 2 - centre)"
  define dy where "dy = wrap_distance c (4 * int (i div c) + 2 - centre)"
  have "\<bar>dx\<bar> \<le> 4 * int c" "\<bar>dy\<bar> \<le> 4 * int c"
    unfolding dx_def dy_def using near [OF x(1)] near [OF x(2)] by (auto intro: wrap_distance_bound)
  then have d: "\<bar>dx\<bar> \<le> 64" "\<bar>dy\<bar> \<le> 64" using assms(2) by linarith+
  have "dx * dx \<le> 64 * 64" "dy * dy \<le> 64 * 64"
    using d by (metis abs_mult abs_mult_self_eq abs_ge_zero mult_mono order_refl zero_le_numeral)+
  then have "25000 * (dx * dx + dy * dy) + (37 * dx + 11 * dy) < 400 * 10 ^ 30" using d by simp
  then show ?thesis by (simp add: screen_key_def Let_def centre_def [symmetric] dx_def dy_def)
qed

lemma best_cell_free:
  assumes "\<exists>i < c * c. \<not> taken ! i" "c \<le> 16"
  shows "best_cell c dot taken < c * c \<and> \<not> taken ! best_cell c dot taken"
proof -
  define f where "f = (\<lambda>i (best, bi). if taken ! i then (best, bi)
    else let key = screen_key c dot i in if key < best then (key, i) else (best, bi))"
  have "(fst (fold f [0..<n] (400 * 10 ^ 30, 0)) = 400 * 10 ^ 30 \<and> (\<forall>i < n. taken ! i))
    \<or> (snd (fold f [0..<n] (400 * 10 ^ 30, 0)) < n \<and> \<not> taken ! snd (fold f [0..<n] (400 * 10 ^ 30, 0)))"
    if "n \<le> c * c" for n
    using that
  proof (induction n)
    case (Suc n)
    obtain best bi where fold: "fold f [0..<n] (400 * 10 ^ 30, 0) = (best, bi)" by force
    have "screen_key c dot n < 400 * 10 ^ 30" using Suc.prems assms(2) by (intro screen_key_less) auto
    moreover have "f n (best, bi) = (if taken ! n then (best, bi)
        else if screen_key c dot n < best then (screen_key c dot n, n) else (best, bi))"
      by (simp add: f_def Let_def)
    ultimately show ?case using Suc fold by (auto simp: less_Suc_eq)
  qed simp
  from this [of "c * c"] assms(1) show ?thesis by (auto simp: best_cell_def f_def)
qed


text \<open>\<open>sel\<close> lists the cells in the order of their ranks.\<close>

definition ranked :: "nat \<Rightarrow> nat \<Rightarrow> nat list \<Rightarrow> bool list \<times> bytes \<Rightarrow> bool" where
  "ranked n r sel st \<longleftrightarrow> length sel = r \<and> distinct sel \<and> set sel \<subseteq> {0..<n}
     \<and> length (fst st) = 256 \<and> length (snd st) = 256
     \<and> (\<forall>i < n. fst st ! i \<longleftrightarrow> i \<in> set sel)
     \<and> (\<forall>j < r. snd st ! (sel ! j) = word_of_nat j)"

lemma clustered_step_ranked:
  assumes "ranked (c * c) r sel st" "r < c * c" "c \<le> 16"
  shows "\<exists>bi. ranked (c * c) (Suc r) (sel @ [bi]) (clustered_step c r st)"
proof -
  obtain taken m where st: "st = (taken, m)" by force
  have n: "c * c \<le> 256" using mult_le_mono [OF assms(3,3)] by simp
  have "\<exists>i < c * c. \<not> taken ! i"
  proof (rule ccontr)
    assume "\<not> (\<exists>i < c * c. \<not> taken ! i)"
    then have "{0..<c * c} \<subseteq> set sel" using assms(1) by (auto simp: ranked_def st)
    then have "c * c \<le> card (set sel)" using card_mono [of "set sel" "{0..<c * c}"] by simp
    also have "card (set sel) \<le> r" using assms(1) card_length [of sel] by (simp add: ranked_def)
    finally show False using assms(2) by simp
  qed
  define bi where "bi = best_cell c (r mod 2) taken"
  have bi: "bi < c * c" "\<not> taken ! bi"
    using best_cell_free [OF \<open>\<exists>i < c * c. \<not> taken ! i\<close> assms(3), of "r mod 2"] by (auto simp: bi_def)
  have new: "bi \<notin> set sel" using assms(1) bi by (auto simp: ranked_def st)
  have "clustered_step c r st = (taken[bi := True], m[bi := word_of_nat r])"
    by (simp add: clustered_step_def st bi_def Let_def)
  moreover have "m[bi := word_of_nat r] ! ((sel @ [bi]) ! j) = word_of_nat j" if "j < Suc r" for j
  proof (cases "j = r")
    case True
    then show ?thesis using assms(1) bi n by (simp add: ranked_def st nth_append)
  next
    case False
    then have "j < length sel" using that assms(1) by (simp add: ranked_def)
    then have "sel ! j \<noteq> bi" using new nth_mem by metis
    then show ?thesis using assms(1) False that \<open>j < length sel\<close> by (simp add: ranked_def st nth_append)
  qed
  ultimately show ?thesis
    using assms(1) bi n new
    by (intro exI [of _ bi]) (auto simp: ranked_def st nth_list_update)
qed

lemma clustered_ranked:
  assumes "c \<le> 16" "length m = 256" "r \<le> c * c"
  shows "\<exists>sel. ranked (c * c) r sel (fold (clustered_step c) [0..<r] (replicate 256 False, m))"
  using assms(3)
proof (induction r)
  case 0
  have "c * c \<le> 256" using mult_le_mono [OF assms(1,1)] by simp
  then show ?case using assms(2) by (simp add: ranked_def)
next
  case (Suc r)
  then obtain sel where "ranked (c * c) r sel (fold (clustered_step c) [0..<r] (replicate 256 False, m))"
    by auto
  from clustered_step_ranked [OF this _ assms(1)] Suc.prems show ?case by auto
qed

text \<open>Every rank below \<open>c * c\<close> is the rank of exactly one cell.\<close>

definition rank_matrix :: "nat \<Rightarrow> bytes \<Rightarrow> bool" where
  "rank_matrix n m \<longleftrightarrow> n \<le> length m \<and> distinct (take n m) \<and> (\<forall>v \<in> set (take n m). unat v < n)"

lemma clustered_permutation:
  assumes "c \<le> 16" "length m = 256"
  shows "rank_matrix (c * c) (clustered c m)"
proof -
  define n where "n = c * c"
  define M where "M = clustered c m"
  obtain sel where "ranked (c * c) n sel (fold (clustered_step c) [0..<n] (replicate 256 False, m))"
    using clustered_ranked [OF assms, of n] by (auto simp: n_def)
  then have sel: "length sel = n" "distinct sel" "set sel \<subseteq> {0..<n}" "length M = 256"
    "\<And>j. j < n \<Longrightarrow> M ! (sel ! j) = word_of_nat j"
    by (auto simp: ranked_def M_def clustered_def n_def)
  have n: "n \<le> 256" using mult_le_mono [OF assms(1,1)] by (simp add: n_def)
  have "card (set sel) = n" using sel(1,2) distinct_card by fastforce
  then have onto: "set sel = {0..<n}" using sel(3) by (intro card_subset_eq) auto
  have rank: "\<exists>j < n. sel ! j = i \<and> unat (M ! i) = j" if "i < n" for i
  proof -
    from that onto obtain j where "j < n" "sel ! j = i"
      using sel(1) by (metis atLeastLessThan_iff in_set_conv_nth le0)
    then show ?thesis using sel(5) [of j] n by (auto simp: unat_of_nat_u8)
  qed
  have inj: "i = j" if "i < n" "j < n" "M ! i = M ! j" for i j
    using rank [OF that(1)] rank [OF that(2)] that(3) by auto
  have len: "length (take n M) = n" using sel(4) n by simp
  have "distinct (take n M)"
    unfolding distinct_conv_nth len using inj by (simp add: nth_take) blast
  moreover have "unat v < n" if v: "v \<in> set (take n M)" for v
  proof -
    obtain i where "i < n" "v = M ! i" using v len by (auto simp: in_set_conv_nth)
    then show ?thesis using rank [of i] by auto
  qed
  ultimately show ?thesis using sel(4) n by (simp add: rank_matrix_def M_def n_def)
qed

section \<open>Density of the ordered screens\<close>

lemma scale_matrix_nth:
  assumes "n \<le> length m"
  shows "length (scale_matrix m n levels) = length m
    \<and> (\<forall>i < n. scale_matrix m n levels ! i = word_of_nat ((2 * unat (m ! i) + 1) * 256 div (2 * levels)))"
proof -
  define f where "f = (\<lambda>i m :: bytes. m[i := word_of_nat ((2 * unat (m ! i) + 1) * 256 div (2 * levels))])"
  have "length (fold f [0..<k] m) = length m
    \<and> (\<forall>i < length m. fold f [0..<k] m ! i
        = (if i < k then word_of_nat ((2 * unat (m ! i) + 1) * 256 div (2 * levels)) else m ! i))"
    if "k \<le> n" for k
    using that
  proof (induction k)
    case (Suc k)
    have step: "f k x = x[k := word_of_nat ((2 * unat (x ! k) + 1) * 256 div (2 * levels))]" for x
      by (simp add: f_def)
    from Suc assms show ?case by (auto simp: step nth_list_update less_Suc_eq)
  qed simp
  from this [of n] assms show ?thesis by (simp add: scale_matrix_def f_def)
qed

text \<open>
  In a scaled cell of \<open>n\<close> thresholds, the number of thresholds below an ink value is the number of
  ranks whose threshold is: each rank is there once. So the cell prints as dark as it is asked to,
  and darker ink never prints fewer dots.
\<close>

definition rank_threshold :: "nat \<Rightarrow> nat \<Rightarrow> nat" where
  "rank_threshold n r = (2 * r + 1) * 256 div (2 * n)"

lemma rank_threshold_less: "r < n \<Longrightarrow> rank_threshold n r < 256"
  by (simp add: rank_threshold_def div_less_iff_less_mult)

lemma rank_matrix_multiset:
  assumes "rank_matrix n m"
  shows "set (map unat (take n m)) = {0..<n}" "distinct (map unat (take n m))"
proof -
  have len: "length (take n m) = n" using assms by (simp add: rank_matrix_def)
  show dist: "distinct (map unat (take n m))"
    using assms by (simp add: rank_matrix_def distinct_map inj_on_def word_unat_eq_iff)
  have "card (set (map unat (take n m))) = n" using dist len distinct_card by fastforce
  moreover have "set (map unat (take n m)) \<subseteq> {0..<n}" using assms by (auto simp: rank_matrix_def)
  ultimately show "set (map unat (take n m)) = {0..<n}" by (intro card_subset_eq) auto
qed

definition cell_dots :: "bytes \<Rightarrow> nat \<Rightarrow> u8 \<Rightarrow> nat" where
  "cell_dots m n v = length (filter (\<lambda>t. v > t) (take n m))"

lemma cell_dots_ranks:
  assumes "rank_matrix n m"
  shows "cell_dots (scale_matrix m n n) n v = card {r. r < n \<and> rank_threshold n r < unat v}"
proof -
  have n: "n \<le> length m" using assms by (simp add: rank_matrix_def)
  have scaled: "take n (scale_matrix m n n) = map (\<lambda>t. word_of_nat (rank_threshold n (unat t))) (take n m)"
    using scale_matrix_nth [OF n, of n] n
    by (intro list_eq_nthI) (auto simp: rank_threshold_def)
  have lt: "v > word_of_nat (rank_threshold n (unat t)) \<longleftrightarrow> rank_threshold n (unat t) < unat v"
    if "t \<in> set (take n m)" for t
  proof -
    have "unat t < n" using assms that by (simp add: rank_matrix_def)
    then have "unat (word_of_nat (rank_threshold n (unat t)) :: u8) = rank_threshold n (unat t)"
      using rank_threshold_less unat_of_nat_u8 by metis
    then show ?thesis by (simp add: word_less_nat_alt)
  qed
  have "cell_dots (scale_matrix m n n) n v
      = length (filter (\<lambda>t. rank_threshold n (unat t) < unat v) (take n m))"
    unfolding cell_dots_def scaled filter_map length_map comp_def using lt by (metis (lifting) filter_cong)
  also have "\<dots> = length (filter (\<lambda>r. rank_threshold n r < unat v) (map unat (take n m)))"
    by (simp add: filter_map comp_def)
  also have "\<dots> = card (set (filter (\<lambda>r. rank_threshold n r < unat v) (map unat (take n m))))"
    using rank_matrix_multiset(2) [OF assms] by (metis distinct_card distinct_filter)
  also have "set (filter (\<lambda>r. rank_threshold n r < unat v) (map unat (take n m)))
      = {r. r < n \<and> rank_threshold n r < unat v}"
    unfolding set_filter rank_matrix_multiset(1) [OF assms] by auto
  finally show ?thesis .
qed

lemma cell_dots_mono:
  assumes "u \<le> v"
  shows "cell_dots m n u \<le> cell_dots m n v"
proof -
  have "cell_dots m n w = length (filter (\<lambda>t. t < w) (take n m))" for w by (simp add: cell_dots_def)
  moreover have "length (filter (\<lambda>t. t < u) xs) \<le> length (filter (\<lambda>t. t < v) xs)" for xs
    using assms by (induction xs) auto
  ultimately show ?thesis by simp
qed

text \<open>The Bayer matrices, by evaluation.\<close>

lemma bayer4_ranks: "rank_matrix 16 (bayer 4 (replicate 256 0))"
proof -
  have "length (bayer 4 (replicate 256 0)) = 256 \<and> distinct (take 16 (bayer 4 (replicate 256 0)))
    \<and> list_all (\<lambda>v. unat v < 16) (take 16 (bayer 4 (replicate 256 0)))" by code_simp
  then show ?thesis by (simp add: rank_matrix_def list_all_iff)
qed

lemma bayer8_ranks: "rank_matrix 64 (bayer 8 (replicate 256 0))"
proof -
  have "length (bayer 8 (replicate 256 0)) = 256 \<and> distinct (take 64 (bayer 8 (replicate 256 0)))
    \<and> list_all (\<lambda>v. unat v < 64) (take 64 (bayer 8 (replicate 256 0)))" by code_simp
  then show ?thesis by (simp add: rank_matrix_def list_all_iff)
qed

text \<open>What initialisation leaves in the matrix for the three ordered screens.\<close>

lemma halftoner_init_matrix:
  assumes "m2022_halftoner_init p w st = Some ht"
    and "ht_method p \<in> {M2022_HT_BAYER4, M2022_HT_BAYER8, M2022_HT_CLUSTERED}"
  shows "\<exists>m. 4 \<le> cell ht \<and> cell ht \<le> 16 \<and> rank_matrix (cell ht * cell ht) m
    \<and> matrix ht = scale_matrix m (cell ht * cell ht) (cell ht * cell ht)"
proof -
  define c where "c = (if cluster_cell p \<ge> 4 \<and> unat (cluster_cell p) \<le> 16 then unat (cluster_cell p) else 8)"
  have c: "4 \<le> c" "c \<le> 16" by (auto simp: c_def word_le_nat_alt)
  show ?thesis
    using assms bayer4_ranks bayer8_ranks clustered_permutation [OF c(2), of "replicate 256 0"] c
    by (cases "ht_method p") (auto simp: m2022_halftoner_init_def Let_def c_def [symmetric])
qed

section \<open>Solid lines under error diffusion\<close>

text \<open>All-black and all-white lines are exact: no error, every pixel right.\<close>

definition blank_errors :: "nat \<Rightarrow> int list \<Rightarrow> bool" where
  "blank_errors w z \<longleftrightarrow> length z = w + 2 \<and> (\<forall>e \<in> set z. e = 0)"

lemma blank_errors_nth: "blank_errors w z \<Longrightarrow> j < w + 2 \<Longrightarrow> z ! j = 0"
  by (simp add: blank_errors_def)

lemma blank_errors_update: "blank_errors w z \<Longrightarrow> j < w + 2 \<Longrightarrow> z[j := 0] = z"
  using blank_errors_nth list_update_id by metis

lemma fs_solid_pixel:
  assumes "x < w" "ink ! x = (if black then 255 else 0)" "blank_errors w z" "blank_errors w z'"
  shows "fs_pixel ink reverse x (z, z', bits) = (z, z', if black then set_black bits x else bits)"
proof -
  have idx: "x < w + 2" "x + 1 < w + 2" "x + 2 < w + 2" using assms(1) by auto
  define v where "v = int (unat (ink ! x))"
  have v: "v = (if black then 255 else 0)" using assms(2) by (auto simp: v_def)
  have zeros: "u ! x = 0" "u ! Suc x = 0" "u ! Suc (Suc x) = 0"
    "u[x := 0] = u" "u[Suc x := 0] = u" "u[Suc (Suc x) := 0] = u" if "blank_errors w u" for u
    using blank_errors_nth [OF that] blank_errors_update [OF that] assms(1) by simp_all
  have i0: "int16 0 = 0" "cdiv16 0 = 0" by (simp_all add: int16_def cdiv16_def)
  show ?thesis
    unfolding fs_pixel_def prod.case Let_def v_def [symmetric] v
    by (cases black; cases reverse) (simp_all add: i0 zeros [OF assms(3)] zeros [OF assms(4)])
qed

lemma fs_solid_line:
  assumes "err_cur ht = Some z" "blank_errors (ht_width ht) z"
    and "\<forall>x < ht_width ht. ink ! x = (if black then 255 else 0)"
    and "floyd_steinberg ht ink y (replicate ((ht_width ht + 7) div 8) 0) = (ht', bits)"
  shows "(\<forall>x < ht_width ht. pixel bits x = black)
    \<and> (\<exists>z'. err_cur ht' = Some z' \<and> blank_errors (ht_width ht) z') \<and> ht_width ht' = ht_width ht"
proof -
  define w where "w = ht_width ht"
  define reverse where "reverse = (y mod 2 \<noteq> 0)"
  define at where "at = (\<lambda>i. if reverse then w - 1 - i else i)"
  define z' where "z' = replicate (w + 2) (0 :: int)"
  have z': "blank_errors w z'" by (simp add: blank_errors_def z'_def)
  have wide: "w \<le> 8 * ((w + 7) div 8)"
    using mult_div_mod_eq [of 8 "w + 7"] mod_less_divisor [of 8 "w + 7"] by linarith
  have line: "\<exists>b. fold (\<lambda>i. fs_pixel ink reverse (at i)) [0..<n] (z, z', replicate ((w + 7) div 8) 0) = (z, z', b)
      \<and> length b = (w + 7) div 8 \<and> (\<forall>x < w. pixel b x \<longleftrightarrow> black \<and> (\<exists>i < n. x = at i))"
    if "n \<le> w" for n
    using that
  proof (induction n)
    case 0
    have "\<not> pixel (replicate ((w + 7) div 8) 0) x" if "x < w" for x
      using that by (intro pixel_zero byte_index_less)
    then show ?case by simp
  next
    case (Suc n)
    then obtain b where b: "fold (\<lambda>i. fs_pixel ink reverse (at i)) [0..<n]
        (z, z', replicate ((w + 7) div 8) 0) = (z, z', b)"
      "length b = (w + 7) div 8" "\<forall>x < w. pixel b x \<longleftrightarrow> black \<and> (\<exists>i < n. x = at i)" by auto
    have n: "at n < w" using Suc.prems by (auto simp: at_def)
    have "fs_pixel ink reverse (at n) (z, z', b) = (z, z', if black then set_black b (at n) else b)"
      using assms(2,3) n z' by (intro fs_solid_pixel) (auto simp: w_def)
    moreover have "at n div 8 < length b" unfolding b(2) using n by (rule byte_index_less)
    ultimately show ?case
      using b by (auto simp: pixel_set_black less_Suc_eq)
  qed
  obtain b where b: "fold (\<lambda>i. fs_pixel ink reverse (at i)) [0..<w] (z, z', replicate ((w + 7) div 8) 0)
      = (z, z', b)" "\<forall>x < w. pixel b x \<longleftrightarrow> black \<and> (\<exists>i < w. x = at i)"
    using line [of w] by auto
  have "bits = b" "ht' = ht\<lparr>err_cur := Some z', err_next := Some z\<rparr>"
    using assms(1,4) b(1)
    unfolding floyd_steinberg_def Let_def w_def [symmetric] reverse_def [symmetric] at_def z'_def
    by (simp_all add: comp_def)
  moreover have "\<exists>i < w. x = at i" if "x < w" for x
    using that by (intro exI [of _ "if reverse then w - 1 - x else x"]) (auto simp: at_def)
  ultimately show ?thesis using b(2) z' by (auto simp: w_def)
qed

section \<open>A page\<close>

text \<open>The lines of a page, as the clients run them: \<open>y\<close> counts up.\<close>

primrec halftone_lines :: "bytes \<Rightarrow> halftoner \<Rightarrow> nat \<Rightarrow> bytes list \<Rightarrow> halftoner \<times> bytes list" where
  "halftone_lines tile ht y [] = (ht, [])"
| "halftone_lines tile ht y (ink # inks) =
    (let (ht1, bits) = m2022_halftone_line tile ht ink y;
         (ht2, rest) = halftone_lines tile ht1 (Suc y) inks
     in (ht2, bits # rest))"

lemma halftone_line_size:
  "m2022_halftone_line tile ht ink y = (ht', bits) \<Longrightarrow>
     ht_width ht' = ht_width ht \<and> ht_params ht' = ht_params ht"
  by (auto simp: m2022_halftone_line_def floyd_steinberg_def Let_def
      split: ht_method.splits prod.splits)

lemma halftoner_init_width: "m2022_halftoner_init p w st = Some ht \<Longrightarrow> ht_width ht = w \<and> ht_params ht = p"
  by (auto simp: m2022_halftoner_init_def m2022_halftoner_reset_def Let_def
      split: ht_method.splits option.splits if_splits)

lemma halftoner_init_total: "\<exists>ht. m2022_halftoner_init p w (Some (m2022_halftoner_state_bytes w)) = Some ht"
  by (cases "ht_method p") (simp_all add: m2022_halftoner_init_def Let_def)

lemma halftone_lines_snoc:
  "halftone_lines tile ht y (inks @ [ink]) =
    (let (ht1, out) = halftone_lines tile ht y inks;
         (ht2, bits) = m2022_halftone_line tile ht1 ink (y + length inks)
     in (ht2, out @ [bits]))"
  by (induction inks arbitrary: ht y) (auto simp: Let_def split: prod.splits)

lemma fs_fold_length:
  "length (snd (snd (fold (\<lambda>i. fs_pixel ink reverse (f i)) xs (a, b, c)))) = length c"
proof (induction xs arbitrary: a b c)
  case (Cons x xs)
  obtain a' b' c' where st: "fs_pixel ink reverse (f x) (a, b, c) = (a', b', c')" using prod_cases3 by blast
  then have "length c' = length c" by (auto simp: fs_pixel_def Let_def split: if_splits)
  with Cons [of a' b' c'] st show ?case by simp
qed simp

lemma length_ordered_line: "length (ordered_line thr w ink bits) = length bits"
  by (induction w) (auto simp: ordered_line_def)

lemma length_halftone_line:
  "length (snd (m2022_halftone_line tile ht ink y)) = (ht_width ht + 7) div 8"
  by (simp add: m2022_halftone_line_def floyd_steinberg_def Let_def length_ordered_line
      case_prod_unfold fs_fold_length split: ht_method.splits)

lemma fs_ok_init:
  "\<lbrakk>m2022_halftoner_init p w st = Some ht; ht_method p = M2022_HT_FLOYD_STEINBERG\<rbrakk>
   \<Longrightarrow> fs_ok ht \<and> ht_params ht = p"
  by (auto simp: m2022_halftoner_init_def m2022_halftoner_reset_def fs_ok_def Let_def
      split: option.splits if_splits)

lemma fs_ok_lines:
  "\<lbrakk>fs_ok ht; ht_method (ht_params ht) = M2022_HT_FLOYD_STEINBERG\<rbrakk>
   \<Longrightarrow> fs_ok (fst (halftone_lines tile ht y inks))"
proof (induction inks arbitrary: ht y)
  case (Cons ink inks)
  obtain ht1 bits where line: "m2022_halftone_line tile ht ink y = (ht1, bits)" by force
  then have "floyd_steinberg ht ink y (replicate ((ht_width ht + 7) div 8) 0) = (ht1, bits)"
    using Cons.prems(2) by (simp add: m2022_halftone_line_def Let_def)
  from floyd_steinberg_ok [OF Cons.prems(1) this] Cons.prems Cons.IH [of ht1 "Suc y"] show ?case
    by (simp add: line Let_def case_prod_unfold)
qed simp

section \<open>Properties\<close>

text \<open>The threshold that an ordered screen compares a pixel with.\<close>

definition screen_threshold :: "bytes \<Rightarrow> halftoner \<Rightarrow> nat \<Rightarrow> nat \<Rightarrow> u8" where
  "screen_threshold tile ht y x =
    (case ht_method (ht_params ht) of
       M2022_HT_THRESHOLD \<Rightarrow> ht_threshold (ht_params ht)
     | M2022_HT_BLUE_NOISE \<Rightarrow> tile ! (y mod 64 * 64 + x mod 64)
     | _ \<Rightarrow> matrix ht ! (y mod cell ht * cell ht + x mod cell ht))"

text \<open>C36: Every screen but error diffusion sets exactly the pixels whose ink exceeds the screen's threshold
  at that place: in the packed line the code builds byte by byte, a bit is set if and only if the
  comparison holds, and the halftoner keeps no state between lines.\<close>

theorem ordered_screens_threshold:
  assumes "ht_method (ht_params ht) \<noteq> M2022_HT_FLOYD_STEINBERG" "x < ht_width ht"
  shows "(pixel (snd (m2022_halftone_line tile ht ink y)) x \<longleftrightarrow> ink ! x > screen_threshold tile ht y x)
    \<and> fst (m2022_halftone_line tile ht ink y) = ht"
  using assms ordered_line_fresh [OF byte_index_less [OF assms(2)]]
  by (cases "ht_method (ht_params ht)") (auto simp: m2022_halftone_line_def screen_threshold_def Let_def)

lemma ordered_screens_threshold_witness:
  "let ht = \<lparr>ht_params = \<lparr>ht_method = M2022_HT_THRESHOLD, ht_threshold = 96, cluster_cell = 8\<rparr>, ht_width = 9,
            matrix = [], cell = 0, err_cur = None, err_next = None\<rparr>
   in pixel (snd (m2022_halftone_line [] ht [0, 0, 0, 0, 0, 0, 0, 0, 97] 3)) 8"
  using ordered_screens_threshold [of "\<lparr>ht_params = \<lparr>ht_method = M2022_HT_THRESHOLD, ht_threshold = 96,
      cluster_cell = 8\<rparr>, ht_width = 9, matrix = [], cell = 0, err_cur = None, err_next = None\<rparr>"
      8 "[]" "[0, 0, 0, 0, 0, 0, 0, 0, 97]" 3]
  by (simp add: screen_threshold_def)

text \<open>C38: Error diffusion never overflows its 16-bit cells: from initialisation on, whatever the lines are,
  every error kept for the next line stays within 127 * 9 / 16, so no store to the buffers wraps.\<close>

theorem error_diffusion_bounded:
  assumes "m2022_halftoner_init p w st = Some ht" "ht_method p = M2022_HT_FLOYD_STEINBERG"
  shows "fs_ok (fst (halftone_lines tile ht y inks))"
  using fs_ok_lines fs_ok_init [OF assms] assms(2) by simp

lemma error_diffusion_bounded_witness:
  "\<exists>ht. m2022_halftoner_init (m2022_ht_default M2022_HT_FLOYD_STEINBERG) 2 (Some 16) = Some ht
     \<and> fs_ok (fst (halftone_lines [] ht 0 [[100, 200], [5, 250]]))"
proof -
  obtain ht where ht: "m2022_halftoner_init (m2022_ht_default M2022_HT_FLOYD_STEINBERG) 2 (Some 16) = Some ht"
    by (simp add: m2022_halftoner_init_def m2022_ht_default_def m2022_halftoner_state_bytes_def Let_def)
  with error_diffusion_bounded [OF ht] show ?thesis by (auto simp: m2022_ht_default_def simp del: halftone_lines.simps)
qed

text \<open>Solid areas are exact under error diffusion: from a buffer without error, an all-black line comes
  out all black and an all-white one all white, in either scan direction, and leaves no error.\<close>

theorem error_diffusion_solid_exact:
  assumes "err_cur ht = Some (replicate (ht_width ht + 2) 0)"
    and "\<forall>x < ht_width ht. ink ! x = (if black then 255 else 0)"
    and "floyd_steinberg ht ink y (replicate ((ht_width ht + 7) div 8) 0) = (ht', bits)"
  shows "(\<forall>x < ht_width ht. pixel bits x = black)
    \<and> err_cur ht' = Some (replicate (ht_width ht' + 2) 0) \<and> ht_width ht' = ht_width ht"
proof -
  have eq: "blank_errors w z \<longleftrightarrow> z = replicate (w + 2) 0" for w z
    unfolding blank_errors_def by (metis in_set_replicate length_replicate replicate_eqI)
  from fs_solid_line [OF assms(1) _ assms(2,3)] eq show ?thesis by auto
qed

lemma error_diffusion_solid_exact_witness:
  "let ht = \<lparr>ht_params = m2022_ht_default M2022_HT_FLOYD_STEINBERG, ht_width = 3, matrix = [], cell = 0,
            err_cur = Some (replicate 5 0), err_next = Some (replicate 5 0)\<rparr>
   in \<exists>ht' bits. floyd_steinberg ht [255, 255, 255] 1 (replicate 1 0) = (ht', bits)
        \<and> (\<forall>x < 3. pixel bits x)"
proof -
  define ht where "ht = \<lparr>ht_params = m2022_ht_default M2022_HT_FLOYD_STEINBERG, ht_width = 3, matrix = [],
    cell = 0, err_cur = Some (replicate 5 0), err_next = Some (replicate 5 0)\<rparr>"
  obtain ht' bits where r: "floyd_steinberg ht [255, 255, 255] 1 (replicate 1 0) = (ht', bits)" by force
  have "\<forall>x < 3. [255, 255, 255] ! x = (255 :: u8)" by (simp add: less_Suc_eq numeral_eq_Suc)
  with error_diffusion_solid_exact [of ht "[255, 255, 255]" True 1 ht' bits] r
  have "\<forall>x < 3. pixel bits x" by (simp add: ht_def)
  with r show ?thesis unfolding ht_def [symmetric] Let_def by blast
qed

text \<open>An ordered screen prints as dark as asked: after initialisation each rank occurs in exactly one
  cell of the matrix, so the dots that a cell prints for a constant ink value are those ranks whose
  scaled threshold lies below it, and darker ink never prints fewer dots.\<close>

theorem screen_density:
  assumes "m2022_halftoner_init p w st = Some ht"
    and "ht_method p \<in> {M2022_HT_BAYER4, M2022_HT_BAYER8, M2022_HT_CLUSTERED}"
  shows "cell_dots (matrix ht) (cell ht * cell ht) v
      = card {r. r < cell ht * cell ht \<and> rank_threshold (cell ht * cell ht) r < unat v}
    \<and> (\<forall>u \<le> v. cell_dots (matrix ht) (cell ht * cell ht) u \<le> cell_dots (matrix ht) (cell ht * cell ht) v)"
  using halftoner_init_matrix [OF assms] cell_dots_ranks cell_dots_mono by metis

lemma screen_density_witness:
  "\<exists>ht. m2022_halftoner_init (m2022_ht_default M2022_HT_CLUSTERED) 100 None = Some ht
     \<and> cell_dots (matrix ht) (cell ht * cell ht) 9
       = card {r. r < cell ht * cell ht \<and> rank_threshold (cell ht * cell ht) r < 9}"
proof -
  obtain ht where ht: "m2022_halftoner_init (m2022_ht_default M2022_HT_CLUSTERED) 100 None = Some ht"
    by (simp add: m2022_halftoner_init_def m2022_ht_default_def Let_def)
  with screen_density [OF ht, of 9] show ?thesis by (auto simp: m2022_ht_default_def)
qed

text \<open>A clustered screen of 16 by 16 cells never prints solid black: at full ink one dot of each cell
  stays white, because the last rank's threshold is 255. The comment on \<open>scale_matrix\<close> promises the
  opposite.\<close>

theorem clustered16_black_has_a_hole:
  "\<exists>ht. m2022_halftoner_init \<lparr>ht_method = M2022_HT_CLUSTERED, ht_threshold = 127, cluster_cell = 16\<rparr> w st = Some ht
     \<and> cell ht = 16 \<and> cell_dots (matrix ht) 256 255 = 255"
proof -
  define p where "p = \<lparr>ht_method = M2022_HT_CLUSTERED, ht_threshold = 127, cluster_cell = 16\<rparr>"
  obtain ht where ht: "m2022_halftoner_init p w st = Some ht" "cell ht = 16"
    by (simp add: p_def m2022_halftoner_init_def Let_def word_le_nat_alt)
  have "{r. r < 256 \<and> rank_threshold 256 r < 255} = {r. r < 255}"
    by (auto simp: rank_threshold_def)
  then have "card {r. r < 256 \<and> rank_threshold 256 r < 255} = 255" by simp
  moreover obtain m where "rank_matrix 256 m" "matrix ht = scale_matrix m 256 256"
    using halftoner_init_matrix [OF ht(1)] ht(2) by (auto simp: p_def)
  ultimately have "cell_dots (matrix ht) 256 255 = 255" using cell_dots_ranks [of 256 m 255] by simp
  then show ?thesis using ht by (auto simp: p_def)
qed



end
