(* ===== verification/Bluenoise.thy ===== *)
theory Bluenoise
  imports Halftone
begin

text \<open>
  The table of src/halftone/bluenoise64.c, row by row, and the density of the screen that uses it. The
  halftone model takes the table as a parameter; here it is given.
\<close>

section \<open>The table\<close>

definition bluenoise_rows :: "int list list" where
  "bluenoise_rows =
    [
     [37, 102, 10, 143, 110, 47, 153, 5, 78, 160, 224, 63, 88, 179, 23, 72, 96, 32, 200, 134, 223, 32, 81, 12, 67, 169, 248, 70, 229, 177, 6, 163,
      107, 234, 128, 96, 253, 15, 79, 231, 99, 166, 46, 238, 160, 205, 247, 171, 60, 128, 77, 19, 164, 121, 2, 169, 61, 131, 102, 76, 242, 109, 21, 209],
     [156, 245, 83, 198, 18, 237, 184, 118, 254, 96, 122, 11, 203, 45, 136, 222, 189, 50, 253, 19, 98, 120, 176, 139, 106, 206, 45, 154, 203, 97, 63, 250,
      44, 186, 3, 57, 189, 115, 160, 32, 67, 201, 16, 79, 124, 12, 70, 140, 6, 243, 183, 102, 139, 239, 76, 195, 252, 32, 165, 193, 40, 172, 227, 118],
     [176, 50, 131, 216, 164, 73, 94, 41, 208, 24, 166, 235, 149, 103, 242, 14, 123, 158, 85, 149, 64, 197, 236, 52, 223, 21, 122, 87, 26, 140, 218, 116,
      78, 214, 142, 165, 229, 48, 215, 181, 132, 249, 152, 183, 219, 102, 191, 113, 202, 88, 44, 221, 60, 178, 35, 110, 151, 87, 232, 16, 138, 59, 89, 5],
     [75, 224, 26, 61, 117, 30, 226, 173, 143, 54, 193, 76, 27, 185, 82, 169, 65, 216, 8, 180, 220, 41, 6, 165, 91, 147, 195, 235, 56, 184, 15, 152,
      173, 21, 66, 103, 28, 86, 143, 7, 104, 37, 90, 59, 25, 168, 43, 227, 31, 163, 123, 197, 8, 95, 213, 136, 11, 208, 53, 105, 221, 154, 241, 195],
     [145, 111, 188, 154, 249, 193, 133, 11, 70, 241, 105, 134, 214, 56, 118, 204, 35, 108, 236, 130, 100, 157, 79, 125, 251, 63, 2, 170, 131, 242, 92, 37,
      229, 126, 247, 178, 206, 120, 245, 55, 226, 189, 119, 231, 145, 252, 94, 149, 66, 238, 18, 143, 250, 156, 52, 237, 70, 162, 123, 183, 79, 26, 124, 42],
     [17, 238, 89, 4, 79, 49, 97, 218, 120, 183, 0, 42, 231, 163, 6, 248, 144, 190, 74, 53, 27, 244, 208, 186, 37, 215, 114, 80, 39, 109, 211, 62,
      196, 85, 45, 139, 18, 71, 194, 167, 77, 149, 10, 197, 47, 78, 1, 213, 117, 187, 83, 108, 68, 191, 23, 119, 198, 37, 247, 8, 212, 169, 99, 207],
     [159, 48, 218, 136, 172, 233, 152, 29, 163, 84, 207, 154, 98, 74, 130, 49, 88, 22, 167, 200, 146, 113, 58, 20, 102, 177, 152, 229, 188, 9, 167, 146,
      111, 7, 189, 94, 233, 154, 39, 109, 22, 219, 63, 135, 105, 206, 128, 175, 23, 51, 157, 219, 36, 130, 223, 83, 176, 98, 148, 67, 136, 49, 253, 71],
     [125, 100, 178, 36, 112, 16, 205, 62, 250, 47, 115, 238, 21, 194, 224, 177, 212, 118, 241, 0, 227, 86, 164, 138, 232, 73, 16, 53, 135, 253, 81, 30,
      238, 212, 161, 59, 216, 1, 131, 236, 198, 96, 177, 239, 24, 159, 60, 244, 101, 232, 200, 10, 175, 94, 161, 2, 51, 232, 27, 222, 112, 194, 0, 181],
     [28, 210, 63, 245, 187, 71, 139, 100, 191, 16, 146, 65, 170, 40, 103, 15, 153, 63, 97, 132, 43, 180, 12, 199, 46, 127, 210, 99, 202, 64, 119, 176,
      50, 134, 27, 122, 104, 185, 86, 158, 50, 126, 36, 82, 188, 222, 35, 150, 79, 137, 39, 117, 230, 55, 248, 140, 205, 118, 188, 86, 35, 151, 94, 228],
     [74, 164, 10, 127, 87, 214, 39, 170, 128, 224, 202, 92, 127, 253, 143, 80, 234, 30, 162, 194, 77, 214, 108, 248, 90, 157, 239, 33, 161, 20, 226, 198,
      100, 73, 243, 171, 43, 247, 65, 215, 13, 252, 166, 143, 8, 117, 92, 203, 5, 182, 64, 150, 80, 192, 30, 106, 74, 158, 11, 171, 245, 204, 56, 138],
     [249, 110, 144, 226, 21, 156, 230, 3, 82, 58, 32, 181, 5, 210, 58, 197, 125, 216, 50, 251, 24, 145, 66, 34, 178, 4, 61, 113, 183, 140, 89, 2,
      145, 218, 15, 201, 81, 148, 21, 114, 188, 61, 106, 200, 70, 246, 178, 54, 223, 104, 254, 209, 14, 127, 171, 215, 40, 240, 58, 132, 73, 115, 21, 190],
     [40, 179, 53, 198, 104, 56, 116, 186, 242, 108, 160, 231, 75, 113, 33, 167, 7, 107, 183, 89, 121, 226, 170, 116, 221, 142, 196, 79, 217, 47, 247, 168,
      42, 183, 109, 130, 32, 211, 176, 138, 87, 220, 26, 233, 49, 136, 19, 160, 124, 22, 166, 91, 48, 237, 95, 6, 146, 194, 103, 220, 16, 234, 160, 90],
     [5, 231, 83, 33, 169, 254, 75, 145, 25, 212, 133, 48, 150, 239, 186, 90, 244, 69, 142, 16, 159, 55, 9, 193, 83, 48, 244, 129, 10, 108, 69, 124,
      230, 86, 59, 158, 228, 99, 48, 236, 9, 157, 127, 95, 165, 208, 112, 231, 62, 195, 36, 135, 188, 155, 68, 224, 122, 83, 26, 154, 182, 47, 134, 215],
     [126, 102, 151, 219, 133, 9, 202, 41, 174, 85, 20, 200, 99, 15, 135, 48, 156, 198, 42, 236, 209, 101, 245, 136, 24, 105, 161, 32, 226, 171, 208, 28,
      152, 10, 251, 187, 18, 71, 126, 199, 77, 181, 42, 194, 3, 77, 37, 88, 146, 243, 76, 217, 111, 24, 198, 44, 180, 252, 54, 211, 77, 107, 197, 67],
     [239, 202, 22, 61, 186, 92, 128, 235, 55, 115, 250, 176, 66, 224, 207, 117, 24, 227, 128, 84, 179, 31, 76, 164, 233, 207, 69, 185, 91, 140, 53, 192,
      101, 212, 118, 50, 141, 242, 168, 37, 112, 244, 67, 219, 147, 251, 185, 214, 9, 102, 161, 15, 59, 245, 131, 101, 17, 164, 112, 138, 0, 248, 30, 171],
     [14, 77, 165, 117, 231, 31, 162, 103, 219, 155, 0, 127, 40, 163, 84, 60, 180, 96, 1, 57, 147, 114, 202, 42, 123, 0, 145, 44, 252, 19, 119, 241,
      73, 36, 172, 85, 204, 104, 1, 223, 153, 17, 137, 98, 29, 122, 58, 171, 129, 46, 181, 225, 148, 86, 173, 228, 73, 205, 32, 225, 166, 86, 150, 54],
     [184, 141, 246, 47, 85, 206, 64, 12, 195, 73, 188, 93, 236, 142, 8, 251, 138, 218, 171, 247, 193, 11, 224, 61, 97, 174, 221, 109, 201, 80, 158, 3,
      182, 136, 225, 13, 157, 44, 192, 63, 87, 210, 174, 52, 236, 162, 106, 25, 239, 200, 89, 121, 38, 210, 7, 53, 148, 127, 95, 59, 192, 123, 228, 111],
     [33, 96, 196, 0, 148, 178, 248, 137, 35, 146, 50, 206, 28, 179, 102, 201, 36, 74, 110, 41, 129, 86, 153, 182, 248, 75, 29, 130, 59, 179, 229, 98,
      209, 54, 108, 247, 74, 217, 137, 115, 251, 39, 108, 203, 79, 14, 221, 82, 145, 63, 2, 252, 72, 166, 113, 186, 234, 14, 174, 240, 41, 11, 71, 212],
     [236, 62, 123, 220, 101, 21, 119, 81, 222, 98, 246, 117, 78, 220, 46, 124, 164, 16, 148, 211, 65, 233, 32, 133, 16, 203, 167, 235, 11, 142, 35, 66,
      150, 22, 169, 130, 31, 95, 164, 20, 184, 147, 4, 124, 180, 141, 190, 38, 210, 115, 157, 188, 135, 27, 242, 90, 38, 215, 77, 151, 105, 201, 163, 136],
     [85, 178, 27, 168, 71, 234, 39, 199, 171, 18, 159, 9, 134, 156, 69, 242, 93, 197, 237, 25, 160, 100, 205, 56, 108, 148, 42, 93, 195, 107, 215, 124,
      244, 90, 202, 63, 185, 238, 53, 227, 80, 58, 215, 233, 46, 66, 250, 94, 173, 20, 217, 100, 51, 205, 153, 66, 140, 116, 185, 20, 133, 246, 48, 19],
     [210, 149, 254, 49, 138, 210, 154, 56, 113, 233, 64, 187, 230, 25, 209, 4, 172, 53, 82, 120, 189, 6, 170, 237, 80, 220, 122, 67, 249, 50, 167, 9,
      186, 44, 233, 4, 145, 120, 12, 204, 129, 157, 96, 31, 169, 109, 7, 131, 57, 241, 36, 80, 228, 12, 108, 194, 2, 254, 46, 210, 64, 92, 182, 118],
     [59, 8, 92, 189, 109, 5, 185, 92, 27, 135, 202, 95, 50, 107, 183, 142, 113, 227, 137, 45, 253, 68, 118, 37, 190, 3, 163, 184, 22, 148, 84, 225,
      71, 114, 155, 99, 215, 83, 167, 105, 28, 198, 243, 72, 139, 228, 208, 162, 196, 111, 147, 183, 127, 170, 55, 222, 165, 69, 99, 169, 231, 4, 153, 226],
     [110, 198, 131, 33, 239, 78, 123, 249, 214, 75, 38, 169, 128, 254, 81, 59, 33, 186, 12, 207, 148, 89, 216, 154, 131, 243, 35, 99, 227, 120, 206, 33,
      139, 177, 21, 191, 41, 254, 64, 231, 47, 177, 10, 116, 192, 25, 84, 42, 73, 15, 232, 61, 28, 249, 85, 36, 125, 201, 146, 31, 126, 192, 79, 37],
     [173, 232, 68, 213, 165, 51, 148, 14, 175, 155, 237, 0, 215, 28, 155, 202, 241, 92, 162, 106, 27, 182, 50, 19, 91, 63, 206, 136, 76, 12, 179, 102,
      249, 56, 228, 75, 133, 25, 181, 147, 122, 86, 143, 216, 54, 100, 149, 246, 126, 171, 202, 98, 141, 210, 114, 153, 232, 22, 82, 217, 109, 52, 249, 140],
     [86, 25, 152, 100, 19, 227, 201, 68, 44, 115, 88, 145, 67, 179, 104, 8, 130, 68, 220, 54, 230, 129, 240, 165, 221, 113, 159, 49, 192, 241, 62, 158,
      6, 126, 203, 107, 162, 207, 92, 1, 214, 61, 250, 19, 159, 235, 187, 1, 217, 88, 46, 160, 6, 70, 189, 16, 101, 59, 184, 243, 17, 167, 207, 13],
     [239, 193, 47, 121, 183, 86, 132, 105, 243, 209, 23, 194, 119, 239, 47, 213, 171, 39, 144, 196, 79, 1, 104, 71, 193, 8, 250, 26, 150, 115, 38, 200,
      93, 172, 44, 14, 244, 52, 115, 239, 155, 31, 183, 109, 75, 34, 119, 61, 144, 23, 244, 121, 222, 176, 47, 245, 211, 163, 133, 39, 150, 98, 62, 130],
     [108, 164, 223, 66, 251, 2, 162, 31, 185, 137, 59, 230, 35, 92, 148, 75, 110, 250, 13, 115, 174, 150, 208, 35, 139, 55, 176, 101, 228, 82, 140, 221,
      72, 236, 149, 85, 139, 187, 19, 73, 196, 96, 133, 207, 173, 225, 91, 177, 204, 107, 76, 192, 27, 94, 134, 78, 120, 7, 91, 205, 74, 230, 187, 35],
     [72, 9, 136, 30, 144, 207, 55, 232, 81, 7, 98, 158, 174, 13, 196, 223, 20, 187, 87, 235, 31, 60, 245, 180, 84, 233, 128, 68, 208, 1, 168, 20,
      121, 31, 211, 179, 65, 230, 128, 172, 46, 233, 68, 5, 49, 138, 17, 253, 43, 165, 231, 60, 151, 229, 168, 33, 190, 235, 51, 177, 115, 0, 144, 216],
     [246, 94, 200, 173, 80, 104, 189, 120, 150, 179, 218, 125, 71, 247, 135, 57, 122, 159, 47, 132, 200, 93, 123, 19, 105, 214, 14, 156, 46, 182, 100, 252,
      187, 58, 112, 3, 100, 34, 216, 104, 143, 24, 167, 243, 114, 214, 155, 72, 126, 10, 138, 36, 113, 2, 200, 61, 147, 106, 219, 21, 250, 170, 53, 123],
     [179, 45, 117, 241, 41, 218, 20, 72, 45, 253, 19, 49, 209, 105, 38, 181, 91, 227, 69, 216, 155, 14, 222, 166, 144, 38, 197, 94, 241, 127, 65, 37,
      136, 220, 162, 243, 195, 154, 81, 7, 204, 223, 123, 76, 192, 97, 32, 227, 199, 84, 217, 188, 242, 83, 124, 251, 15, 76, 155, 132, 67, 95, 201, 23],
     [152, 209, 68, 13, 156, 127, 234, 170, 202, 112, 91, 149, 190, 2, 164, 236, 24, 194, 6, 107, 43, 187, 78, 54, 251, 72, 175, 118, 24, 217, 199, 159,
      80, 17, 89, 43, 130, 59, 253, 181, 55, 87, 33, 160, 14, 61, 182, 111, 51, 172, 100, 66, 160, 45, 211, 98, 172, 208, 40, 192, 29, 159, 235, 81],
     [5, 129, 225, 99, 184, 58, 92, 5, 141, 33, 228, 62, 239, 83, 116, 65, 149, 127, 253, 178, 139, 240, 116, 204, 26, 129, 226, 52, 81, 145, 12, 105,
      239, 205, 144, 183, 222, 13, 123, 161, 111, 194, 140, 249, 206, 136, 238, 4, 152, 248, 24, 134, 15, 182, 140, 29, 55, 123, 241, 103, 227, 128, 47, 110],
     [249, 36, 191, 144, 26, 210, 163, 244, 79, 183, 119, 166, 25, 137, 187, 211, 41, 97, 78, 27, 61, 95, 8, 151, 180, 100, 3, 161, 191, 247, 60, 173,
      48, 118, 66, 25, 107, 76, 235, 41, 20, 230, 63, 103, 43, 86, 162, 73, 122, 40, 196, 226, 111, 236, 68, 218, 186, 85, 4, 169, 78, 14, 218, 171],
     [90, 159, 56, 82, 240, 107, 36, 125, 51, 206, 10, 219, 102, 46, 246, 12, 175, 225, 159, 199, 217, 170, 228, 45, 83, 237, 210, 136, 37, 89, 124, 222,
      2, 191, 235, 153, 213, 170, 138, 91, 215, 167, 0, 185, 128, 224, 20, 213, 181, 94, 148, 53, 81, 166, 9, 103, 152, 225, 140, 57, 204, 146, 189, 64],
     [202, 111, 230, 2, 131, 200, 71, 223, 155, 97, 143, 69, 197, 151, 76, 108, 131, 57, 1, 112, 36, 127, 72, 196, 141, 29, 57, 108, 231, 20, 184, 152,
      77, 135, 34, 93, 52, 16, 202, 62, 149, 116, 78, 237, 29, 174, 107, 49, 242, 11, 220, 126, 32, 199, 132, 242, 24, 45, 113, 253, 31, 97, 121, 18],
     [142, 30, 214, 172, 47, 151, 11, 187, 23, 250, 43, 233, 26, 172, 215, 21, 234, 190, 147, 247, 89, 157, 15, 243, 117, 172, 199, 71, 165, 208, 101, 41,
      251, 106, 169, 195, 245, 112, 179, 29, 249, 48, 207, 96, 153, 67, 204, 140, 84, 159, 67, 180, 253, 90, 48, 177, 74, 212, 192, 70, 178, 223, 50, 240],
     [180, 68, 120, 96, 194, 246, 89, 112, 166, 78, 133, 179, 93, 121, 60, 143, 90, 34, 71, 207, 52, 223, 184, 62, 97, 7, 254, 123, 12, 138, 62, 216,
      22, 201, 62, 8, 131, 72, 229, 99, 129, 190, 15, 136, 45, 254, 8, 188, 115, 27, 206, 104, 0, 155, 208, 121, 99, 159, 18, 128, 150, 3, 162, 80],
     [41, 252, 17, 164, 59, 28, 129, 230, 55, 193, 108, 8, 220, 39, 252, 164, 201, 116, 175, 134, 23, 105, 136, 34, 218, 151, 45, 90, 191, 240, 85, 175,
      119, 146, 88, 218, 161, 43, 152, 10, 222, 74, 163, 229, 182, 118, 78, 38, 234, 171, 51, 140, 221, 69, 30, 228, 6, 246, 88, 42, 236, 94, 206, 128],
     [105, 199, 145, 232, 85, 209, 149, 37, 213, 19, 238, 63, 148, 191, 83, 5, 52, 241, 12, 87, 230, 168, 205, 84, 181, 129, 226, 162, 31, 52, 156, 4,
      229, 47, 238, 30, 187, 118, 200, 88, 173, 40, 110, 26, 89, 219, 164, 210, 93, 127, 245, 19, 175, 95, 137, 190, 62, 134, 175, 216, 113, 65, 26, 225],
     [11, 78, 46, 125, 6, 184, 69, 175, 100, 139, 161, 205, 114, 24, 229, 125, 97, 219, 148, 193, 44, 70, 4, 244, 54, 17, 69, 111, 210, 133, 197, 109,
      74, 180, 129, 98, 68, 254, 25, 60, 210, 142, 241, 63, 133, 15, 56, 145, 4, 66, 191, 81, 120, 240, 53, 161, 107, 206, 25, 57, 164, 195, 141, 172],
     [232, 158, 190, 221, 101, 240, 117, 12, 252, 74, 42, 87, 176, 54, 142, 186, 166, 30, 61, 110, 248, 151, 122, 160, 106, 204, 172, 238, 14, 95, 250, 35,
      212, 18, 157, 205, 2, 170, 103, 233, 121, 5, 183, 203, 157, 246, 189, 112, 230, 158, 40, 215, 29, 196, 12, 231, 38, 76, 238, 138, 14, 249, 38, 90],
     [62, 111, 19, 57, 142, 36, 158, 56, 180, 128, 227, 0, 243, 103, 213, 40, 76, 207, 131, 177, 16, 97, 195, 26, 232, 86, 33, 145, 80, 185, 62, 125,
      148, 86, 244, 52, 125, 215, 146, 45, 165, 96, 76, 32, 103, 44, 84, 23, 201, 97, 132, 166, 105, 143, 73, 179, 119, 153, 93, 184, 108, 74, 124, 200],
     [244, 132, 211, 170, 77, 192, 226, 91, 211, 22, 190, 119, 156, 73, 16, 250, 117, 6, 237, 80, 223, 39, 216, 65, 141, 187, 121, 53, 222, 157, 7, 173,
      234, 40, 111, 181, 73, 30, 83, 190, 21, 248, 138, 222, 124, 211, 174, 129, 59, 252, 14, 224, 48, 246, 94, 219, 22, 198, 2, 224, 49, 214, 155, 4],
     [45, 186, 30, 95, 247, 3, 132, 31, 149, 103, 66, 218, 33, 198, 130, 158, 91, 188, 146, 51, 163, 129, 84, 173, 48, 2, 243, 197, 108, 39, 207, 99,
      69, 193, 11, 220, 152, 243, 131, 225, 67, 200, 52, 166, 6, 69, 239, 153, 34, 170, 88, 65, 182, 7, 159, 58, 135, 253, 68, 161, 129, 29, 177, 99],
     [145, 72, 229, 154, 51, 110, 205, 75, 232, 173, 49, 137, 92, 232, 60, 180, 44, 226, 28, 105, 205, 21, 254, 113, 222, 93, 163, 23, 77, 248, 138, 25,
      225, 120, 141, 95, 47, 173, 17, 102, 157, 115, 29, 235, 97, 193, 18, 82, 213, 120, 195, 144, 114, 209, 127, 32, 172, 109, 41, 91, 194, 246, 80, 224],
     [168, 109, 11, 125, 218, 178, 159, 45, 121, 7, 245, 185, 18, 168, 111, 10, 209, 72, 124, 241, 62, 191, 150, 12, 200, 124, 66, 143, 178, 117, 52, 182,
      156, 56, 251, 26, 204, 116, 57, 212, 1, 186, 84, 147, 176, 41, 139, 106, 233, 1, 43, 242, 27, 75, 237, 201, 79, 217, 141, 229, 9, 61, 121, 17],
     [54, 243, 197, 84, 36, 70, 17, 240, 188, 97, 153, 70, 212, 46, 142, 237, 99, 152, 174, 0, 138, 95, 43, 75, 168, 31, 234, 203, 11, 227, 90, 210,
      3, 83, 188, 162, 79, 236, 181, 88, 254, 133, 219, 57, 119, 247, 203, 52, 177, 73, 154, 218, 103, 168, 50, 99, 11, 182, 27, 166, 112, 149, 190, 213],
     [135, 34, 176, 143, 254, 199, 106, 144, 80, 221, 34, 126, 104, 253, 77, 185, 24, 55, 198, 79, 217, 177, 227, 110, 244, 137, 44, 101, 59, 161, 35, 134,
      112, 234, 42, 130, 7, 141, 28, 153, 46, 73, 24, 199, 8, 70, 152, 25, 132, 193, 93, 56, 135, 5, 192, 151, 233, 114, 64, 206, 45, 237, 29, 89],
     [228, 103, 64, 4, 95, 130, 51, 208, 11, 58, 175, 204, 0, 156, 31, 130, 222, 113, 249, 39, 120, 17, 58, 189, 22, 87, 186, 219, 122, 241, 188, 71,
      218, 168, 98, 207, 65, 221, 96, 202, 112, 175, 238, 160, 104, 217, 92, 228, 114, 251, 16, 206, 175, 246, 122, 70, 43, 135, 249, 82, 102, 176, 69, 163],
     [22, 201, 154, 223, 190, 21, 236, 165, 117, 248, 135, 86, 227, 63, 193, 91, 167, 10, 145, 96, 167, 235, 153, 126, 212, 161, 69, 7, 146, 82, 24, 149,
      14, 63, 30, 242, 113, 165, 40, 244, 10, 143, 85, 35, 129, 181, 15, 168, 64, 36, 160, 110, 41, 85, 22, 224, 204, 162, 13, 188, 139, 2, 209, 126],
     [238, 81, 122, 38, 170, 82, 149, 33, 89, 184, 23, 49, 169, 121, 233, 46, 205, 67, 232, 190, 28, 72, 93, 5, 49, 106, 247, 175, 40, 213, 109, 249,
      197, 132, 184, 153, 17, 195, 75, 127, 181, 55, 229, 194, 62, 248, 44, 204, 87, 141, 221, 71, 234, 199, 157, 107, 32, 94, 57, 221, 38, 244, 109, 50],
     [9, 182, 57, 242, 111, 54, 224, 196, 65, 231, 151, 110, 201, 12, 99, 140, 21, 87, 126, 52, 209, 137, 252, 193, 220, 142, 28, 114, 196, 57, 161, 88,
      44, 230, 106, 85, 54, 137, 226, 20, 215, 96, 118, 3, 144, 81, 156, 121, 239, 3, 180, 123, 17, 139, 58, 184, 129, 237, 169, 117, 152, 84, 194, 160],
     [215, 98, 146, 23, 212, 137, 15, 125, 103, 4, 214, 74, 240, 39, 158, 250, 185, 218, 160, 3, 174, 109, 40, 157, 83, 63, 231, 87, 132, 225, 1, 124,
      174, 72, 10, 204, 252, 173, 93, 64, 158, 33, 206, 174, 235, 110, 25, 175, 55, 102, 197, 52, 171, 98, 250, 1, 77, 196, 23, 68, 208, 18, 58, 134],
     [30, 251, 166, 74, 192, 93, 180, 252, 46, 139, 177, 27, 130, 191, 80, 60, 116, 33, 101, 245, 64, 226, 19, 120, 182, 9, 203, 168, 20, 76, 188, 237,
      32, 216, 159, 123, 42, 2, 116, 194, 245, 140, 78, 53, 19, 198, 223, 74, 209, 144, 33, 230, 79, 212, 39, 160, 221, 49, 144, 253, 103, 178, 234, 88],
     [187, 49, 125, 1, 236, 35, 67, 154, 199, 229, 93, 55, 167, 102, 222, 7, 171, 144, 77, 194, 131, 89, 169, 58, 241, 102, 147, 38, 254, 140, 51, 91,
      147, 112, 57, 185, 220, 141, 232, 48, 23, 102, 219, 162, 127, 96, 42, 134, 13, 254, 89, 156, 9, 116, 191, 136, 90, 114, 181, 5, 132, 42, 155, 118],
     [70, 228, 199, 106, 142, 170, 119, 10, 79, 34, 123, 208, 245, 22, 135, 199, 240, 51, 220, 15, 38, 212, 141, 197, 32, 216, 53, 119, 200, 100, 170, 209,
      13, 247, 82, 25, 98, 68, 169, 87, 132, 176, 6, 250, 66, 151, 238, 189, 117, 168, 60, 201, 131, 235, 66, 15, 241, 35, 213, 94, 223, 77, 203, 15],
     [101, 147, 39, 81, 208, 50, 219, 243, 111, 189, 150, 5, 69, 156, 48, 88, 28, 104, 175, 150, 115, 235, 6, 75, 128, 163, 90, 178, 66, 8, 229, 42,
      133, 195, 174, 231, 155, 211, 14, 191, 240, 69, 114, 197, 34, 180, 18, 84, 47, 225, 106, 23, 178, 46, 101, 176, 203, 74, 165, 60, 147, 29, 239, 171],
     [213, 10, 179, 248, 18, 91, 184, 30, 164, 58, 237, 88, 184, 114, 211, 164, 124, 228, 64, 192, 82, 53, 180, 107, 248, 13, 225, 26, 239, 125, 154, 75,
      105, 54, 17, 126, 38, 115, 57, 147, 29, 213, 49, 143, 90, 221, 110, 156, 205, 4, 139, 242, 76, 211, 143, 28, 153, 119, 16, 246, 195, 111, 128, 53],
     [244, 134, 65, 163, 120, 152, 71, 133, 98, 214, 18, 139, 223, 34, 251, 72, 195, 3, 137, 20, 253, 158, 206, 40, 154, 64, 191, 142, 81, 213, 30, 198,
      165, 235, 147, 71, 202, 251, 91, 227, 126, 97, 185, 232, 13, 133, 56, 245, 73, 185, 94, 155, 34, 114, 252, 85, 220, 44, 135, 173, 50, 6, 162, 84],
     [182, 27, 108, 222, 43, 238, 211, 3, 193, 45, 121, 172, 60, 104, 13, 148, 43, 242, 87, 217, 104, 27, 133, 94, 217, 122, 37, 106, 174, 51, 114, 251,
      1, 87, 217, 101, 158, 5, 179, 43, 166, 9, 72, 161, 43, 199, 174, 24, 118, 37, 220, 58, 197, 169, 13, 60, 190, 104, 229, 75, 100, 234, 204, 37],
     [116, 207, 80, 196, 11, 101, 61, 147, 228, 86, 248, 28, 203, 134, 189, 95, 177, 113, 157, 48, 179, 70, 231, 0, 172, 78, 202, 246, 7, 150, 183, 67,
      134, 42, 186, 28, 60, 196, 119, 75, 209, 239, 137, 116, 252, 101, 78, 144, 208, 165, 130, 8, 233, 95, 127, 226, 161, 9, 203, 31, 186, 138, 67, 151],
     [0, 234, 54, 156, 131, 189, 168, 34, 107, 177, 68, 157, 81, 234, 36, 225, 65, 213, 26, 203, 122, 149, 196, 59, 238, 22, 137, 55, 96, 217, 22, 100,
      226, 167, 113, 242, 132, 224, 21, 151, 105, 35, 193, 18, 65, 214, 1, 236, 50, 85, 250, 67, 143, 26, 186, 38, 70, 141, 90, 247, 118, 18, 219, 95],
     [167, 125, 31, 92, 249, 23, 82, 240, 135, 17, 216, 117, 0, 167, 55, 122, 8, 142, 79, 237, 9, 92, 41, 115, 146, 89, 221, 163, 192, 77, 240, 146,
      56, 205, 13, 70, 174, 93, 51, 245, 176, 61, 88, 225, 178, 150, 126, 189, 106, 16, 176, 111, 195, 82, 150, 243, 116, 181, 47, 159, 63, 178, 44, 254],
     [65, 191, 224, 175, 64, 214, 124, 203, 56, 191, 40, 145, 246, 107, 207, 154, 240, 173, 109, 56, 183, 158, 247, 212, 187, 34, 112, 13, 130, 41, 120, 198,
      29, 83, 155, 212, 37, 146, 198, 125, 3, 216, 141, 110, 29, 54, 92, 34, 223, 151, 211, 39, 230, 51, 214, 97, 20, 207, 224, 4, 134, 201, 83, 142]]"

definition m2022_bluenoise64 :: bytes where
  "m2022_bluenoise64 = map word_of_int (concat bluenoise_rows)"

section \<open>Counting\<close>

text \<open>How many of the 4096 thresholds lie below an ink.\<close>

definition below :: "int \<Rightarrow> int" where
  "below i = min 4096 ((4096 * i + 254) div 255)"

text \<open>
  Halving the range, with the lists split by accumulators: at the end every threshold occurs as often as
  \<open>below\<close> asks.
\<close>

fun split_at_value :: "int \<Rightarrow> int list \<Rightarrow> int list \<Rightarrow> int list \<Rightarrow> int list \<times> int list"
  and split_step :: "bool \<Rightarrow> int \<Rightarrow> int \<Rightarrow> int list \<Rightarrow> int list \<Rightarrow> int list \<Rightarrow> int list \<times> int list" where
  "split_at_value h [] a b = (a, b)"
| "split_at_value h (x # xs) a b = split_step (x < h) h x xs a b"
| "split_step True h x xs a b = split_at_value h xs (x # a) b"
| "split_step False h x xs a b = split_at_value h xs a (x # b)"

fun spread :: "nat \<Rightarrow> int \<Rightarrow> int \<Rightarrow> int list \<Rightarrow> bool" where
  "spread 0 w lo xs \<longleftrightarrow> list_all (\<lambda>t. t = lo) xs \<and> int (length xs) = below (lo + 1) - below lo"
| "spread (Suc k) w lo xs \<longleftrightarrow>
    (let h = w div 2; (a, b) = split_at_value (lo + h) xs [] []
     in spread k h lo a \<and> spread k h (lo + h) b)"

lemma split_at_value_eq:
  "split_at_value h xs a b = (rev (filter (\<lambda>t. t < h) xs) @ a, rev (filter (\<lambda>t. \<not> t < h) xs) @ b)"
proof (induction xs arbitrary: a b)
  case (Cons x xs)
  then show ?case by (cases "x < h") simp_all
qed simp

definition well_spread :: "int \<Rightarrow> int \<Rightarrow> int list \<Rightarrow> bool" where
  "well_spread lo hi xs \<longleftrightarrow> (\<forall>t \<in> set xs. lo \<le> t \<and> t < hi)
    \<and> (\<forall>i. lo \<le> i \<and> i \<le> hi \<longrightarrow> int (length (filter (\<lambda>t. t < i) xs)) = below i - below lo)"

lemma filter_length_rev: "length (filter P (rev xs)) = length (filter P xs)"
  by (simp add: rev_filter [symmetric])

lemma well_spread_join:
  assumes "well_spread lo m (rev (filter (\<lambda>t. t < m) xs))" "well_spread m hi (rev (filter (\<lambda>t. \<not> t < m) xs))"
    and "lo \<le> m" "m \<le> hi"
  shows "well_spread lo hi xs"
proof -
  have low: "int (length (filter (\<lambda>t. t < i \<and> t < m) xs)) = below i - below lo" if "lo \<le> i" "i \<le> m" for i
    using assms(1) that by (simp add: well_spread_def filter_length_rev conj_commute)
  have high: "int (length (filter (\<lambda>t. t < i \<and> \<not> t < m) xs)) = below i - below m" if "m \<le> i" "i \<le> hi" for i
    using assms(2) that by (simp add: well_spread_def filter_length_rev conj_commute)
  have "int (length (filter (\<lambda>t. t < i) xs)) = below i - below lo" if "lo \<le> i" "i \<le> hi" for i
  proof (cases "i \<le> m")
    case True
    then have "filter (\<lambda>t. t < i) xs = filter (\<lambda>t. t < i \<and> t < m) xs" by (intro filter_cong) auto
    then show ?thesis using low [OF that(1) True] by simp
  next
    case False
    have "length (filter (\<lambda>t. t < i) xs)
      = length (filter (\<lambda>t. t < i \<and> t < m) xs) + length (filter (\<lambda>t. t < i \<and> \<not> t < m) xs)"
      using sum_length_filter_compl [of "\<lambda>t. t < m" "filter (\<lambda>t. t < i) xs"]
      by (simp add: conj_commute)
    moreover have "filter (\<lambda>t. t < i \<and> t < m) xs = filter (\<lambda>t. t < m \<and> t < m) xs"
      using False by (intro filter_cong) auto
    ultimately show ?thesis using low [OF assms(3)] high [of i] False that by simp
  qed
  then show ?thesis using assms by (auto simp: well_spread_def)
qed

lemma spread_well_spread: "spread k (2 ^ k) lo xs \<Longrightarrow> well_spread lo (lo + 2 ^ k) xs"
proof (induction k arbitrary: lo xs)
  case 0
  then have "xs = replicate (length xs) lo" by (simp add: list_all_iff replicate_length_same)
  then obtain n where xs: "xs = replicate n lo" by blast
  have "length (filter (\<lambda>t. t < i) xs) = (if lo < i then n else 0)" for i by (simp add: xs)
  moreover have "i = lo \<or> i = lo + 1" if "lo \<le> i" "i \<le> lo + 1" for i using that by linarith
  ultimately show ?case using 0 by (fastforce simp: well_spread_def xs)
next
  case (Suc k)
  have h: "(2 :: int) ^ Suc k div 2 = 2 ^ k" by simp
  have "well_spread lo (lo + 2 ^ k) (rev (filter (\<lambda>t. t < lo + 2 ^ k) xs))"
    "well_spread (lo + 2 ^ k) (lo + 2 ^ k + 2 ^ k) (rev (filter (\<lambda>t. \<not> t < lo + 2 ^ k) xs))"
    using Suc.prems Suc.IH by (simp_all only: spread.simps h Let_def split_at_value_eq prod.case append_Nil2)
  from well_spread_join [OF this] show ?case by (simp add: add.assoc)
qed

section \<open>The table is spread evenly\<close>

lemma table_shape: "list_all (\<lambda>r. int (length r) = 64) bluenoise_rows \<and> int (length bluenoise_rows) = 64"
  by code_simp

text \<open>By quarters of the range.\<close>

definition halves :: "int list \<times> int list" where
  "halves = split_at_value 128 (concat bluenoise_rows) [] []"

lemma quarter_1: "spread 6 64 0 (fst (split_at_value 64 (fst halves) [] []))"
  by code_simp

lemma quarter_2: "spread 6 64 64 (snd (split_at_value 64 (fst halves) [] []))"
  by code_simp

lemma quarter_3: "spread 6 64 128 (fst (split_at_value 192 (snd halves) [] []))"
  by code_simp

lemma quarter_4: "spread 6 64 192 (snd (split_at_value 192 (snd halves) [] []))"
  by code_simp

lemma spread_SucI:
  "spread k h lo (fst (split_at_value (lo + h) xs [] [])) \<Longrightarrow>
   spread k h (lo + h) (snd (split_at_value (lo + h) xs [] [])) \<Longrightarrow> w = 2 * h \<Longrightarrow> spread (Suc k) w lo xs"
  by (simp add: case_prod_unfold Let_def)

lemma table_spread: "spread (Suc (Suc 6)) 256 0 (concat bluenoise_rows)"
proof -
  have "spread (Suc 6) 128 0 (fst halves)"
    by (rule spread_SucI [where h = 64]) (simp_all only: quarter_1 quarter_2 add_0 mult_2 numeral_plus_numeral arith_simps)
  moreover have "spread (Suc 6) 128 128 (snd halves)"
    by (rule spread_SucI [where h = 64]) (simp_all only: quarter_3 quarter_4 numeral_plus_numeral arith_simps mult_2)
  ultimately show ?thesis
    using spread_SucI [of "Suc 6" 128 0 "concat bluenoise_rows" 256] by (simp only: halves_def add_0) simp
qed

lemma power_8: "(2 :: int) ^ Suc (Suc 6) = 256"
  by simp

lemma table_well_spread: "well_spread 0 256 (concat bluenoise_rows)"
  using spread_well_spread [of "Suc (Suc 6)" 0 "concat bluenoise_rows"] table_spread by (simp only: power_8 add_0)

lemma table_length: "length m2022_bluenoise64 = 4096"
proof -
  have "\<forall>r \<in> set bluenoise_rows. length r = 64" "length bluenoise_rows = 64"
    using table_shape by (simp_all add: list_all_iff)
  then have "length (concat bluenoise_rows) = 4096"
    by (simp add: length_concat sum_list_triv cong: map_cong)
  then show ?thesis by (simp add: m2022_bluenoise64_def)
qed

text \<open>The count, for the table in bytes.\<close>

lemma table_below: "length (filter (\<lambda>t. t < v) m2022_bluenoise64) = (4096 * unat v + 254) div 255"
proof -
  have range: "0 \<le> t \<and> t < 256" if "t \<in> set (concat bluenoise_rows)" for t
    using table_well_spread that unfolding well_spread_def by blast
  have "(word_of_int t < v) = (t < uint v)" if "t \<in> set (concat bluenoise_rows)" for t
    using range [OF that] by (simp add: word_less_def uint_word_of_int_eq take_bit_int_eq_self)
  then have "length (filter (\<lambda>t. t < v) m2022_bluenoise64) = length (filter (\<lambda>t. t < uint v) (concat bluenoise_rows))"
    unfolding m2022_bluenoise64_def filter_map length_map comp_def
    by (intro arg_cong [where f = length] filter_cong) auto
  moreover have v: "0 \<le> uint v" "uint v \<le> 255" using uint_lt2p [of v] by (simp_all flip: zle_diff1_eq)
  then have "int (length (filter (\<lambda>t. t < uint v) (concat bluenoise_rows))) = below (uint v)"
    using table_well_spread by (simp add: well_spread_def below_def)
  moreover have "(4096 * uint v + 254) div 255 \<le> (4096 * 255 + 254) div 255" using v by (intro zdiv_mono1) simp_all
  then have "below (uint v) = (4096 * uint v + 254) div 255" by (simp add: below_def)
  moreover have "int ((4096 * unat v + 254) div 255) = (4096 * uint v + 254) div 255"
    by (simp add: zdiv_int)
  ultimately show ?thesis by linarith
qed

section \<open>A window of the page\<close>

definition tile_index :: "nat \<times> nat \<Rightarrow> nat" where
  "tile_index = (\<lambda>(x, y). y mod 64 * 64 + x mod 64)"

lemma mod_window:
  assumes "x0 \<le> x" "x < x0 + 64" "x0 \<le> x'" "x' < x0 + 64" "x mod 64 = x' mod (64 :: nat)"
  shows "x = x'"
proof -
  have same: "a = b" if "a \<le> b" "b < a + 64" "a mod 64 = b mod (64 :: nat)" for a b
  proof -
    have "64 dvd b - a" using that mod_eq_dvd_iff_nat [OF that(1), of 64] by simp
    moreover have "b - a < 64" using that(1,2) by simp
    ultimately have "b - a = 0" using nat_dvd_not_less [of "b - a" 64] by blast
    then show ?thesis using that(1) by simp
  qed
  show ?thesis
  proof (cases "x \<le> x'")
    case True
    moreover have "x' < x + 64" using assms(1,4) by simp
    ultimately show ?thesis using same assms(5) by blast
  next
    case False
    then have "x' \<le> x" by simp
    moreover have "x < x' + 64" using assms(2,3) by simp
    ultimately have "x' = x" using same assms(5) [symmetric] by blast
    then show ?thesis ..
  qed
qed

lemma two_digits:
  assumes "a * 64 + b = a' * 64 + b'" "b < 64" "b' < (64 :: nat)"
  shows "a = a' \<and> b = b'"
proof -
  have "(a * 64 + b) div 64 = a" "(a' * 64 + b') div 64 = a'" using assms(2,3) by simp_all
  with assms(1) have "a = a'" by simp
  with assms(1) show ?thesis by simp
qed

lemma tile_index_inj: "inj_on tile_index ({x0..<x0 + 64} \<times> {y0..<y0 + 64})"
proof (rule inj_onI, clarify)
  fix x y x' y' assume *: "tile_index (x, y) = tile_index (x', y')"
    and w: "x \<in> {x0..<x0 + 64}" "y \<in> {y0..<y0 + 64}" "x' \<in> {x0..<x0 + 64}" "y' \<in> {y0..<y0 + 64}"
  have "y mod 64 = y' mod 64 \<and> x mod 64 = x' mod 64"
    using * by (intro two_digits) (simp_all add: tile_index_def)
  with w show "x = x' \<and> y = y'" using mod_window by auto
qed

lemma tile_index_less: "tile_index p < 4096"
proof -
  have "snd p mod 64 < 64" "fst p mod 64 < 64" by simp_all
  then show ?thesis unfolding tile_index_def case_prod_unfold by linarith
qed

lemma tile_index_window: "tile_index ` ({x0..<x0 + 64} \<times> {y0..<y0 + 64}) = {..<4096}"
proof (rule card_subset_eq)
  show "tile_index ` ({x0..<x0 + 64} \<times> {y0..<y0 + 64}) \<subseteq> {..<4096}" using tile_index_less by blast
  show "card (tile_index ` ({x0..<x0 + 64} \<times> {y0..<y0 + 64})) = card {..<4096 :: nat}"
    by (simp add: card_image [OF tile_index_inj] card_cartesian_product)
qed simp

lemma image_where: "f ` {p \<in> W. Q (f p)} = {k \<in> f ` W. Q k}"
  by blast

lemma window_count:
  "card {p \<in> {x0..<x0 + 64} \<times> {y0..<y0 + 64}. P (m2022_bluenoise64 ! tile_index p)}
    = length (filter P m2022_bluenoise64)"
proof -
  define Q where "Q k = P (m2022_bluenoise64 ! k)" for k
  define W where "W = {p \<in> {x0..<x0 + 64} \<times> {y0..<y0 + 64}. Q (tile_index p)}"
  have "card W = card (tile_index ` W)"
    using tile_index_inj by (intro card_image [symmetric] inj_on_subset [OF tile_index_inj]) (auto simp: W_def)
  also have "tile_index ` W = {k \<in> {..<4096}. Q k}" unfolding W_def image_where tile_index_window ..
  also have "\<dots> = {k. k < length m2022_bluenoise64 \<and> Q k}" unfolding table_length by blast
  finally show ?thesis unfolding W_def Q_def length_filter_conv_card .
qed

text \<open>C37: The blue-noise screen prints as dark as asked, everywhere: of the 64 by 64 dots of any window of a page
  with constant ink v, wherever it lies, exactly 4096 v / 255 are black, rounded up; so white stays white and
  full ink is solid.\<close>

theorem blue_noise_density:
  assumes "ht_method (ht_params ht) = M2022_HT_BLUE_NOISE" "x0 + 64 \<le> ht_width ht"
    and "\<And>x y. \<lbrakk>x0 \<le> x; x < x0 + 64; y0 \<le> y; y < y0 + 64\<rbrakk> \<Longrightarrow> ink y ! x = v"
  shows "card {(x, y). x0 \<le> x \<and> x < x0 + 64 \<and> y0 \<le> y \<and> y < y0 + 64
            \<and> pixel (snd (m2022_halftone_line m2022_bluenoise64 ht (ink y) y)) x}
    = (4096 * unat v + 254) div 255"
proof -
  have "pixel (snd (m2022_halftone_line m2022_bluenoise64 ht (ink y) y)) x
      \<longleftrightarrow> ink y ! x > m2022_bluenoise64 ! tile_index (x, y)" if "x < x0 + 64" for x y
    using that assms(1,2) ordered_line_fresh [OF byte_index_less [of x "ht_width ht"]]
    by (auto simp: m2022_halftone_line_def tile_index_def Let_def)
  then have "{(x, y). x0 \<le> x \<and> x < x0 + 64 \<and> y0 \<le> y \<and> y < y0 + 64
            \<and> pixel (snd (m2022_halftone_line m2022_bluenoise64 ht (ink y) y)) x}
    = {p \<in> {x0..<x0 + 64} \<times> {y0..<y0 + 64}. m2022_bluenoise64 ! tile_index p < v}"
    using assms(3) by auto
  then show ?thesis using window_count [of x0 y0 "\<lambda>t. t < v"] table_below by simp
qed

lemma blue_noise_density_witness:
  "let ht = \<lparr>ht_params = m2022_ht_default M2022_HT_BLUE_NOISE, ht_width = 100, matrix = [], cell = 0,
            err_cur = None, err_next = None\<rparr>
   in card {(x, y). 30 \<le> x \<and> x < 30 + 64 \<and> 5 \<le> y \<and> y < 5 + 64
            \<and> pixel (snd (m2022_halftone_line m2022_bluenoise64 ht (replicate 100 128) y)) x} = 2057"
proof -
  define ht where "ht = \<lparr>ht_params = m2022_ht_default M2022_HT_BLUE_NOISE, ht_width = 100, matrix = [], cell = 0,
            err_cur = None, err_next = None\<rparr>"
  have "ht_method (ht_params ht) = M2022_HT_BLUE_NOISE" "30 + 64 \<le> ht_width ht"
    by (simp_all add: ht_def m2022_ht_default_def)
  from blue_noise_density [OF this, of 5 "\<lambda>_. replicate 100 128" 128] show ?thesis
    by (simp add: ht_def [symmetric])
qed

end
