(* ===== verification/Fileio.thy ===== *)
theory Fileio
  imports Prelude
begin

text \<open>
  Model of the portable anymap reader of src/common/fileio.c and of the string writer of
  src/common/json.c. The reader's position is a number; \<open>d\<close> is the file's bytes. The pixel counts are
  32-bit words, as the code accumulates them, and \<open>pixel_bytes\<close> is a \<open>size_t\<close>, which holds their product.
\<close>

section \<open>Tokens\<close>

abbreviation (input) is_digit :: "u8 \<Rightarrow> bool" where "is_digit c \<equiv> 48 \<le> c \<and> c \<le> 57"

text \<open>\<open>while (*pos < len && P(d[*pos])) (*pos)++;\<close>\<close>

function skip_while :: "(u8 \<Rightarrow> bool) \<Rightarrow> bytes \<Rightarrow> nat \<Rightarrow> nat" where
  "skip_while P d pos = (if pos < length d \<and> P (d ! pos) then skip_while P d (pos + 1) else pos)"
  by pat_completeness auto
termination by (relation "measure (\<lambda>(P, d, pos). length d - pos)") auto

declare skip_while.simps [simp del]

lemma skip_while_ge: "pos \<le> skip_while P d pos"
proof (induction P d pos rule: skip_while.induct)
  case (1 P d pos)
  then show ?case by (subst skip_while.simps) auto
qed

lemma skip_while_le: "pos \<le> length d \<Longrightarrow> skip_while P d pos \<le> length d"
proof (induction P d pos rule: skip_while.induct)
  case (1 P d pos)
  then show ?case by (subst skip_while.simps) auto
qed

lemma skip_while_progress: "pos < length d \<Longrightarrow> P (d ! pos) \<Longrightarrow> pos < skip_while P d pos"
  using skip_while_ge [of "pos + 1" P d] by (simp add: skip_while.simps [of P d pos])

text \<open>The comments before a number: each runs to the end of its line, then white space.\<close>

function skip_comments :: "bytes \<Rightarrow> nat \<Rightarrow> nat" where
  "skip_comments d pos =
    (if pos < length d \<and> d ! pos = 35
     then skip_comments d
            (skip_while (\<lambda>c. c = 32 \<or> c = 10 \<or> c = 13) d (skip_while (\<lambda>c. c \<noteq> 10) d pos))
     else pos)"
  by pat_completeness auto
termination
proof (relation "measure (\<lambda>(d, pos). length d - pos)")
  fix d :: bytes and pos
  assume a: "pos < length d \<and> d ! pos = 35"
  then have "pos < skip_while (\<lambda>c. c \<noteq> 10) d pos" by (intro skip_while_progress) auto
  also have "\<dots> \<le> skip_while (\<lambda>c. c = 32 \<or> c = 10 \<or> c = 13) d (skip_while (\<lambda>c. c \<noteq> 10) d pos)"
    by (rule skip_while_ge)
  finally show "((d, skip_while (\<lambda>c. c = 32 \<or> c = 10 \<or> c = 13) d (skip_while (\<lambda>c. c \<noteq> 10) d pos)), (d, pos))
      \<in> measure (\<lambda>(d, pos). length d - pos)" using a by (simp add: diff_less_mono2)
qed simp

declare skip_comments.simps [simp del]

text \<open>\<open>v = v * 10 + digit\<close> in 32 bits.\<close>

function read_digits :: "bytes \<Rightarrow> nat \<Rightarrow> u32 \<Rightarrow> nat \<times> u32" where
  "read_digits d pos v =
    (if pos < length d \<and> is_digit (d ! pos)
     then read_digits d (pos + 1) (v * 10 + ucast (d ! pos - 48)) else (pos, v))"
  by pat_completeness auto
termination by (relation "measure (\<lambda>(d, pos, v). length d - pos)") auto

declare read_digits.simps [simp del]

text \<open>The new position and the value; the value is \<open>None\<close> where the function returns -1.\<close>

definition read_token :: "bytes \<Rightarrow> nat \<Rightarrow> nat \<times> u32 option" where
  "read_token d pos =
    (let p1 = skip_comments d (skip_while (\<lambda>c. c = 32 \<or> c = 9 \<or> c = 13 \<or> c = 10) d pos);
         (p2, v) = read_digits d p1 0
     in (p2, if p2 = p1 then None else Some v))"

section \<open>Anymaps\<close>

record pnm =
  pnm_type :: nat
  pnm_width :: u32
  pnm_height :: u32
  pnm_maxval :: u32
  pnm_pixels :: nat
  pnm_pixel_bytes :: nat

text \<open>
  \<open>pnm_pixels\<close> is the offset of the pixels in the file; the left side of the result is the negative
  return code. The pixel count of a bitmap rounds each row up to bytes.
\<close>

definition m2022_pnm_parse :: "bytes \<Rightarrow> int + pnm" where
  "m2022_pnm_parse d =
    (if length d < 3 \<or> d ! 0 \<noteq> 80 \<or> (d ! 1 \<noteq> 52 \<and> d ! 1 \<noteq> 53) then Inl (-1)
     else
       let ty = unat (d ! 1 - 48);
           (p1, wo) = read_token d 2;
           (p2, ho) = read_token d p1
       in case (wo, ho) of
            (Some w, Some h) \<Rightarrow>
              let (p3, mo) = (if ty = 5 then read_token d p2 else (p2, Some 1))
              in (case mo of
                    None \<Rightarrow> Inl (-2)
                  | Some maxval \<Rightarrow>
                      let pos = p3 + 1;
                          bs = (if ty = 4 then (unat w + 7) div 8 * unat h else unat w * unat h)
                      in if pos + bs > length d \<or> w = 0 \<or> h = 0 \<or> (ty = 5 \<and> maxval \<noteq> 255) then Inl (-3)
                         else Inr \<lparr>pnm_type = ty, pnm_width = w, pnm_height = h, pnm_maxval = maxval,
                                   pnm_pixels = pos, pnm_pixel_bytes = bs\<rparr>)
          | _ \<Rightarrow> Inl (-2))"

text \<open>\<open>m2022_pbm_write\<close>: the bytes it writes when nothing fails.\<close>

definition pbm_bytes :: "u32 \<Rightarrow> u32 \<Rightarrow> bytes \<Rightarrow> bytes" where
  "pbm_bytes w h rows =
    ascii (''P4'' @ [CHR 0x0A] @ decimal (unat w) @ '' '' @ decimal (unat h) @ [CHR 0x0A])
    @ take ((unat w + 7) div 8 * unat h) rows"

section \<open>JSON strings\<close>

definition hex_digit :: "nat \<Rightarrow> u8" where
  "hex_digit n = word_of_nat (if n < 10 then 48 + n else 87 + n)"

definition json_char :: "u8 \<Rightarrow> bytes" where
  "json_char c =
    (if c = 34 then [92, 34]
     else if c = 92 then [92, 92]
     else if c = 10 then [92, 110]
     else if c = 13 then [92, 114]
     else if c = 9 then [92, 116]
     else if c < 0x20 then [92, 117, 48, 48, hex_digit (unat c div 16), hex_digit (unat c mod 16)]
     else [c])"

text \<open>\<open>None\<close> is the NULL pointer.\<close>

definition m2022_json_string :: "bytes option \<Rightarrow> bytes" where
  "m2022_json_string s =
    (case s of None \<Rightarrow> ascii ''null'' | Some cs \<Rightarrow> [34] @ concat (map json_char cs) @ [34])"

section \<open>Numbers\<close>

text \<open>What a run of digits is worth, in 32 bits.\<close>

definition digits_value :: "bytes \<Rightarrow> u32 \<Rightarrow> u32" where
  "digits_value ds v = fold (\<lambda>c v. v * 10 + ucast (c - 48)) ds v"

lemma nth_append_pre: "(pre @ c # rest) ! length pre = c"
  by simp

lemma read_digits_run:
  "\<lbrakk>\<forall>c \<in> set ds. is_digit c; rest = [] \<or> \<not> is_digit (hd rest); d = pre @ ds @ rest\<rbrakk>
   \<Longrightarrow> read_digits d (length pre) v = (length pre + length ds, digits_value ds v)"
proof (induction ds arbitrary: pre v)
  case Nil
  then show ?case
    by (subst read_digits.simps) (auto simp: digits_value_def nth_append hd_conv_nth)
next
  case (Cons c ds)
  have "read_digits d (length pre) v = read_digits d (length (pre @ [c])) (v * 10 + ucast (c - 48))"
    using Cons.prems by (subst read_digits.simps) (auto simp: nth_append)
  also have "\<dots> = (length (pre @ [c]) + length ds, digits_value ds (v * 10 + ucast (c - 48)))"
    using Cons.prems by (intro Cons.IH) auto
  finally show ?case by (simp add: digits_value_def)
qed

lemma decimal_digits: "c \<in> set (ascii (decimal n)) \<Longrightarrow> is_digit c"
proof (induction n rule: decimal.induct)
  case (1 n)
  have last: "is_digit (word_of_nat (48 + k) :: u8)" if "k < 10" for k
  proof -
    have "unat (word_of_nat (48 + k) :: u8) = 48 + k" using that by (intro unat_of_nat_u8) simp
    then show ?thesis using that by (simp add: word_le_nat_alt del: of_nat_add)
  qed
  show ?case
  proof (cases "n < 10")
    case True
    then show ?thesis using "1.prems" last [of n] by (subst (asm) decimal.simps) (simp add: ascii_def)
  next
    case False
    then have "c \<in> set (ascii (decimal (n div 10))) \<or> c = word_of_nat (48 + n mod 10)"
      using "1.prems" by (subst (asm) decimal.simps) (auto simp: ascii_def)
    then show ?thesis using "1.IH" False last [of "n mod 10"] by auto
  qed
qed

lemma digits_value_decimal: "digits_value (ascii (decimal n)) 0 = word_of_nat n"
proof (induction n rule: decimal.induct)
  case (1 n)
  have digit: "(ucast (word_of_nat (48 + k) - 48 :: u8) :: u32) = word_of_nat k" if "k < 10" for k
  proof -
    have "(word_of_nat (48 + k) - 48 :: u8) = word_of_nat k" by simp
    moreover have "unat (ucast (word_of_nat k :: u8) :: u32) = unat (word_of_nat k :: u32)"
      using that by (simp add: unsigned_ucast_eq unsigned_of_nat take_bit_nat_eq_self)
    ultimately show ?thesis by (simp add: word_unat_eq_iff)
  qed
  show ?case
  proof (cases "n < 10")
    case True
    then show ?thesis using digit [of n] by (subst decimal.simps) (simp add: ascii_def digits_value_def)
  next
    case False
    have "word_of_nat n = (word_of_nat (n div 10 * 10 + n mod 10) :: u32)" by simp
    then have "word_of_nat n = (word_of_nat (n div 10) * 10 + word_of_nat (n mod 10) :: u32)"
      by (simp only: of_nat_add of_nat_mult of_nat_numeral)
    moreover have "ascii (decimal n) = ascii (decimal (n div 10)) @ [word_of_nat (48 + n mod 10)]"
      using False by (subst decimal.simps) (simp add: ascii_def)
    ultimately show ?thesis
      using "1.IH" False digit [of "n mod 10"] by (simp add: digits_value_def)
  qed
qed

lemma decimal_not_Nil: "decimal n \<noteq> []"
  by (subst decimal.simps) simp

text \<open>A number behind one separator reads back.\<close>

lemma read_token_decimal:
  assumes "d = pre @ sep @ ascii (decimal n) @ c # rest" "\<not> is_digit c"
    and "sep = [] \<or> sep = [32] \<or> sep = [10]"
  shows "read_token d (length pre) = (length pre + length sep + length (decimal n), Some (word_of_nat n))"
proof -
  define p where "p = length pre + length sep"
  have d: "d = (pre @ sep) @ ascii (decimal n) @ c # rest" using assms(1) by simp
  have p: "p = length (pre @ sep)" by (simp add: p_def)
  obtain c0 cs where c0: "ascii (decimal n) = c0 # cs"
    using decimal_not_Nil [of n] by (cases "ascii (decimal n)") (auto simp: ascii_def)
  have dig: "is_digit c0" using decimal_digits [of c0 n] c0 by simp
  have at: "p < length d" "d ! p = c0"
    unfolding p d c0 by (simp_all only: nth_append_length append_Cons) simp_all
  have no_space: "\<not> (c0 = 32 \<or> c0 = 9 \<or> c0 = 13 \<or> c0 = 10)" "c0 \<noteq> 35"
    using dig by auto
  have stop: "skip_while (\<lambda>c. c = 32 \<or> c = 9 \<or> c = 13 \<or> c = 10) d p = p"
    using at no_space by (simp add: skip_while.simps [of _ d p])
  have skip: "skip_while (\<lambda>c. c = 32 \<or> c = 9 \<or> c = 13 \<or> c = 10) d (length pre) = p"
  proof (cases "sep = []")
    case True
    then show ?thesis using stop by (simp add: p_def)
  next
    case False
    then have one: "p = length pre + 1" "d ! length pre = 32 \<or> d ! length pre = 10" "length pre < length d"
      using assms(1,3) by (auto simp: p_def nth_append)
    have "skip_while (\<lambda>c. c = 32 \<or> c = 9 \<or> c = 13 \<or> c = 10) d (length pre)
        = skip_while (\<lambda>c. c = 32 \<or> c = 9 \<or> c = 13 \<or> c = 10) d (length pre + 1)"
      using one(2,3) by (subst skip_while.simps) auto
    then show ?thesis using stop one(1) by simp
  qed
  have "skip_comments d p = p" using at no_space(2) by (simp add: skip_comments.simps [of d p])
  moreover have "read_digits d p 0 = (p + length (decimal n), word_of_nat n)"
    unfolding p using read_digits_run [of "ascii (decimal n)" "c # rest" d "pre @ sep" 0] decimal_digits assms(2) d
    by (simp add: digits_value_decimal)
  ultimately show ?thesis
    using decimal_not_Nil [of n] by (simp add: read_token_def Let_def skip p_def)
qed

section \<open>Reading back what was written\<close>

lemma pbm_head:
  "pbm_bytes w h rows = [80, 52] @ [10] @ ascii (decimal (unat w)) @ 32 # ascii (decimal (unat h)) @ 10
     # take ((unat w + 7) div 8 * unat h) rows"
  by (simp add: pbm_bytes_def ascii_def)

lemma pnm_parse_pbm_bytes:
  assumes "w \<noteq> 0" "h \<noteq> 0" "length rows = (unat w + 7) div 8 * unat h"
  shows "\<exists>r. m2022_pnm_parse (pbm_bytes w h rows) = Inr r \<and> pnm_type r = 4 \<and> pnm_width r = w
    \<and> pnm_height r = h \<and> drop (pnm_pixels r) (pbm_bytes w h rows) = rows \<and> pnm_pixel_bytes r = length rows"
proof -
  define d where "d = pbm_bytes w h rows"
  define ws where "ws = ascii (decimal (unat w))"
  define hs where "hs = ascii (decimal (unat h))"
  have d: "d = [80, 52] @ [10] @ ws @ 32 # hs @ 10 # rows"
    using assms(3) by (simp add: d_def ws_def hs_def pbm_head)
  have d1: "d = [80, 52] @ [10] @ ascii (decimal (unat w)) @ 32 # hs @ 10 # rows"
    by (simp add: d ws_def)
  have two: "length [80, 52 :: u8] + length [10 :: u8] = 3" "length [80, 52 :: u8] = 2" by simp_all
  have "\<not> is_digit 32" "[10] = [] \<or> [10] = [32] \<or> [10] = [10 :: u8]" by simp_all
  from read_token_decimal [OF d1 this] have t1: "read_token d 2 = (3 + length ws, Some w)"
    unfolding two by (simp add: ws_def)
  have d2: "d = ([80, 52, 10] @ ws) @ [32] @ ascii (decimal (unat h)) @ 10 # rows"
    by (simp add: d hs_def)
  have t2: "read_token d (3 + length ws) = (4 + length ws + length hs, Some h)"
  proof -
    have "length ([80, 52, 10] @ ws) = 3 + length ws"
      "length ([80, 52, 10] @ ws) + length [32 :: u8] = 4 + length ws" by simp_all
    moreover have "\<not> is_digit 10" "[32] = [] \<or> [32] = [32 :: u8] \<or> [32] = [10 :: u8]" by simp_all
    ultimately show ?thesis using read_token_decimal [OF d2] by (simp only: hs_def length_ascii) simp
  qed
  have head: "d ! 0 = 80" "d ! 1 = 52" "\<not> length d < 3" by (simp_all add: d)
  have len: "length d = 5 + length ws + length hs + length rows" by (simp add: d)
  have pix: "drop (5 + length ws + length hs) d = rows"
  proof -
    have "d = ([80, 52, 10] @ ws @ [32] @ hs @ [10]) @ rows" by (simp add: d)
    moreover have "5 + length ws + length hs = length ([80, 52, 10] @ ws @ [32] @ hs @ [10])" by simp
    ultimately show ?thesis by (metis append_eq_conv_conj)
  qed
  have "m2022_pnm_parse d = Inr \<lparr>pnm_type = 4, pnm_width = w, pnm_height = h, pnm_maxval = 1,
      pnm_pixels = 5 + length ws + length hs, pnm_pixel_bytes = length rows\<rparr>"
    unfolding m2022_pnm_parse_def Let_def head t1 split_conv t2
    using head(3) len assms by simp
  then show ?thesis using pix by (simp add: d_def)
qed

text \<open>An accepted anymap lies inside the file.\<close>

lemma pnm_parse_bounds:
  "m2022_pnm_parse d = Inr r \<Longrightarrow> pnm_pixels r + pnm_pixel_bytes r \<le> length d \<and> pnm_width r \<noteq> 0
     \<and> pnm_height r \<noteq> 0 \<and> (pnm_type r = 4 \<or> pnm_type r = 5)
     \<and> pnm_pixel_bytes r = (if pnm_type r = 4 then (unat (pnm_width r) + 7) div 8 * unat (pnm_height r)
                            else unat (pnm_width r) * unat (pnm_height r))"
proof -
  assume r: "m2022_pnm_parse d = Inr r"
  have ty: "unat (d ! 1 - 48) = 4 \<or> unat (d ! 1 - 48) = 5" if "d ! 1 = 52 \<or> d ! 1 = 53" using that by auto
  show ?thesis
    using r ty
    by (auto simp: m2022_pnm_parse_def Let_def split: if_splits prod.splits option.splits)
qed

section \<open>Reading JSON strings\<close>

text \<open>A reader of JSON strings, for the escapes that the writer uses: what a client sees.\<close>

definition hex_value :: "u8 \<Rightarrow> nat option" where
  "hex_value c =
    (if 48 \<le> c \<and> c \<le> 57 then Some (unat c - 48)
     else if 97 \<le> c \<and> c \<le> 102 then Some (unat c - 87) else None)"

fun json_body :: "bytes \<Rightarrow> (bytes \<times> bytes) option" where
  "json_body [] = None"
| "json_body (c # cs) =
    (if c = 34 then Some ([], cs)
     else if c < 0x20 then None
     else if c \<noteq> 92 then map_option (\<lambda>(s, rest). (c # s, rest)) (json_body cs)
     else case cs of
       [] \<Rightarrow> None
     | e # cs1 \<Rightarrow>
         if e = 117 then
           (case cs1 of
              z # z' # x # y # cs2 \<Rightarrow>
                (case (if z = 48 \<and> z' = 48 then hex_value x else None, hex_value y) of
                   (Some a, Some b) \<Rightarrow>
                     map_option (\<lambda>(s, rest). (word_of_nat (a * 16 + b) # s, rest)) (json_body cs2)
                 | _ \<Rightarrow> None)
            | _ \<Rightarrow> None)
         else if e = 34 \<or> e = 92 then map_option (\<lambda>(s, rest). (e # s, rest)) (json_body cs1)
         else if e = 110 then map_option (\<lambda>(s, rest). (10 # s, rest)) (json_body cs1)
         else if e = 114 then map_option (\<lambda>(s, rest). (13 # s, rest)) (json_body cs1)
         else if e = 116 then map_option (\<lambda>(s, rest). (9 # s, rest)) (json_body cs1)
         else None)"

definition json_read :: "bytes \<Rightarrow> (bytes \<times> bytes) option" where
  "json_read d = (case d of [] \<Rightarrow> None | q # cs \<Rightarrow> if q = 34 then json_body cs else None)"

lemma hex_value_digit: "n < 16 \<Longrightarrow> hex_value (hex_digit n) = Some n"
proof -
  assume "n < 16"
  then have "n \<in> {0, 1, 2, 3, 4, 5, 6, 7, 8, 9, 10, 11, 12, 13, 14, 15}" by simp presburger
  then show ?thesis by (auto simp: hex_value_def hex_digit_def)
qed

lemma json_body_char:
  "json_body (json_char c @ cs) = map_option (\<lambda>(s, rest). (c # s, rest)) (json_body cs)"
proof (cases "c = 34 \<or> c = 92 \<or> c = 10 \<or> c = 13 \<or> c = 9")
  case True
  then show ?thesis by (auto simp: json_char_def)
next
  case False
  show ?thesis
  proof (cases "c < 0x20")
    case True
    then have c: "unat c < 32" by (simp add: word_less_nat_alt)
    then have "unat c div 16 < 16" "unat c mod 16 < 16" by (simp_all add: less_mult_imp_div_less)
    then have hex: "hex_value (hex_digit (unat c div 16)) = Some (unat c div 16)"
      "hex_value (hex_digit (unat c mod 16)) = Some (unat c mod 16)" by (simp_all only: hex_value_digit)
    have val: "word_of_nat (unat c div 16 * 16 + unat c mod 16) = c" by simp
    have "json_char c = [92, 117, 48, 48, hex_digit (unat c div 16), hex_digit (unat c mod 16)]"
      using False True by (simp add: json_char_def)
    then show ?thesis using hex val by (simp del: of_nat_add of_nat_mult)
  next
    case no_control: False
    then show ?thesis using False by (cases cs) (auto simp: json_char_def)
  qed
qed

lemma json_body_chars: "json_body (concat (map json_char s) @ 34 # rest) = Some (s, rest)"
  by (induction s) (auto simp: json_body_char)

section \<open>Properties\<close>

text \<open>A bitmap that the program writes reads back as itself: type, width and height from the decimal
  header, and exactly the pixel rows.\<close>

theorem pbm_reads_back:
  assumes "w \<noteq> 0" "h \<noteq> 0" "length rows = (unat w + 7) div 8 * unat h"
  shows "\<exists>r. m2022_pnm_parse (pbm_bytes w h rows) = Inr r \<and> pnm_type r = 4 \<and> pnm_width r = w
    \<and> pnm_height r = h \<and> drop (pnm_pixels r) (pbm_bytes w h rows) = rows \<and> pnm_pixel_bytes r = length rows"
  by (rule pnm_parse_pbm_bytes [OF assms])

lemma pbm_reads_back_witness:
  "\<exists>r. m2022_pnm_parse (pbm_bytes 9 2 [1, 128, 2, 0]) = Inr r \<and> pnm_width r = 9
     \<and> drop (pnm_pixels r) (pbm_bytes 9 2 [1, 128, 2, 0]) = [1, 128, 2, 0]"
  using pbm_reads_back [of 9 2 "[1, 128, 2, 0]"] by auto

text \<open>An anymap is accepted only when all its pixels lie inside the file: the offset and the size that
  the parser reports never pass the end, and the size is that of the rows.\<close>

theorem pnm_pixels_inside_file:
  assumes "m2022_pnm_parse d = Inr r"
  shows "pnm_pixels r + pnm_pixel_bytes r \<le> length d \<and> pnm_width r \<noteq> 0 \<and> pnm_height r \<noteq> 0
    \<and> pnm_pixel_bytes r = (if pnm_type r = 4 then (unat (pnm_width r) + 7) div 8 * unat (pnm_height r)
                           else unat (pnm_width r) * unat (pnm_height r))"
  using pnm_parse_bounds [OF assms] by blast

lemma pnm_pixels_inside_file_witness:
  "\<exists>r. m2022_pnm_parse (pbm_bytes 8 1 [3]) = Inr r \<and> pnm_pixels r + pnm_pixel_bytes r \<le> length (pbm_bytes 8 1 [3])"
proof -
  obtain r where r: "m2022_pnm_parse (pbm_bytes 8 1 [3]) = Inr r"
    using pnm_parse_pbm_bytes [of 8 1 "[3]"] by auto
  with pnm_pixels_inside_file [OF r] show ?thesis by auto
qed

text \<open>Every string the program writes as JSON reads back as the same bytes: quotes, backslashes and
  control characters are escaped so that the reader stops at the closing quote and nowhere else.\<close>

theorem json_string_reads_back:
  "json_read (m2022_json_string (Some s) @ rest) = Some (s, rest)"
  by (simp add: m2022_json_string_def json_read_def json_body_chars)

end
