(* ===== verification/Raster.thy ===== *)
theory Raster
  imports Halftone Complex_Main
begin

text \<open>
  Model of src/raster/convert.c, src/raster/tone.c and src/raster/cupsraster.c, and of the presets of
  src/halftone/halftone.c, which combine a tone curve with a screen. Double precision arithmetic is
  arithmetic on real numbers here (\<open>pow\<close> is \<open>powr\<close>, \<open>lrint\<close> rounds to nearest, ties to even); the
  two static tables of convert.c are functions. Gray is 0 for black, ink is 255 for black.
\<close>

datatype pixel_format = M2022_PIX_SGRAY_8 | M2022_PIX_BLACK_8 | M2022_PIX_BLACK_1 | M2022_PIX_SRGB_24

section \<open>Transfer functions\<close>

text \<open>\<open>lrint\<close> in the default rounding mode.\<close>

definition lrint :: "real \<Rightarrow> int" where
  "lrint r =
    (let f = \<lfloor>r\<rfloor>; d = r - of_int f
     in if d < 1 / 2 then f else if d > 1 / 2 then f + 1 else if even f then f else f + 1)"

definition m2022_srgb_to_linear :: "u8 \<Rightarrow> real" where
  "m2022_srgb_to_linear v =
    (let c = real (unat v) / 255
     in if c \<le> 0.04045 then c / 12.92 else ((c + 0.055) / 1.055) powr 2.4)"

definition m2022_linear_to_srgb :: "real \<Rightarrow> u8" where
  "m2022_linear_to_srgb y =
    (if y \<le> 0 then 0
     else if y \<ge> 1 then 255
     else let c = (if y \<le> 0.0031308 then y * 12.92 else 1.055 * y powr (1 / 2.4) - 0.055)
          in word_of_int (lrint (c * 255)))"

text \<open>\<open>LINEAR\<close> and \<open>ENCODE\<close> hold these values.\<close>

definition srgb_gray :: "u8 \<Rightarrow> u8 \<Rightarrow> u8 \<Rightarrow> u8" where
  "srgb_gray r g b =
    (let y = 0.2126 * m2022_srgb_to_linear r + 0.7152 * m2022_srgb_to_linear g
               + 0.0722 * m2022_srgb_to_linear b
     in m2022_linear_to_srgb (of_int (lrint (y * 4096)) / 4096))"

section \<open>Lines\<close>

definition m2022_raster_line_bytes :: "pixel_format \<Rightarrow> nat \<Rightarrow> nat" where
  "m2022_raster_line_bytes fmt w =
    (case fmt of
       M2022_PIX_BLACK_1 \<Rightarrow> (w + 7) div 8
     | M2022_PIX_SRGB_24 \<Rightarrow> w * 3
     | _ \<Rightarrow> w)"

definition m2022_raster_line_to_gray :: "pixel_format \<Rightarrow> bytes \<Rightarrow> nat \<Rightarrow> bytes" where
  "m2022_raster_line_to_gray fmt line w =
    (case fmt of
       M2022_PIX_SGRAY_8 \<Rightarrow> take w line
     | M2022_PIX_BLACK_8 \<Rightarrow> map (\<lambda>x. 255 - line ! x) [0..<w]
     | M2022_PIX_BLACK_1 \<Rightarrow>
         map (\<lambda>x. if line ! (x div 8) AND drop_bit (x mod 8) 0x80 \<noteq> 0 then 0 else 255) [0..<w]
     | M2022_PIX_SRGB_24 \<Rightarrow>
         map (\<lambda>x. srgb_gray (line ! (3 * x)) (line ! (3 * x + 1)) (line ! (3 * x + 2))) [0..<w])"

definition m2022_raster_fit_line :: "bytes \<Rightarrow> nat \<Rightarrow> int \<Rightarrow> nat \<Rightarrow> u8 \<Rightarrow> bytes" where
  "m2022_raster_fit_line line in_width src_x0 out_width fill =
     map (\<lambda>x. let sx = src_x0 + int x
              in if sx \<ge> 0 \<and> sx < int in_width then line ! nat sx else fill) [0..<out_width]"

text \<open>The sums are C \<open>int\<close>s, so they do not wrap at 8 bits.\<close>

definition m2022_raster_upscale2x_line :: "bytes \<Rightarrow> nat \<Rightarrow> bytes" where
  "m2022_raster_upscale2x_line line w =
     concat (map (\<lambda>x.
         let a = unat (line ! x);
             b = (if x + 1 < w then unat (line ! (x + 1)) else unat (line ! x));
             p = (if x > 0 then unat (line ! (x - 1)) else unat (line ! x))
         in [word_of_nat ((3 * a + p + 2) div 4), word_of_nat ((3 * a + b + 2) div 4)]) [0..<w])"

section \<open>Tone curve\<close>

record tone_params =
  gamma :: real
  dot_gain :: real
  coverage_scale :: real
  black_point :: u8
  white_point :: u8

definition m2022_tone_default :: tone_params where
  "m2022_tone_default =
    \<lparr>gamma = 1, dot_gain = 0.15, coverage_scale = 1, black_point = 0, white_point = 255\<rparr>"

definition compensate_dot_gain :: "real \<Rightarrow> real \<Rightarrow> real" where
  "compensate_dot_gain target g =
    (if g \<le> 1 / 10 ^ 9 then target
     else
       let a = 4 * g;
           b = 1 + 4 * g;
           disc0 = b * b - 4 * a * target;
           disc = (if disc0 < 0 then 0 else disc0)
       in (b - sqrt disc) / (2 * a))"

definition m2022_tone_build :: "tone_params \<Rightarrow> bytes" where
  "m2022_tone_build p =
     map (\<lambda>v.
         if v \<le> unat (black_point p) then 255
         else if v \<ge> unat (white_point p) then 0
         else
           let darkness = 1 - m2022_srgb_to_linear (word_of_nat v);
               c0 = darkness powr (if gamma p > 0 then gamma p else 1);
               c1 = compensate_dot_gain c0 (dot_gain p) * coverage_scale p;
               c2 = (if c1 < 0 then 0 else c1);
               c3 = (if c2 > 1 then 1 else c2)
           in word_of_int (lrint (c3 * 255))) [0..<256]"

definition m2022_tone_apply :: "bytes \<Rightarrow> bytes \<Rightarrow> nat \<Rightarrow> bytes" where
  "m2022_tone_apply lut gray w = map (\<lambda>x. lut ! unat (gray ! x)) [0..<w]"

section \<open>Presets\<close>

datatype preset =
  M2022_PRESET_DRAFT | M2022_PRESET_NORMAL | M2022_PRESET_TEXT | M2022_PRESET_PHOTO | M2022_PRESET_VENDOR

definition m2022_preset :: "preset \<Rightarrow> tone_params \<times> ht_params" where
  "m2022_preset pr =
    (let tone = m2022_tone_default
     in case pr of
          M2022_PRESET_DRAFT \<Rightarrow>
            (tone\<lparr>dot_gain := 0.10, coverage_scale := 0.75\<rparr>, m2022_ht_default M2022_HT_BAYER8)
        | M2022_PRESET_TEXT \<Rightarrow>
            (tone\<lparr>dot_gain := 0\<rparr>, (m2022_ht_default M2022_HT_THRESHOLD)\<lparr>ht_threshold := 96\<rparr>)
        | M2022_PRESET_PHOTO \<Rightarrow>
            (tone\<lparr>dot_gain := 0.20\<rparr>, m2022_ht_default M2022_HT_FLOYD_STEINBERG)
        | M2022_PRESET_VENDOR \<Rightarrow>
            (tone, (m2022_ht_default M2022_HT_CLUSTERED)\<lparr>cluster_cell := 8\<rparr>)
        | M2022_PRESET_NORMAL \<Rightarrow> (tone, m2022_ht_default M2022_HT_BLUE_NOISE))"

fun m2022_preset_name :: "preset \<Rightarrow> string" where
  "m2022_preset_name M2022_PRESET_DRAFT = ''draft''"
| "m2022_preset_name M2022_PRESET_NORMAL = ''normal''"
| "m2022_preset_name M2022_PRESET_TEXT = ''text''"
| "m2022_preset_name M2022_PRESET_PHOTO = ''photo''"
| "m2022_preset_name M2022_PRESET_VENDOR = ''vendor''"

definition m2022_preset_parse :: "string \<Rightarrow> preset option" where
  "m2022_preset_parse name =
     find (\<lambda>pr. strcasecmp name (m2022_preset_name pr))
       [M2022_PRESET_DRAFT, M2022_PRESET_NORMAL, M2022_PRESET_TEXT, M2022_PRESET_PHOTO,
        M2022_PRESET_VENDOR]"

section \<open>CUPS raster header\<close>

abbreviation (input) M2022_CUPSRASTER_HEADER_BYTES :: nat where
  "M2022_CUPSRASTER_HEADER_BYTES \<equiv> 1800"

record cupsraster_header =
  cr_width :: u32
  cr_height :: u32
  bits_per_color :: u32
  bits_per_pixel :: u32
  bytes_per_line :: u32
  color_space :: u32
  x_dpi :: u32
  y_dpi :: u32
  num_copies :: u32
  cr_little_endian :: bool
  compressed :: bool
  page_size_name :: bytes

definition cr_rd32 :: "bytes \<Rightarrow> bool \<Rightarrow> u32" where
  "cr_rd32 p le =
    (if le then push_bit 24 (ucast (p ! 3)) OR push_bit 16 (ucast (p ! 2))
                  OR push_bit 8 (ucast (p ! 1)) OR ucast (p ! 0)
     else push_bit 24 (ucast (p ! 0)) OR push_bit 16 (ucast (p ! 1))
            OR push_bit 8 (ucast (p ! 2)) OR ucast (p ! 3))"

text \<open>The negative return codes are the left side; the header of a rejected raster is not used.\<close>

definition m2022_cupsraster_parse_header :: "bytes \<Rightarrow> int + cupsraster_header" where
  "m2022_cupsraster_parse_header d =
    (if length d < M2022_CUPSRASTER_HEADER_BYTES then Inl (-1)
     else
       let sync = take 4 d
       in if sync \<noteq> ascii ''RaS2'' \<and> sync \<noteq> ascii ''RaS3''
             \<and> sync \<noteq> ascii ''2SaR'' \<and> sync \<noteq> ascii ''3SaR'' then Inl (-2)
          else
            let le = \<not> (sync = ascii ''RaS2'' \<or> sync = ascii ''RaS3'');
                h = \<lparr>cr_width = cr_rd32 (drop 376 d) le,
                     cr_height = cr_rd32 (drop 380 d) le,
                     bits_per_color = cr_rd32 (drop 388 d) le,
                     bits_per_pixel = cr_rd32 (drop 392 d) le,
                     bytes_per_line = cr_rd32 (drop 396 d) le,
                     color_space = cr_rd32 (drop 404 d) le,
                     x_dpi = cr_rd32 (drop 280 d) le,
                     y_dpi = cr_rd32 (drop 284 d) le,
                     num_copies = cr_rd32 (drop 344 d) le,
                     cr_little_endian = le,
                     compressed = (d ! (if le then 0 else 3) = word_of_nat (of_char (CHR ''2''))),
                     page_size_name = takeWhile (\<lambda>c. c \<noteq> 0) (part 1736 63 d)\<rparr>
            in if cr_width h = 0 \<or> cr_height h = 0 \<or> bytes_per_line h = 0 then Inl (-3) else Inr h)"

definition m2022_cupsraster_pixel_format :: "cupsraster_header \<Rightarrow> pixel_format option" where
  "m2022_cupsraster_pixel_format h =
    (if bits_per_pixel h = 8 \<and> (color_space h = 18 \<or> color_space h = 0) then Some M2022_PIX_SGRAY_8
     else if bits_per_pixel h = 8 \<and> color_space h = 3 then Some M2022_PIX_BLACK_8
     else if bits_per_pixel h = 1 \<and> color_space h = 3 then Some M2022_PIX_BLACK_1
     else if bits_per_pixel h = 24 \<and> (color_space h = 19 \<or> color_space h = 1) then Some M2022_PIX_SRGB_24
     else None)"

section \<open>Line operations\<close>

lemma length_line_to_gray:
  "m2022_raster_line_bytes fmt w \<le> length line \<Longrightarrow> length (m2022_raster_line_to_gray fmt line w) = w"
  by (cases fmt) (simp_all add: m2022_raster_line_to_gray_def m2022_raster_line_bytes_def)

lemma and_bit_nonzero: "(b :: u8) AND drop_bit k 0x80 \<noteq> 0 \<longleftrightarrow> bit b (7 - k)" if "k < 8"
proof -
  have "x \<noteq> 0 \<longleftrightarrow> (\<exists>n. bit x n)" for x :: u8
    by (metis bit_word_eqI bit_0_eq bot_apply bot_bool_def)
  then have "b AND drop_bit k 0x80 \<noteq> 0 \<longleftrightarrow> (\<exists>n. bit b n \<and> k + n = 7)"
    by (simp only: bit_and_iff bit_drop_bit_eq bit_0x80 comp_apply)
  also have "\<dots> \<longleftrightarrow> bit b (7 - k)"
  proof -
    have "k + n = 7 \<longleftrightarrow> n = 7 - k" for n using that by linarith
    then show ?thesis by simp
  qed
  finally show ?thesis .
qed

text \<open>A packed line becomes black where its pixel is set; feeding the gray back is the identity.\<close>

lemma black_1_to_gray:
  "x < w \<Longrightarrow> m2022_raster_line_to_gray M2022_PIX_BLACK_1 line w ! x = (if pixel line x then 0 else 255)"
  using and_bit_nonzero [of "x mod 8" "line ! (x div 8)"]
  by (simp add: m2022_raster_line_to_gray_def pixel_def)

lemma fit_line_nth:
  "x < out_width \<Longrightarrow> m2022_raster_fit_line line in_width x0 out_width fill ! x =
     (if 0 \<le> x0 + int x \<and> x0 + int x < int in_width then line ! nat (x0 + int x) else fill)"
  by (simp add: m2022_raster_fit_line_def Let_def)

lemma length_fit_line [simp]: "length (m2022_raster_fit_line line iw x0 ow fill) = ow"
  by (simp add: m2022_raster_fit_line_def)

lemma length_upscale: "length (m2022_raster_upscale2x_line line w) = 2 * w"
  by (simp add: m2022_raster_upscale2x_line_def length_concat comp_def Let_def sum_list_triv)

lemma concat_pairs_nth:
  "i < n \<Longrightarrow> concat (map (\<lambda>x. [f x, g x]) [0..<n]) ! (2 * i) = f i
    \<and> concat (map (\<lambda>x. [f x, g x]) [0..<n]) ! (2 * i + 1) = g i"
proof (induction n)
  case (Suc n)
  have len: "length (concat (map (\<lambda>x. [f x, g x]) [0..<n])) = 2 * n"
    by (simp add: length_concat comp_def sum_list_triv)
  show ?case
    using Suc len by (cases "i = n") (auto simp: nth_append)
qed simp

text \<open>The interpolated samples lie between their neighbours: no overflow, no overshoot.\<close>

lemma interpolate_between:
  "min a p \<le> (3 * a + p + 2) div 4 \<and> (3 * a + p + 2) div 4 \<le> max a (p :: nat)"
proof -
  have "4 * min a p \<le> 3 * a + p + 2" by (auto simp: min_def)
  then have "min a p \<le> (3 * a + p + 2) div 4" by linarith
  moreover have "3 * a + p + 2 < 4 * (max a p + 1)" by (auto simp: max_def)
  then have "(3 * a + p + 2) div 4 < max a p + 1" by (simp add: div_less_iff_less_mult mult.commute)
  ultimately show ?thesis by simp
qed

lemma upscale_nth:
  fixes line :: bytes
  assumes "x < w"
  defines "a \<equiv> unat (line ! x)"
    and "p \<equiv> unat (line ! (if x > 0 then x - 1 else x))"
    and "b \<equiv> unat (line ! (if x + 1 < w then x + 1 else x))"
  shows "unat (m2022_raster_upscale2x_line line w ! (2 * x)) = (3 * a + p + 2) div 4"
    and "unat (m2022_raster_upscale2x_line line w ! (2 * x + 1)) = (3 * a + b + 2) div 4"
proof -
  have le: "(3 * unat (u :: u8) + unat (v :: u8) + 2) div 4 < 256" for u v
    using unat_u8_less [of u] unat_u8_less [of v] by linarith
  have fits: "unat (word_of_nat ((3 * unat (u :: u8) + unat (v :: u8) + 2) div 4) :: u8)
      = (3 * unat u + unat v + 2) div 4" for u v
    by (rule unat_of_nat_u8 [OF le])
  show "unat (m2022_raster_upscale2x_line line w ! (2 * x)) = (3 * a + p + 2) div 4"
    unfolding m2022_raster_upscale2x_line_def Let_def a_def p_def
    by (subst conjunct1 [OF concat_pairs_nth [OF assms(1)]]) (cases "x > 0"; simp only: if_True if_False fits)
  show "unat (m2022_raster_upscale2x_line line w ! (2 * x + 1)) = (3 * a + b + 2) div 4"
    unfolding m2022_raster_upscale2x_line_def Let_def a_def b_def
    by (subst conjunct2 [OF concat_pairs_nth [OF assms(1)]]) (cases "x + 1 < w"; simp only: if_True if_False fits)
qed

section \<open>The tone curve is monotone\<close>

lemma lrint_mono: "a \<le> b \<Longrightarrow> lrint a \<le> lrint b"
proof -
  assume le: "a \<le> b"
  define f g where "f = \<lfloor>a\<rfloor>" and "g = \<lfloor>b\<rfloor>"
  have fg: "f \<le> g" using le by (simp add: f_def g_def floor_mono)
  have "lrint a \<le> f + 1" "g \<le> lrint b" by (auto simp: lrint_def Let_def f_def g_def)
  show ?thesis
  proof (cases "f = g")
    case True
    then show ?thesis using le by (auto simp: lrint_def Let_def f_def g_def)
  next
    case False
    then have "f + 1 \<le> g" using fg by simp
    with \<open>lrint a \<le> f + 1\<close> \<open>g \<le> lrint b\<close> show ?thesis by linarith
  qed
qed

lemma lrint_of_int [simp]: "lrint (of_int n) = n"
  by (simp add: lrint_def)

definition srgb_curve :: "real \<Rightarrow> real" where
  "srgb_curve c = (if c \<le> 0.04045 then c / 12.92 else ((c + 0.055) / 1.055) powr 2.4)"

lemma srgb_to_linear_curve: "m2022_srgb_to_linear v = srgb_curve (real (unat v) / 255)"
  unfolding m2022_srgb_to_linear_def srgb_curve_def Let_def ..

lemma srgb_to_linear_range: "0 \<le> m2022_srgb_to_linear v \<and> m2022_srgb_to_linear v \<le> 1"
proof -
  have "real (unat v) \<le> 255" using unat_u8_less [of v] by linarith
  then have c: "0 \<le> real (unat v) / 255" "real (unat v) / 255 \<le> 1"
    by (simp_all del: of_nat_unat)
  have "0 \<le> srgb_curve c \<and> srgb_curve c \<le> 1" if "0 \<le> c" "c \<le> 1" for c
  proof -
    have "((c + 0.055) / 1.055) powr 2.4 \<le> 1" using that by (intro powr_le1) auto
    then show ?thesis using that by (auto simp: srgb_curve_def)
  qed
  from this [OF c] show ?thesis unfolding srgb_to_linear_curve .
qed

text \<open>The two pieces of the curve meet in the right order: 10 is the last value of the linear one.\<close>

lemma powr_24_ge:
  assumes "0 < (x :: real)" "0 \<le> y" "y ^ 5 \<le> x ^ 12"
  shows "y \<le> x powr 2.4"
proof -
  have "(x powr 2.4) ^ 5 = (x powr 2.4) powr real 5" using assms(1) by (intro powr_realpow [symmetric]) simp
  also have "\<dots> = x powr real 12" by (simp add: powr_powr)
  also have "\<dots> = x ^ 12" using assms(1) by (rule powr_realpow)
  finally have "y ^ 5 \<le> (x powr 2.4) ^ 5" using assms(3) by simp
  then show ?thesis using assms(2) by (simp add: power_mono_iff)
qed

lemma srgb_to_linear_mono:
  assumes "unat u \<le> unat v"
  shows "m2022_srgb_to_linear u \<le> m2022_srgb_to_linear v"
proof -
  define c d where "c = real (unat u) / 255" and "d = real (unat v) / 255"
  have cd: "0 \<le> c" "c \<le> d" using assms by (simp_all add: c_def d_def divide_right_mono del: of_nat_unat)
  have "srgb_curve c \<le> srgb_curve d"
  proof -
    consider "d \<le> 0.04045" | "c \<le> 0.04045" "0.04045 < d" | "0.04045 < c" using cd by linarith
    then show ?thesis
    proof cases
      case 1
      then show ?thesis using cd by (simp add: srgb_curve_def divide_right_mono)
    next
      case 2
      have "real (unat u) < 11" using 2(1) by (simp add: c_def del: of_nat_unat)
      then have "unat u \<le> 10" by linarith
      then have "c \<le> 10 / 255" by (simp add: c_def del: of_nat_unat)
      then have y: "c / 12.92 \<le> 0.00304" "0 \<le> c / 12.92" using cd by simp_all
      have "10 < real (unat v)" using 2(2) by (simp add: d_def del: of_nat_unat)
      then have "11 \<le> unat v" by linarith
      then have "11 / 255 \<le> d" by (simp add: d_def del: of_nat_unat)
      then have x: "0.093 \<le> (d + 0.055) / 1.055" by simp
      have "(c / 12.92) ^ 5 \<le> 0.00304 ^ 5" using y by (intro power_mono) auto
      also have "\<dots> \<le> (0.093 :: real) ^ 12" by (simp add: power_divide)
      also have "\<dots> \<le> ((d + 0.055) / 1.055) ^ 12" using x by (intro power_mono) auto
      finally have "c / 12.92 \<le> ((d + 0.055) / 1.055) powr 2.4" using x y by (intro powr_24_ge) auto
      then show ?thesis using 2 by (simp add: srgb_curve_def)
    next
      case 3
      then have "((c + 0.055) / 1.055) powr 2.4 \<le> ((d + 0.055) / 1.055) powr 2.4"
        using cd by (intro powr_mono2) (auto simp: divide_right_mono)
      then show ?thesis using 3 cd by (simp add: srgb_curve_def)
    qed
  qed
  then show ?thesis unfolding srgb_to_linear_curve c_def d_def .
qed

lemma compensate_mono:
  assumes "s \<le> t"
  shows "compensate_dot_gain s g \<le> compensate_dot_gain t g"
proof (cases "g \<le> 1 / 10 ^ 9")
  case True
  then show ?thesis using assms by (simp add: compensate_dot_gain_def)
next
  case False
  then have g: "0 < g" by (meson le_less_trans not_le zero_le_divide_1_iff zero_le_numeral zero_le_power)
  define a b where "a = 4 * g" and "b = 1 + 4 * g"
  define disc where "disc = (\<lambda>t. if b * b - 4 * a * t < 0 then 0 else b * b - 4 * a * t)"
  have a: "0 < a" using g by (simp add: a_def)
  have eq: "compensate_dot_gain r g = (b - sqrt (disc r)) / (2 * a)" for r
    unfolding compensate_dot_gain_def Let_def if_not_P [OF False] a_def b_def disc_def ..
  have "4 * a * s \<le> 4 * a * t" using assms a by simp
  then have "disc t \<le> disc s" by (auto simp: disc_def)
  then have "sqrt (disc t) \<le> sqrt (disc s)" by simp
  then show ?thesis unfolding eq using a by (intro divide_right_mono) auto
qed

text \<open>The ink a gray value gets, before it is stored.\<close>

definition tone_value :: "tone_params \<Rightarrow> nat \<Rightarrow> int" where
  "tone_value p v =
    (let darkness = 1 - m2022_srgb_to_linear (word_of_nat v);
         c0 = darkness powr (if gamma p > 0 then gamma p else 1);
         c1 = compensate_dot_gain c0 (dot_gain p) * coverage_scale p;
         c2 = (if c1 < 0 then 0 else c1);
         c3 = (if c2 > 1 then 1 else c2)
     in lrint (c3 * 255))"

lemma tone_value_range: "0 \<le> tone_value p v \<and> tone_value p v \<le> 255"
proof -
  define c where "c = compensate_dot_gain ((1 - m2022_srgb_to_linear (word_of_nat v))
      powr (if gamma p > 0 then gamma p else 1)) (dot_gain p) * coverage_scale p"
  define d where "d = (if (if c < 0 then 0 else c) > 1 then 1 else (if c < 0 then 0 else c))"
  have "0 \<le> d * 255" "d * 255 \<le> 255" by (auto simp: d_def)
  then have "lrint 0 \<le> lrint (d * 255)" "lrint (d * 255) \<le> lrint 255" by (intro lrint_mono; simp)+
  moreover have "lrint 0 = 0" "lrint 255 = 255"
    using lrint_of_int [of 0] lrint_of_int [of 255] by simp_all
  moreover have "tone_value p v = lrint (d * 255)" by (simp add: tone_value_def Let_def c_def d_def)
  ultimately show ?thesis by simp
qed

lemma tone_value_antimono:
  assumes "u \<le> v" "v < 256" "0 \<le> coverage_scale p"
  shows "tone_value p v \<le> tone_value p u"
proof -
  define G where "G = (if gamma p > 0 then gamma p else 1)"
  define clamp where "clamp = (\<lambda>c :: real. if (if c < 0 then 0 else c) > 1 then 1 else if c < 0 then 0 else c)"
  have eq: "tone_value p w = lrint (clamp (compensate_dot_gain
      ((1 - m2022_srgb_to_linear (word_of_nat w)) powr G) (dot_gain p) * coverage_scale p) * 255)" for w
    by (simp add: tone_value_def Let_def G_def clamp_def)
  have "1 - m2022_srgb_to_linear (word_of_nat v) \<le> 1 - m2022_srgb_to_linear (word_of_nat u)"
    using srgb_to_linear_mono [of "word_of_nat u" "word_of_nat v"] assms by (simp add: unat_of_nat_u8)
  then have "(1 - m2022_srgb_to_linear (word_of_nat v)) powr G \<le> (1 - m2022_srgb_to_linear (word_of_nat u)) powr G"
    using srgb_to_linear_range [of "word_of_nat v"] by (intro powr_mono2) (auto simp: G_def)
  then have "compensate_dot_gain ((1 - m2022_srgb_to_linear (word_of_nat v)) powr G) (dot_gain p) * coverage_scale p
      \<le> compensate_dot_gain ((1 - m2022_srgb_to_linear (word_of_nat u)) powr G) (dot_gain p) * coverage_scale p"
    using assms(3) by (intro mult_right_mono compensate_mono)
  moreover have "a \<le> b \<Longrightarrow> clamp a \<le> clamp b" for a b by (auto simp: clamp_def)
  ultimately show ?thesis unfolding eq by (intro lrint_mono mult_right_mono) auto
qed

lemma tone_build_nth:
  "v < 256 \<Longrightarrow> unat (m2022_tone_build p ! v) =
     (if v \<le> unat (black_point p) then 255
      else if v \<ge> unat (white_point p) then 0 else nat (tone_value p v))"
proof -
  assume v: "v < 256"
  have "nat (tone_value p v) < 256" using tone_value_range [of p v] by (simp add: nat_less_iff)
  moreover have "word_of_int (tone_value p v) = (word_of_nat (nat (tone_value p v)) :: u8)"
    using tone_value_range [of p v] by simp
  ultimately show ?thesis
    using v by (simp add: m2022_tone_build_def tone_value_def [unfolded Let_def, symmetric] Let_def unat_of_nat_u8)
qed

text \<open>Darker gray never gets less ink.\<close>

lemma tone_build_antimono:
  assumes "u \<le> v" "v < 256" "0 \<le> coverage_scale p"
  shows "unat (m2022_tone_build p ! v) \<le> unat (m2022_tone_build p ! u)"
  using assms tone_value_antimono [OF assms] tone_value_range [of p u] by (auto simp: tone_build_nth nat_mono)

section \<open>Names\<close>

lemma preset_parse_name: "m2022_preset_parse (m2022_preset_name pr) = Some pr"
  by (cases pr) (simp_all add: m2022_preset_parse_def strcasecmp_def lower_def)

lemma method_parse_name: "m2022_ht_method_parse (m2022_ht_method_name m) = Some m"
  by (cases m) (simp_all add: m2022_ht_method_parse_def method_names_def strcasecmp_def lower_def)

lemma cupsraster_header_sane:
  assumes "m2022_cupsraster_parse_header d = Inr h"
  shows "1800 \<le> length d \<and> cr_width h \<noteq> 0 \<and> cr_height h \<noteq> 0 \<and> bytes_per_line h \<noteq> 0
    \<and> length (page_size_name h) < 64 \<and> 0 \<notin> set (page_size_name h)"
proof -
  have "length (takeWhile (\<lambda>c. c \<noteq> 0) (part 1736 63 d)) \<le> length (part 1736 63 d)"
    by (rule length_takeWhile_le)
  also have "\<dots> \<le> 63" by (simp add: part_def)
  finally show ?thesis
    using assms by (auto simp: m2022_cupsraster_parse_header_def Let_def split: if_splits dest: set_takeWhileD)
qed

section \<open>Properties\<close>

text \<open>C39: The tone table never turns a darker gray into less ink: for any parameters with a coverage that is
  not negative, the 256 entries fall from ink to paper, dot-gain compensation and clamping included.\<close>

theorem tone_table_monotone:
  assumes "u \<le> v" "v < 256" "0 \<le> coverage_scale p"
  shows "unat (m2022_tone_build p ! v) \<le> unat (m2022_tone_build p ! u)"
  by (rule tone_build_antimono [OF assms])

lemma tone_table_monotone_witness:
  "unat (m2022_tone_build m2022_tone_default ! 200) \<le> unat (m2022_tone_build m2022_tone_default ! 100)"
  using tone_table_monotone [of 100 200 m2022_tone_default] by (simp add: m2022_tone_default_def)

text \<open>The line doubling for 1200 dpi interpolates: each of the two samples of a pixel lies between
  the pixel and its neighbour on that side, so a line never overshoots and its 8-bit stores lose
  nothing.\<close>

theorem upscale_interpolates:
  fixes line :: bytes
  assumes "x < w"
  defines "a \<equiv> unat (line ! x)"
    and "p \<equiv> unat (line ! (if x > 0 then x - 1 else x))"
    and "b \<equiv> unat (line ! (if x + 1 < w then x + 1 else x))"
  shows "unat (m2022_raster_upscale2x_line line w ! (2 * x)) \<in> {min a p..max a p}
    \<and> unat (m2022_raster_upscale2x_line line w ! (2 * x + 1)) \<in> {min a b..max a b}
    \<and> length (m2022_raster_upscale2x_line line w) = 2 * w"
  using upscale_nth [OF assms(1), of line] interpolate_between length_upscale
  by (simp add: a_def p_def b_def)

lemma upscale_interpolates_witness:
  "unat (m2022_raster_upscale2x_line [0, 200] 2 ! 2) \<in> {0..200}"
  using upscale_interpolates [of 1 2 "[0, 200]"] by simp

text \<open>A CUPS raster header is accepted only from 1800 bytes or more, with a width, a height and a line
  size that are not zero, and a page size name that is terminated inside its field.\<close>

theorem cupsraster_accepts_sane:
  assumes "m2022_cupsraster_parse_header d = Inr h"
  shows "1800 \<le> length d \<and> cr_width h \<noteq> 0 \<and> cr_height h \<noteq> 0 \<and> bytes_per_line h \<noteq> 0
    \<and> length (page_size_name h) < 64 \<and> 0 \<notin> set (page_size_name h)"
  by (rule cupsraster_header_sane [OF assms])

lemma cupsraster_accepts_sane_witness:
  "\<exists>h. m2022_cupsraster_parse_header (ascii ''RaS3'' @ replicate 1796 1) = Inr h \<and> length (page_size_name h) < 64"
proof -
  define d where "d = ascii ''RaS3'' @ replicate 1796 (1 :: u8)"
  have d: "length d = 1800" "take 4 d = ascii ''RaS3''"
    by (simp_all add: d_def)
  have nth: "d ! i = 1" if "4 \<le> i" "i < 1800" for i using that by (simp add: d_def nth_append)
  have word: "cr_rd32 (drop k d) False = 0x01010101" if "4 \<le> k" "k + 4 \<le> 1800" for k
    using that d(1) nth [of k] nth [of "k + 1"] nth [of "k + 2"] nth [of "k + 3"]
    by (simp add: cr_rd32_def push_bit_eq_mult)
  obtain h where h: "m2022_cupsraster_parse_header d = Inr h"
    using d word by (simp add: m2022_cupsraster_parse_header_def Let_def)
  from cupsraster_accepts_sane [OF h] h show ?thesis by (auto simp: d_def)
qed

text \<open>The names of presets and halftone methods parse back to what they name.\<close>

theorem names_parse_back:
  "m2022_preset_parse (m2022_preset_name pr) = Some pr
   \<and> m2022_ht_method_parse (m2022_ht_method_name m) = Some m"
  by (simp add: preset_parse_name method_parse_name)

end
