(* ===== verification/Cstring.thy ===== *)
theory Cstring
  imports Prelude
begin

text \<open>
  The C library's string functions that the printer application and the service use. A C string is a
  character list without NUL; a pointer into a string is the rest of it from there.
\<close>

section \<open>Searching\<close>

text \<open>\<open>strstr(hay, needle)\<close>: the rest of \<open>hay\<close> from the first occurrence.\<close>

fun strstr :: "string \<Rightarrow> string \<Rightarrow> string option" where
  "strstr [] needle = (if needle = [] then Some [] else None)"
| "strstr (c # hay) needle =
    (if take (length needle) (c # hay) = needle then Some (c # hay) else strstr hay needle)"

lemma strstr_skip: "n \<noteq> [] \<Longrightarrow> hd n \<noteq> c \<Longrightarrow> strstr (c # hay) n = strstr hay n"
  by (cases n) auto

lemma strstr_skips:
  "\<lbrakk>n \<noteq> []; hd n \<notin> set pre\<rbrakk> \<Longrightarrow> strstr (pre @ hay) n = strstr hay n"
  by (induction pre) (auto simp: strstr_skip simp del: strstr.simps)

lemma strstr_here: "needle \<noteq> [] \<Longrightarrow> strstr (needle @ rest) needle = Some (needle @ rest)"
  by (cases needle) auto

text \<open>\<open>strcspn\<close>, and \<open>strchr\<close> as a position.\<close>

definition strcspn :: "string \<Rightarrow> string \<Rightarrow> nat" where
  "strcspn s reject = length (takeWhile (\<lambda>c. c \<notin> set reject) s)"

section \<open>Printing\<close>

text \<open>What \<open>snprintf\<close> leaves in a buffer of \<open>bufsize > 0\<close> bytes.\<close>

definition snprintf :: "nat \<Rightarrow> string \<Rightarrow> string" where
  "snprintf bufsize s = take (bufsize - 1) s"

lemma snprintf_fits [simp]: "length s < bufsize \<Longrightarrow> snprintf bufsize s = s"
  by (simp add: snprintf_def)

lemma length_snprintf [simp]: "0 < bufsize \<Longrightarrow> length (snprintf bufsize s) < bufsize"
  by (simp add: snprintf_def)

definition hexdigit :: "nat \<Rightarrow> char" where
  "hexdigit n = ''0123456789abcdef'' ! n"

text \<open>\<open>printf("%04x", v)\<close> of a 16-bit value.\<close>

definition hex4 :: "u16 \<Rightarrow> string" where
  "hex4 v = (let n = unat v in
     [hexdigit (n div 4096), hexdigit (n div 256 mod 16), hexdigit (n div 16 mod 16), hexdigit (n mod 16)])"

text \<open>\<open>printf("%d", n)\<close>.\<close>

definition decimal_int :: "int \<Rightarrow> string" where
  "decimal_int n = (if n < 0 then ''-'' @ decimal (nat (- n)) else decimal (nat n))"

section \<open>Scanning\<close>

definition isspace :: "char \<Rightarrow> bool" where
  "isspace c \<longleftrightarrow> c = CHR '' '' \<or> c \<in> {CHR 0x09, CHR 0x0A, CHR 0x0B, CHR 0x0C, CHR 0x0D}"

text \<open>The value of a digit in some base up to 16.\<close>

definition digit_value :: "char \<Rightarrow> nat option" where
  "digit_value c =
    (let n = of_char c in
     if 48 \<le> n \<and> n \<le> 57 then Some (n - 48)
     else if 97 \<le> n \<and> n \<le> 102 then Some (n - 87)
     else if 65 \<le> n \<and> n \<le> 70 then Some (n - 55)
     else None)"

definition is_digit :: "nat \<Rightarrow> char \<Rightarrow> bool" where
  "is_digit base c \<longleftrightarrow> (case digit_value c of None \<Rightarrow> False | Some d \<Rightarrow> d < base)"

fun digits_value :: "nat \<Rightarrow> nat \<Rightarrow> string \<Rightarrow> nat" where
  "digits_value base acc [] = acc"
| "digits_value base acc (c # cs) =
    digits_value base (acc * base + (case digit_value c of None \<Rightarrow> 0 | Some d \<Rightarrow> d)) cs"

text \<open>
  \<open>"%<width>x"\<close> of \<open>sscanf\<close>: blanks, then within the width a sign, a prefix and digits; the value and the
  rest of the input.
\<close>

definition scan_hex :: "nat \<Rightarrow> string \<Rightarrow> (u32 \<times> string) option" where
  "scan_hex width s =
    (let s1 = dropWhile isspace s;
         item = take width s1;
         sign = (if item \<noteq> [] \<and> hd item \<in> {CHR ''+'', CHR ''-''} then 1 else 0);
         r = drop sign item;
         prefix = (if take 2 r \<in> {''0x'', ''0X''} then 2 else 0);
         digits = takeWhile (is_digit 16) (drop prefix r);
         v = word_of_nat (digits_value 16 0 digits)
     in if digits = [] then None
        else Some (if sign = 1 \<and> hd item = CHR ''-'' then - v else v,
                   drop (sign + prefix + length digits) s1))"

text \<open>\<open>atoi\<close>: white space, a sign, digits; 0 when there are none.\<close>

definition atoi_digits :: "string \<Rightarrow> int" where
  "atoi_digits s =
    fold (\<lambda>c v. v * 10 + (int (of_char c) - 48))
      (takeWhile (\<lambda>c. 48 \<le> (of_char c :: nat) \<and> (of_char c :: nat) \<le> 57) s) 0"

definition atoi :: "string \<Rightarrow> int" where
  "atoi s =
    (case dropWhile (\<lambda>c. (of_char c :: nat) = 32 \<or> 9 \<le> (of_char c :: nat) \<and> (of_char c :: nat) \<le> 13) s of
       [] \<Rightarrow> 0
     | c # cs \<Rightarrow>
         if c = CHR ''-'' then - atoi_digits cs
         else if c = CHR ''+'' then atoi_digits cs else atoi_digits (c # cs))"

lemma hexdigit_cases:
  assumes "n < 16"
  shows "hexdigit n \<in> set ''0123456789abcdef''"
  unfolding hexdigit_def using assms by (intro nth_mem) simp

lemma hexdigit_value:
  assumes "n < 16"
  shows "digit_value (hexdigit n) = Some n"
proof -
  have "list_all (\<lambda>n. digit_value (hexdigit n) = Some n) [0 ..< 16]" by code_simp
  then show ?thesis using assms by (simp add: list_all_iff)
qed

lemma hexdigit_is_digit [simp]: "n < 16 \<Longrightarrow> is_digit 16 (hexdigit n)"
  by (simp add: is_digit_def hexdigit_value)

lemma hexdigit_other:
  "\<lbrakk>n < 16; c \<notin> set ''0123456789abcdef''\<rbrakk> \<Longrightarrow> hexdigit n \<noteq> c"
  using hexdigit_cases by metis

lemma hex4_chars: "c \<in> set (hex4 v) \<Longrightarrow> c \<in> set ''0123456789abcdef''"
proof -
  have "unat v div 4096 < 16" using unat_u16_less [of v] by linarith
  then have "\<exists>n < 16. c = hexdigit n" if "c \<in> set (hex4 v)" for c
    using that by (auto simp: hex4_def Let_def) (metis mod_less_divisor zero_less_numeral)+
  then show "c \<in> set (hex4 v) \<Longrightarrow> c \<in> set ''0123456789abcdef''" using hexdigit_cases by blast
qed

lemma length_hex4 [simp]: "length (hex4 v) = 4"
  by (simp add: hex4_def Let_def)

lemma hex4_value: "digits_value 16 0 (hex4 v) = unat v"
proof -
  define n where "n = unat v"
  have n: "n div 4096 < 16" using unat_u16_less [of v] unfolding n_def by linarith
  have "((n div 4096 * 16 + n div 256 mod 16) * 16 + n div 16 mod 16) * 16 + n mod 16 = n"
    using div_mult_mod_eq [of n 16] div_mult_mod_eq [of "n div 16" 16] div_mult_mod_eq [of "n div 256" 16]
    by (simp add: div_mult2_eq [symmetric])
  then show ?thesis using n by (simp add: hex4_def Let_def n_def [symmetric] hexdigit_value)
qed

lemma scan_hex4:
  assumes "rest = [] \<or> \<not> is_digit 16 (hd rest)"
  shows "scan_hex 4 (hex4 v @ rest) = Some (ucast v, rest)"
proof -
  define h where "h = hex4 v"
  have chars: "\<forall>c \<in> set h. c \<in> set ''0123456789abcdef''" using hex4_chars by (auto simp: h_def)
  have len: "length h = 4" by (simp add: h_def)
  then obtain a b c d where h: "h = [a, b, c, d]" by (auto simp: length_Suc_conv numeral_eq_Suc)
  have digit: "\<forall>c \<in> set ''0123456789abcdef''. is_digit 16 c \<and> \<not> isspace c \<and> c \<notin> {CHR ''+'', CHR ''-'', CHR ''x'', CHR ''X''}"
    by (simp add: is_digit_def digit_value_def isspace_def Let_def)
  have all: "\<forall>c \<in> set h. is_digit 16 c \<and> \<not> isspace c \<and> c \<notin> {CHR ''+'', CHR ''-'', CHR ''x'', CHR ''X''}"
    using chars digit by blast
  have "dropWhile isspace (h @ rest) = h @ rest" using all h by simp
  moreover have "takeWhile (is_digit 16) h = h" using all by (simp add: takeWhile_eq_all_conv)
  moreover have "word_of_nat (digits_value 16 0 h) = (ucast v :: u32)"
    by (simp add: h_def hex4_value)
  ultimately show ?thesis
    using all len unfolding h_def [symmetric] scan_hex_def Let_def by (simp add: h)
qed

end
