(* ===== verification/Pipeline.thy ===== *)
theory Pipeline
  imports Fileio Raster Cstring
begin

text \<open>
  Model of src/cli/pipeline.c, what the commands that run pages share: the halftone options of the
  command line and the page loader. Arguments are strings; \<open>atof\<close> is a parameter. The messages on
  standard error are not modelled.
\<close>

section \<open>Options\<close>

record halftone_opts =
  o_preset :: preset
  have_method :: bool
  o_method :: ht_method
  o_gamma :: real
  o_dot_gain :: real
  o_coverage :: real
  o_threshold :: int
  o_cell :: int

definition cli_halftone_opts_init :: halftone_opts where
  "cli_halftone_opts_init =
    \<lparr>o_preset = M2022_PRESET_NORMAL, have_method = False, o_method = M2022_HT_BLUE_NOISE,
     o_gamma = -1, o_dot_gain = -1, o_coverage = -1, o_threshold = -1, o_cell = -1\<rparr>"

text \<open>The return codes 0, -1 and 1; the last with the options and the arguments that remain.\<close>

datatype opt_result = OptOther | OptError | OptUsed halftone_opts "string list"

definition cli_halftone_opt :: "(string \<Rightarrow> real) \<Rightarrow> halftone_opts \<Rightarrow> string \<Rightarrow> string list \<Rightarrow> opt_result" where
  "cli_halftone_opt atof opts opt rest =
    (if opt \<notin> {''--preset'', ''--method'', ''--gamma'', ''--dot-gain'', ''--coverage'', ''--threshold'', ''--cell''}
     then OptOther
     else case rest of
       [] \<Rightarrow> OptError
     | val # rest' \<Rightarrow>
         if opt = ''--preset'' then
           (case m2022_preset_parse val of
              None \<Rightarrow> OptError | Some pr \<Rightarrow> OptUsed (opts\<lparr>o_preset := pr\<rparr>) rest')
         else if opt = ''--method'' then
           (case m2022_ht_method_parse val of
              None \<Rightarrow> OptError | Some m \<Rightarrow> OptUsed (opts\<lparr>o_method := m, have_method := True\<rparr>) rest')
         else if opt = ''--gamma'' then OptUsed (opts\<lparr>o_gamma := atof val\<rparr>) rest'
         else if opt = ''--dot-gain'' then OptUsed (opts\<lparr>o_dot_gain := atof val\<rparr>) rest'
         else if opt = ''--coverage'' then OptUsed (opts\<lparr>o_coverage := atof val\<rparr>) rest'
         else if opt = ''--threshold'' then OptUsed (opts\<lparr>o_threshold := atoi val\<rparr>) rest'
         else OptUsed (opts\<lparr>o_cell := atoi val\<rparr>) rest')"

text \<open>An option consumes its value.\<close>

lemma cli_halftone_opt_shorter:
  "cli_halftone_opt atof opts opt rest = OptUsed opts' rest' \<Longrightarrow> length rest' < length rest"
  by (auto simp: cli_halftone_opt_def split: if_splits list.splits option.splits)

definition cli_halftone_resolve :: "halftone_opts \<Rightarrow> tone_params \<times> ht_params \<times> string" where
  "cli_halftone_resolve o1 =
    (let (tone, ht) = m2022_preset (o_preset o1);
         ht = (if have_method o1 then m2022_ht_default (o_method o1) else ht);
         tone = (if o_gamma o1 > 0 then tone\<lparr>gamma := o_gamma o1\<rparr> else tone);
         tone = (if o_dot_gain o1 \<ge> 0 then tone\<lparr>dot_gain := o_dot_gain o1\<rparr> else tone);
         tone = (if o_coverage o1 \<ge> 0 then tone\<lparr>coverage_scale := o_coverage o1\<rparr> else tone);
         ht = (if o_threshold o1 \<ge> 0 then ht\<lparr>ht_threshold := word_of_int (o_threshold o1)\<rparr> else ht);
         ht = (if o_cell o1 > 0 then ht\<lparr>cluster_cell := word_of_int (o_cell o1)\<rparr> else ht)
     in (tone, ht, if have_method o1 then ''(custom)'' else m2022_preset_name (o_preset o1)))"

section \<open>The page loader\<close>

text \<open>\<open>ra_pixels\<close> is the file from the pixel pointer on: what lies behind it can be read, no more.\<close>

record cli_raster =
  ra_width :: u32
  ra_height :: u32
  ra_bilevel :: bool
  ra_fmt :: pixel_format
  ra_line_bytes :: u32
  ra_pixels :: bytes
  ra_x_dpi :: u32
  ra_y_dpi :: u32
  ra_page_size :: bytes

definition raster_zero :: cli_raster where
  "raster_zero =
    \<lparr>ra_width = 0, ra_height = 0, ra_bilevel = False, ra_fmt = M2022_PIX_SGRAY_8, ra_line_bytes = 0,
     ra_pixels = [], ra_x_dpi = 0, ra_y_dpi = 0, ra_page_size = []\<rparr>"

text \<open>From the file's bytes, \<open>None\<close> when it cannot be read; the result is \<open>None\<close> for the return code 2.\<close>

definition cli_raster_open :: "bytes option \<Rightarrow> cli_raster option" where
  "cli_raster_open file =
    (case file of
       None \<Rightarrow> None
     | Some d \<Rightarrow>
         if length d > 2 \<and> d ! 0 = 80 then
           (case m2022_pnm_parse d of
              Inl _ \<Rightarrow> None
            | Inr p \<Rightarrow>
                if pnm_type p \<noteq> 4 \<and> pnm_type p \<noteq> 5 then None
                else
                  let r = raster_zero\<lparr>ra_width := pnm_width p, ra_height := pnm_height p,
                                      ra_pixels := drop (pnm_pixels p) d\<rparr>
                  in if pnm_type p = 4
                     then Some (r\<lparr>ra_bilevel := True, ra_line_bytes := (pnm_width p + 7) div 8\<rparr>)
                     else Some (r\<lparr>ra_fmt := M2022_PIX_SGRAY_8, ra_line_bytes := pnm_width p\<rparr>))
         else
           (case m2022_cupsraster_parse_header d of
              Inl _ \<Rightarrow> None
            | Inr h \<Rightarrow>
                if compressed h then None
                else case m2022_cupsraster_pixel_format h of
                  None \<Rightarrow> None
                | Some fmt \<Rightarrow>
                    if length d < M2022_CUPSRASTER_HEADER_BYTES + unat (bytes_per_line h) * unat (cr_height h)
                    then None
                    else Some \<lparr>ra_width = cr_width h, ra_height = cr_height h, ra_bilevel = False,
                               ra_fmt = fmt, ra_line_bytes = bytes_per_line h,
                               ra_pixels = drop M2022_CUPSRASTER_HEADER_BYTES d,
                               ra_x_dpi = x_dpi h, ra_y_dpi = y_dpi h,
                               ra_page_size = page_size_name h\<rparr>))"

section \<open>What the loader guarantees\<close>

text \<open>The lines of a page as the commands address them.\<close>

definition raster_line :: "cli_raster \<Rightarrow> nat \<Rightarrow> bytes" where
  "raster_line r y = drop (y * unat (ra_line_bytes r)) (ra_pixels r)"

text \<open>The bytes that a line of the page is read from.\<close>

definition line_need :: "cli_raster \<Rightarrow> nat" where
  "line_need r =
    (if ra_bilevel r then (unat (ra_width r) + 7) div 8
     else m2022_raster_line_bytes (ra_fmt r) (unat (ra_width r)))"

definition lines_inside :: "cli_raster \<Rightarrow> bool" where
  "lines_inside r \<longleftrightarrow> (\<forall>y < unat (ra_height r). line_need r \<le> length (raster_line r y))"

lemma lines_insideI:
  assumes "line_need r \<le> unat (ra_line_bytes r)"
    and "unat (ra_line_bytes r) * unat (ra_height r) \<le> length (ra_pixels r)"
  shows "lines_inside r"
proof -
  have "line_need r \<le> length (raster_line r y)" if "y < unat (ra_height r)" for y
  proof -
    have "(y + 1) * unat (ra_line_bytes r) \<le> unat (ra_height r) * unat (ra_line_bytes r)"
      using that by (intro mult_le_mono1) simp
    then have "y * unat (ra_line_bytes r) + unat (ra_line_bytes r) \<le> length (ra_pixels r)"
      using assms(2) by (simp add: mult.commute)
    then show ?thesis using assms(1) by (simp add: raster_line_def)
  qed
  then show ?thesis by (simp add: lines_inside_def)
qed

lemma word_add_7_div_8:
  fixes w :: u32
  assumes "unat w \<le> 2 ^ 32 - 8"
  shows "unat ((w + 7) div 8) = (unat w + 7) div 8"
proof -
  have "unat (w + 7) = unat w + 7" using assms by (simp add: unat_word_ariths)
  then show ?thesis by (simp add: unat_div)
qed

text \<open>An anymap's lines lie inside the file.\<close>

lemma pnm_lines_inside:
  assumes "cli_raster_open (Some d) = Some r" "2 < length d" "d ! 0 = 80" "unat (ra_width r) \<le> 2 ^ 32 - 8"
  shows "lines_inside r"
proof -
  obtain p where p: "m2022_pnm_parse d = Inr p"
    using assms by (auto simp: cli_raster_open_def split: sum.splits)
  note b = pnm_parse_bounds [OF p]
  have r: "ra_width r = pnm_width p" "ra_height r = pnm_height p" "ra_pixels r = drop (pnm_pixels p) d"
    "ra_bilevel r = (pnm_type p = 4)"
    "ra_line_bytes r = (if pnm_type p = 4 then (pnm_width p + 7) div 8 else pnm_width p)"
    "pnm_type p \<noteq> 4 \<Longrightarrow> ra_fmt r = M2022_PIX_SGRAY_8"
    using assms(1-3) p by (auto simp: cli_raster_open_def raster_zero_def Let_def split: if_splits)
  have lb: "unat (ra_line_bytes r) = line_need r"
    using r assms(4) word_add_7_div_8 [of "ra_width r"]
    by (simp add: line_need_def m2022_raster_line_bytes_def)
  moreover have "unat (ra_line_bytes r) * unat (ra_height r) \<le> length (ra_pixels r)"
    using b r lb by (auto simp: line_need_def m2022_raster_line_bytes_def split: if_splits)
  ultimately show ?thesis by (intro lines_insideI) simp_all
qed

text \<open>A CUPS raster's do when its lines are as long as its width needs, which is not checked.\<close>

lemma cups_lines_inside:
  assumes "cli_raster_open (Some d) = Some r" "d ! 0 \<noteq> 80" "line_need r \<le> unat (ra_line_bytes r)"
  shows "lines_inside r"
proof (rule lines_insideI [OF assms(3)])
  show "unat (ra_line_bytes r) * unat (ra_height r) \<le> length (ra_pixels r)"
    using assms(1,2)
    by (auto simp: cli_raster_open_def split: if_splits sum.splits option.splits)
qed

end
