(* ===== verification/Media.thy ===== *)
theory Media
  imports Prelude Complex_Main
begin

text \<open>
  Model of src/app/media.c: the table of paper sizes in its three vocabularies, and the lookups in it.
  \<open>imageable\<close> is left, bottom, right, top in points; doubles are real numbers.
\<close>

record media =
  pwg_name :: string
  vendor_name :: string
  qpdl_code :: u8
  width_pt :: int
  height_pt :: int
  imageable :: "real list"

definition medium :: "string \<Rightarrow> string \<Rightarrow> u8 \<Rightarrow> int \<Rightarrow> int \<Rightarrow> real list \<Rightarrow> media" where
  "medium p v c x y box =
     \<lparr>pwg_name = p, vendor_name = v, qpdl_code = c, width_pt = x, height_pt = y, imageable = box\<rparr>"

definition MEDIA :: "media list" where
  "MEDIA =
    [medium ''iso_a4_210x297mm'' ''A4'' 0x02 595 842 [12.5, 12.5, 582.5, 829.5],
     medium ''na_letter_8.5x11in'' ''Letter'' 0x00 612 792 [12.24, 12.06, 599.76, 780.06],
     medium ''na_legal_8.5x14in'' ''Legal'' 0x01 612 1008 [12.5, 12.5, 599.5, 995.5],
     medium ''na_executive_7.25x10.5in'' ''Executive'' 0x03 522 756 [13.3, 12.1, 508.7, 744.1],
     medium ''iso_a5_148x210mm'' ''A5'' 0x10 420 595 [12.5, 12.5, 407.5, 582.5],
     medium ''jis_b5_182x257mm'' ''B5-JIS'' 0x0B 516 729 [12.5, 12.5, 503.5, 716.5],
     medium ''iso_b5_176x250mm'' ''B5-ISO'' 0x0C 499 709 [13.2, 12.06, 485.52, 696.54],
     medium ''na_foolscap_8.5x13in'' ''US-Folio'' 0x18 612 936 [12.5, 12.5, 599.5, 923.5],
     medium ''custom_8.5x13.5in_8.5x13.5in'' ''Oficio'' 0x1C 612 972 [12.5, 12.5, 599.5, 959.5],
     medium ''na_index-4x6_4x6in'' ''Postcard_S'' 0x0D 288 432 [12.5, 12.5, 275.5, 419.5],
     medium ''iso_c5_162x229mm'' ''EnvC5'' 0x08 459 649 [12.6, 12.1, 446.5, 637.0],
     medium ''iso_dl_110x220mm'' ''EnvDL'' 0x09 312 624 [13.8, 12.1, 297.9, 611.6],
     medium ''na_number-10_4.125x9.5in'' ''Env10'' 0x06 297 684 [13.0, 13.0, 284.5, 671.5],
     medium ''na_monarch_3.875x7.5in'' ''EnvMonarch'' 0x07 279 540 [12.7, 12.1, 266.2, 528.1]]"

definition m2022_media_table :: "media list" where
  "m2022_media_table = MEDIA"

definition m2022_media_by_pwg :: "string option \<Rightarrow> media option" where
  "m2022_media_by_pwg name =
    (case name of None \<Rightarrow> None | Some s \<Rightarrow> find (\<lambda>m. pwg_name m = s) MEDIA)"

definition m2022_media_by_qpdl_code :: "u8 \<Rightarrow> media option" where
  "m2022_media_by_qpdl_code code = find (\<lambda>m. qpdl_code m = code) MEDIA"

definition m2022_media_default_pwg :: string where
  "m2022_media_default_pwg = pwg_name (MEDIA ! 0)"

section \<open>The lookups\<close>

lemma distinct_find:
  "\<lbrakk>distinct (map f xs); x \<in> set xs\<rbrakk> \<Longrightarrow> find (\<lambda>y. f y = f x) xs = Some x"
  by (induction xs) (auto simp: image_iff)

lemma distinct_pwg_names: "distinct (map pwg_name MEDIA)"
  by (simp add: MEDIA_def medium_def)

lemma distinct_qpdl_codes: "distinct (map qpdl_code MEDIA)"
  by (simp add: MEDIA_def medium_def)

lemma find_member: "find P xs = Some x \<Longrightarrow> x \<in> set xs \<and> P x"
  by (induction xs) (auto split: if_splits)

text \<open>Each lookup is the inverse of the table's column.\<close>

lemma by_pwg_iff: "m2022_media_by_pwg (Some s) = Some m \<longleftrightarrow> m \<in> set MEDIA \<and> pwg_name m = s"
  using distinct_find [OF distinct_pwg_names, of m] find_member
  by (fastforce simp: m2022_media_by_pwg_def)

lemma by_qpdl_code_iff: "m2022_media_by_qpdl_code c = Some m \<longleftrightarrow> m \<in> set MEDIA \<and> qpdl_code m = c"
  using distinct_find [OF distinct_qpdl_codes, of m] find_member
  by (fastforce simp: m2022_media_by_qpdl_code_def)

section \<open>Properties\<close>

text \<open>The two media lookups are the inverses of the table's columns: names and paper codes are unique,
  a lookup finds exactly the entry that carries the key, and every entry can be found.\<close>

theorem media_lookups:
  "(m2022_media_by_pwg (Some s) = Some m \<longleftrightarrow> m \<in> set m2022_media_table \<and> pwg_name m = s)
   \<and> (m2022_media_by_qpdl_code c = Some m \<longleftrightarrow> m \<in> set m2022_media_table \<and> qpdl_code m = c)"
  using by_pwg_iff by_qpdl_code_iff by (simp add: m2022_media_table_def)

end
