(* ===== verification/Jobmap.thy ===== *)
theory Jobmap
  imports Media Raster "HOL-Library.Signed_Division"
begin

text \<open>
  Model of src/app/jobmap.c: from the options of an IPP job to what the pipeline and the printer need.
  C's \<open>long\<close> has 64 bits and no value here comes near that, so it is an integer; the pixel counts
  are 32-bit words, so that their sums and differences wrap as in the code.
\<close>

datatype content =
  M2022_CONTENT_AUTO | M2022_CONTENT_TEXT | M2022_CONTENT_GRAPHIC | M2022_CONTENT_PHOTO
| M2022_CONTENT_TEXT_AND_GRAPHIC

abbreviation (input) M2022_IPP_QUALITY_DRAFT :: int where "M2022_IPP_QUALITY_DRAFT \<equiv> 3"
abbreviation (input) M2022_IPP_QUALITY_NORMAL :: int where "M2022_IPP_QUALITY_NORMAL \<equiv> 4"
abbreviation (input) M2022_IPP_QUALITY_HIGH :: int where "M2022_IPP_QUALITY_HIGH \<equiv> 5"

definition m2022_jobmap_preset :: "int \<Rightarrow> content \<Rightarrow> preset" where
  "m2022_jobmap_preset ipp_quality c =
    (if ipp_quality = M2022_IPP_QUALITY_DRAFT then M2022_PRESET_DRAFT
     else if c = M2022_CONTENT_TEXT then M2022_PRESET_TEXT
     else if c = M2022_CONTENT_PHOTO \<or> ipp_quality = M2022_IPP_QUALITY_HIGH then M2022_PRESET_PHOTO
     else M2022_PRESET_NORMAL)"

definition paper_type_map :: "(string \<times> string) list" where
  "paper_type_map =
    [(''stationery'', ''OFF''), (''stationery-heavyweight'', ''THICK''),
     (''stationery-lightweight'', ''THIN''), (''stationery-preprinted'', ''USED''),
     (''cardstock'', ''CARD''), (''labels'', ''LABEL''), (''envelope'', ''ENV'')]"

definition m2022_jobmap_paper_type :: "string option \<Rightarrow> string" where
  "m2022_jobmap_paper_type pwg_media_type =
    (case pwg_media_type of
       None \<Rightarrow> ''OFF''
     | Some s \<Rightarrow> (case map_of paper_type_map s of None \<Rightarrow> ''OFF'' | Some pjl \<Rightarrow> pjl))"

definition m2022_jobmap_feeder :: "string option \<Rightarrow> u8" where
  "m2022_jobmap_feeder pwg_media_source = (if pwg_media_source = Some ''manual'' then 2 else 1)"

section \<open>Geometry\<close>

text \<open>\<open>lround\<close>: to the nearest integer, halves away from zero.\<close>

definition lround :: "real \<Rightarrow> int" where
  "lround r = (if r < 0 then - \<lfloor>1 / 2 - r\<rfloor> else \<lfloor>r + 1 / 2\<rfloor>)"

definition px :: "real \<Rightarrow> nat \<Rightarrow> u32" where
  "px points d =
    (let hundredths = lround (points * 100);
         v = (hundredths * int d + 3600) sdiv 7200
     in if v \<le> 0 then 0 else word_of_int v)"

record jobmap_geometry =
  geo_x0 :: u32
  geo_y0 :: u32
  geo_width :: u32
  geo_height :: u32

text \<open>\<open>None\<close> where the function returns false.\<close>

definition m2022_jobmap_geometry ::
  "media option \<Rightarrow> nat \<Rightarrow> u32 \<Rightarrow> u32 \<Rightarrow> jobmap_geometry option" where
  "m2022_jobmap_geometry m_ptr d raster_width raster_height =
    (case m_ptr of
       None \<Rightarrow> None
     | Some m \<Rightarrow>
         if d = 0 \<or> raster_width = 0 \<or> raster_height = 0 then None
         else
           let pw = px (imageable m ! 2 - imageable m ! 0) d;
               ph = px (imageable m ! 3 - imageable m ! 1) d;
               left = px (imageable m ! 0) d;
               upper = px (of_int (height_pt m) - imageable m ! 3) d
           in if pw = 0 \<or> ph = 0 then None
              else
                let x0 = (if raster_width \<ge> pw + left then left else 0);
                    y0 = (if raster_height \<ge> ph + upper then upper else 0)
                in Some \<lparr>geo_x0 = x0, geo_y0 = y0,
                         geo_width = (if raster_width - x0 < pw then raster_width - x0 else pw),
                         geo_height = (if raster_height - y0 < ph then raster_height - y0 else ph)\<rparr>)"

section \<open>The printable area\<close>

text \<open>What the area must satisfy: inside the raster, no larger than the imageable area, not empty.\<close>

definition area_ok :: "u32 \<Rightarrow> u32 \<Rightarrow> jobmap_geometry \<Rightarrow> bool" where
  "area_ok rw rh g \<longleftrightarrow> 0 < unat (geo_width g) \<and> 0 < unat (geo_height g)
     \<and> unat (geo_x0 g) + unat (geo_width g) \<le> unat rw
     \<and> unat (geo_y0 g) + unat (geo_height g) \<le> unat rh"

text \<open>One dimension: \<open>p\<close> printable pixels after a margin of \<open>m\<close>, in a raster of \<open>r\<close>.\<close>

lemma crop_dimension:
  fixes r p m :: u32
  defines "x0 \<equiv> (if p + m \<le> r then m else 0)"
  assumes "r \<noteq> 0" "p \<noteq> 0" "unat p + unat m < 2 ^ 32"
  shows "0 < unat (if r - x0 < p then r - x0 else p)"
    and "unat x0 + unat (if r - x0 < p then r - x0 else p) \<le> unat r"
    and "(if r - x0 < p then r - x0 else p) \<le> p"
proof -
  have pm: "unat (p + m) = unat p + unat m"
    using assms(4) by (simp add: unat_word_ariths)
  have p: "0 < unat p" using assms(3) by (simp add: unat_gt_0)
  have r: "0 < unat r" using assms(2) by (simp add: unat_gt_0)
  have "unat p + unat m \<le> unat r" if "p + m \<le> r"
    using that pm by (simp add: word_le_nat_alt)
  then have x0: "unat x0 \<le> unat r" "unat x0 < unat r" using p r by (auto simp: x0_def)
  then have sub: "unat (r - x0) = unat r - unat x0"
    by (intro unat_sub) (simp add: word_le_nat_alt)
  show "0 < unat (if r - x0 < p then r - x0 else p)" using sub x0 p by auto
  show "unat x0 + unat (if r - x0 < p then r - x0 else p) \<le> unat r"
    using sub x0 by (auto simp: word_less_nat_alt not_less)
  show "(if r - x0 < p then r - x0 else p) \<le> p" by auto
qed

text \<open>The sizes of the table at the engine's resolution.\<close>

definition printable :: "media \<Rightarrow> nat \<Rightarrow> u32 \<times> u32" where
  "printable m d = (px (imageable m ! 2 - imageable m ! 0) d, px (imageable m ! 3 - imageable m ! 1) d)"

definition margins :: "media \<Rightarrow> nat \<Rightarrow> u32 \<times> u32" where
  "margins m d = (px (imageable m ! 0) d, px (of_int (height_pt m) - imageable m ! 3) d)"

text \<open>The printable pixels and the margins of the table, in its order.\<close>

lemma printable_600:
  "map (\<lambda>m. printable m 600) MEDIA =
    [(4750, 6808), (4896, 6400), (4892, 8192), (4128, 6100), (3292, 4750), (4092, 5867), (3936, 5704),
     (4892, 7592), (4892, 7892), (2192, 3392), (3616, 5208), (2368, 4996), (2263, 5488), (2113, 4300)]"
  by (simp add: MEDIA_def medium_def printable_def px_def lround_def Let_def signed_divide_int_def)

lemma margins_600:
  "map (\<lambda>m. margins m 600) MEDIA =
    [(104, 104), (102, 100), (104, 104), (111, 99), (104, 104), (104, 104), (110, 104),
     (104, 104), (104, 104), (104, 104), (105, 100), (115, 103), (108, 104), (106, 99)]"
  by (simp add: MEDIA_def medium_def margins_def px_def lround_def Let_def signed_divide_int_def)

definition engine_ok :: "media \<Rightarrow> bool" where
  "engine_ok m \<longleftrightarrow>
    (case (printable m 600, margins m 600) of ((pw, ph), (left, upper)) \<Rightarrow>
       pw \<noteq> 0 \<and> ph \<noteq> 0 \<and> unat pw \<le> 4896 \<and> unat ph \<le> 8192 \<and> unat left \<le> 115 \<and> unat upper \<le> 104)"

lemma media_engine_ok: "m \<in> set MEDIA \<Longrightarrow> engine_ok m"
proof -
  assume m: "m \<in> set MEDIA"
  have "list_all (\<lambda>(pw, ph). pw \<noteq> 0 \<and> ph \<noteq> 0 \<and> unat pw \<le> 4896 \<and> unat ph \<le> 8192)
      (map (\<lambda>m. printable m 600) MEDIA)"
    unfolding printable_600 by simp
  moreover have "list_all (\<lambda>(left, upper). unat left \<le> 115 \<and> unat upper \<le> 104)
      (map (\<lambda>m. margins m 600) MEDIA)"
    unfolding margins_600 by simp
  ultimately show ?thesis
    using m by (auto simp: list_all_iff engine_ok_def split: prod.splits)
qed

text \<open>Every size of the table gives a printable area inside a raster that is not empty.\<close>

lemma geometry_600:
  assumes "m \<in> set MEDIA" "rw \<noteq> 0" "rh \<noteq> 0"
  shows "\<exists>g. m2022_jobmap_geometry (Some m) 600 rw rh = Some g \<and> area_ok rw rh g
    \<and> geo_width g \<le> fst (printable m 600) \<and> geo_height g \<le> snd (printable m 600)
    \<and> unat (geo_width g) \<le> 4896 \<and> unat (geo_height g) \<le> 8192"
proof -
  obtain pw ph where p: "printable m 600 = (pw, ph)" by force
  obtain left upper where l: "margins m 600 = (left, upper)" by force
  define x0 where "x0 = (if pw + left \<le> rw then left else 0)"
  define y0 where "y0 = (if ph + upper \<le> rh then upper else 0)"
  define g where "g = \<lparr>geo_x0 = x0, geo_y0 = y0,
    geo_width = (if rw - x0 < pw then rw - x0 else pw), geo_height = (if rh - y0 < ph then rh - y0 else ph)\<rparr>"
  have ok: "pw \<noteq> 0" "ph \<noteq> 0" "unat pw \<le> 4896" "unat ph \<le> 8192" "unat left \<le> 115" "unat upper \<le> 104"
    using media_engine_ok [OF assms(1)] by (simp_all add: engine_ok_def p l)
  have geo: "m2022_jobmap_geometry (Some m) 600 rw rh = Some g"
    using assms(2,3) ok(1,2) p l
    by (simp add: m2022_jobmap_geometry_def Let_def printable_def margins_def g_def x0_def y0_def)
  have bounds: "unat pw + unat left < 2 ^ 32" "unat ph + unat upper < 2 ^ 32" using ok by simp_all
  note w = crop_dimension [OF assms(2) ok(1) bounds(1), folded x0_def]
  note h = crop_dimension [OF assms(3) ok(2) bounds(2), folded y0_def]
  have "area_ok rw rh g" using w(1,2) h(1,2) by (simp add: area_ok_def g_def)
  moreover have le: "geo_width g \<le> pw" "geo_height g \<le> ph" using w(3) h(3) by (simp_all add: g_def)
  moreover from le ok have "unat (geo_width g) \<le> 4896" "unat (geo_height g) \<le> 8192"
    by (auto simp: word_le_nat_alt)
  ultimately show ?thesis using geo p by simp
qed

text \<open>A raster of the whole page is cropped by the margins to the full imageable area.\<close>

lemma geometry_full_page:
  assumes "m \<in> set MEDIA"
    and "unat (fst (printable m 600)) + unat (fst (margins m 600)) \<le> unat rw"
    and "unat (snd (printable m 600)) + unat (snd (margins m 600)) \<le> unat rh"
  shows "m2022_jobmap_geometry (Some m) 600 rw rh =
    Some \<lparr>geo_x0 = fst (margins m 600), geo_y0 = snd (margins m 600),
          geo_width = fst (printable m 600), geo_height = snd (printable m 600)\<rparr>"
proof -
  obtain pw ph where p: "printable m 600 = (pw, ph)" by force
  obtain left upper where l: "margins m 600 = (left, upper)" by force
  have ok: "pw \<noteq> 0" "ph \<noteq> 0" "unat pw \<le> 4896" "unat ph \<le> 8192" "unat left \<le> 115" "unat upper \<le> 104"
    using media_engine_ok [OF assms(1)] by (simp_all add: engine_ok_def p l)
  have le: "unat pw + unat left \<le> unat rw" "unat ph + unat upper \<le> unat rh" using assms p l by simp_all
  then have rw: "rw \<noteq> 0" "rh \<noteq> 0" using ok by (auto simp: unat_eq_0)
  have "unat (pw + left) = unat pw + unat left" "unat (ph + upper) = unat ph + unat upper"
    using ok by (simp_all add: unat_word_ariths)
  then have "pw + left \<le> rw" "ph + upper \<le> rh" using le by (simp_all add: word_le_nat_alt)
  moreover have "unat left \<le> unat rw" "unat upper \<le> unat rh" using le by simp_all
  then have "unat (rw - left) = unat rw - unat left" "unat (rh - upper) = unat rh - unat upper"
    by (simp_all add: unat_sub word_le_nat_alt)
  then have "\<not> rw - left < pw" "\<not> rh - upper < ph"
    using le by (simp_all add: word_less_nat_alt)
  ultimately show ?thesis
    using rw ok(1,2) p l
    by (simp add: m2022_jobmap_geometry_def Let_def printable_def margins_def)
qed

section \<open>Properties\<close>

text \<open>For every paper size of the table at the engine's 600 dpi and every raster that is not empty, the
  printable area exists, lies inside the raster, is not empty and is at most 4896 by 8192 pixels: its
  32-bit sums never wrap, and it is within the encoder's limits.\<close>

theorem printable_area_inside_raster:
  assumes "m \<in> set m2022_media_table" "rw \<noteq> 0" "rh \<noteq> 0"
  shows "\<exists>g. m2022_jobmap_geometry (Some m) 600 rw rh = Some g \<and> area_ok rw rh g
    \<and> unat (geo_width g) \<le> 4896 \<and> unat (geo_height g) \<le> 8192"
  using geometry_600 [OF _ assms(2,3)] assms(1) by (auto simp: m2022_media_table_def)

lemma printable_area_inside_raster_witness:
  "\<exists>g. m2022_jobmap_geometry (Some (MEDIA ! 0)) 600 100 70 = Some g \<and> area_ok 100 70 g"
  using printable_area_inside_raster [of "MEDIA ! 0" 100 70]
  by (auto simp: m2022_media_table_def MEDIA_def)

text \<open>A raster that holds the whole page is cropped by the paper's margins to the full imageable area,
  as the vendor's driver does.\<close>

theorem full_page_cropped:
  assumes "m \<in> set m2022_media_table"
    and "unat (fst (printable m 600)) + unat (fst (margins m 600)) \<le> unat rw"
    and "unat (snd (printable m 600)) + unat (snd (margins m 600)) \<le> unat rh"
  shows "m2022_jobmap_geometry (Some m) 600 rw rh =
    Some \<lparr>geo_x0 = fst (margins m 600), geo_y0 = snd (margins m 600),
          geo_width = fst (printable m 600), geo_height = snd (printable m 600)\<rparr>"
  using geometry_full_page [OF _ assms(2,3)] assms(1) by (simp add: m2022_media_table_def)

lemma full_page_cropped_witness:
  "m2022_jobmap_geometry (Some (MEDIA ! 0)) 600 4960 7015 =
    Some \<lparr>geo_x0 = 104, geo_y0 = 104, geo_width = 4750, geo_height = 6808\<rparr>"
proof -
  have len: "0 < length MEDIA" by (simp add: MEDIA_def)
  have "map (\<lambda>m. printable m 600) MEDIA ! 0 = (4750, 6808)" unfolding printable_600 by simp
  then have p: "printable (MEDIA ! 0) 600 = (4750, 6808)" using len by simp
  have "map (\<lambda>m. margins m 600) MEDIA ! 0 = (104, 104)" unfolding margins_600 by simp
  then have l: "margins (MEDIA ! 0) 600 = (104, 104)" using len by simp
  have "MEDIA ! 0 \<in> set m2022_media_table" using len by (simp add: m2022_media_table_def)
  from full_page_cropped [OF this, of 4960 7015] show ?thesis by (simp add: p l)
qed

end
