(* ===== verification/Qpdl_Records.thy ===== *)
theory Qpdl_Records
  imports Prelude
begin

text \<open>
  Model of src/qpdl/records.c and of the record types of include/m2022/qpdl.h: the error codes,
  big-endian integers, the page header, the band header and the end-of-page record, and the name
  tables. The writers return the bytes they store through their \<open>out\<close> pointer; the parsers return
  the number of bytes consumed with the parsed header, or the error the C function returns as a
  negative number. The round trips at the end say that writer and parser are inverse to each other.
\<close>

section \<open>Error codes\<close>

datatype qpdl_error =
  ETRUNCATED | EMAGIC | ERAWLEN | EOFFSET | EOVERFLOW | ECHECKSUM | ERECORD | ENOPJL | EINVAL
| ERANGE | ESTATE

primrec err_code :: "qpdl_error \<Rightarrow> int" where
  "err_code ETRUNCATED = -2000"
| "err_code EMAGIC = -2001"
| "err_code ERAWLEN = -2002"
| "err_code EOFFSET = -2003"
| "err_code EOVERFLOW = -2004"
| "err_code ECHECKSUM = -2005"
| "err_code ERECORD = -2006"
| "err_code ENOPJL = -2007"
| "err_code EINVAL = -2008"
| "err_code ERANGE = -2009"
| "err_code ESTATE = -2010"

definition strerror_table :: "(int \<times> string) list" where
  "strerror_table =
    [(0, ''success''),
     (err_code ETRUNCATED, ''data ends inside a record or token''),
     (err_code EMAGIC, ''band payload does not start with the 0x09ABCDEF magic''),
     (err_code ERAWLEN, ''raw data length above 128''),
     (err_code EOFFSET, ''match offset reaches before the start of the band''),
     (err_code EOVERFLOW, ''decoded band larger than the output buffer''),
     (err_code ECHECKSUM, ''band checksum mismatch''),
     (err_code ERECORD, ''unknown record type''),
     (err_code ENOPJL, ''no @PJL ENTER LANGUAGE line''),
     (err_code EINVAL, ''invalid argument''),
     (err_code ERANGE, ''page wider than 65280 pixels or taller than 255 bands''),
     (err_code ESTATE, ''encoder call out of order'')]"

definition m2022_qpdl_strerror :: "int \<Rightarrow> string" where
  "m2022_qpdl_strerror err =
     (case map_of strerror_table err of Some s \<Rightarrow> s | None \<Rightarrow> ''unknown error'')"

section \<open>Sizes and record types\<close>

abbreviation (input) M2022_QPDL_BAND_LINES :: nat where "M2022_QPDL_BAND_LINES \<equiv> 128"
abbreviation (input) M2022_QPDL_PAGE_HEADER_LEN :: nat where "M2022_QPDL_PAGE_HEADER_LEN \<equiv> 17"
abbreviation (input) M2022_QPDL_BAND_HEADER_LEN :: nat where "M2022_QPDL_BAND_HEADER_LEN \<equiv> 11"
abbreviation (input) M2022_QPDL_END_PAGE_LEN :: nat where "M2022_QPDL_END_PAGE_LEN \<equiv> 3"
abbreviation (input) M2022_QPDL_REC_PAGE :: u8 where "M2022_QPDL_REC_PAGE \<equiv> 0x00"
abbreviation (input) M2022_QPDL_REC_END_PAGE :: u8 where "M2022_QPDL_REC_END_PAGE \<equiv> 0x01"
abbreviation (input) M2022_QPDL_REC_END_JOB :: u8 where "M2022_QPDL_REC_END_JOB \<equiv> 0x09"
abbreviation (input) M2022_QPDL_REC_BAND :: u8 where "M2022_QPDL_REC_BAND \<equiv> 0x0C"
abbreviation (input) M2022_QPDL_COMPRESSION_0X11 :: u8 where "M2022_QPDL_COMPRESSION_0X11 \<equiv> 0x11"

text \<open>The universal exit language sequence, ESC \<open>%-12345X\<close>.\<close>

definition M2022_QPDL_UEL :: bytes where
  "M2022_QPDL_UEL = 0x1B # ascii ''%-12345X''"

abbreviation (input) M2022_QPDL_UEL_LEN :: nat where "M2022_QPDL_UEL_LEN \<equiv> 9"

lemma length_UEL [simp]: "length M2022_QPDL_UEL = M2022_QPDL_UEL_LEN"
  by (simp add: M2022_QPDL_UEL_def)

section \<open>Big-endian integers\<close>

definition rd16be :: "bytes \<Rightarrow> u16" where
  "rd16be p = push_bit 8 (ucast (p ! 0)) OR ucast (p ! 1)"

definition rd32be :: "bytes \<Rightarrow> u32" where
  "rd32be p = push_bit 24 (ucast (p ! 0)) OR push_bit 16 (ucast (p ! 1))
                OR push_bit 8 (ucast (p ! 2)) OR ucast (p ! 3)"

definition wr16be :: "u16 \<Rightarrow> bytes" where
  "wr16be v = [ucast (drop_bit 8 v), ucast v]"

definition wr32be :: "u32 \<Rightarrow> bytes" where
  "wr32be v = [ucast (drop_bit 24 v), ucast (drop_bit 16 v), ucast (drop_bit 8 v), ucast v]"

lemma length_wr16be [simp]: "length (wr16be v) = 2"
  by (simp add: wr16be_def)

lemma length_wr32be [simp]: "length (wr32be v) = 4"
  by (simp add: wr32be_def)

lemma rd16be_wr16be [record_simps]: "rd16be (wr16be v @ rest) = v"
  by (simp add: rd16be_def wr16be_def)

lemma rd32be_wr32be [record_simps]: "rd32be (wr32be v @ rest) = v"
  by (simp add: rd32be_def wr32be_def)

lemma wr16be_rd16be [record_simps]: "wr16be (rd16be (a # b # rest)) = [a, b]"
  unfolding wr16be_def rd16be_def
  by (auto intro!: bit_word_eqI simp: bit_simps)

lemma wr32be_rd32be [record_simps]:
  "wr32be (rd32be (a # b # c # d # rest)) = [a, b, c, d]"
  unfolding wr32be_def rd32be_def
  by (auto intro!: bit_word_eqI simp: bit_simps)

section \<open>Page header\<close>

record page_header =
  y_res_100 :: u8
  ph_copies :: u16
  ph_paper_code :: u8
  paper_width :: u16
  paper_height :: u16
  ph_feeder :: u8
  reserved_a :: u8
  ph_duplex :: u8
  tumble :: u8
  reserved_d :: u8
  qpdl_version :: u8
  reserved_f :: u8
  x_res_100 :: u8

definition m2022_qpdl_parse_page_header :: "bytes \<Rightarrow> qpdl_error + (nat \<times> page_header)" where
  "m2022_qpdl_parse_page_header p =
    (if length p < M2022_QPDL_PAGE_HEADER_LEN then Inl ETRUNCATED
     else if p ! 0 \<noteq> M2022_QPDL_REC_PAGE then Inl ERECORD
     else Inr (M2022_QPDL_PAGE_HEADER_LEN,
       \<lparr>y_res_100 = p ! 1,
        ph_copies = rd16be (drop 2 p),
        ph_paper_code = p ! 4,
        paper_width = rd16be (drop 5 p),
        paper_height = rd16be (drop 7 p),
        ph_feeder = p ! 9,
        reserved_a = p ! 10,
        ph_duplex = p ! 11,
        tumble = p ! 12,
        reserved_d = p ! 13,
        qpdl_version = p ! 14,
        reserved_f = p ! 15,
        x_res_100 = p ! 16\<rparr>))"

definition m2022_qpdl_write_page_header :: "page_header \<Rightarrow> bytes" where
  "m2022_qpdl_write_page_header h =
     [M2022_QPDL_REC_PAGE, y_res_100 h]
     @ wr16be (ph_copies h)
     @ [ph_paper_code h]
     @ wr16be (paper_width h)
     @ wr16be (paper_height h)
     @ [ph_feeder h, reserved_a h, ph_duplex h, tumble h, reserved_d h, qpdl_version h,
        reserved_f h, x_res_100 h]"

section \<open>Band header\<close>

record band_header =
  bh_number :: u8
  bh_width :: u16
  bh_height :: u16
  bh_compression :: u8
  bh_length :: u32

definition m2022_qpdl_parse_band_header :: "bytes \<Rightarrow> qpdl_error + (nat \<times> band_header)" where
  "m2022_qpdl_parse_band_header p =
    (if length p < M2022_QPDL_BAND_HEADER_LEN then Inl ETRUNCATED
     else if p ! 0 \<noteq> M2022_QPDL_REC_BAND then Inl ERECORD
     else Inr (M2022_QPDL_BAND_HEADER_LEN,
       \<lparr>bh_number = p ! 1,
        bh_width = rd16be (drop 2 p),
        bh_height = rd16be (drop 4 p),
        bh_compression = p ! 6,
        bh_length = rd32be (drop 7 p)\<rparr>))"

definition m2022_qpdl_write_band_header :: "band_header \<Rightarrow> bytes" where
  "m2022_qpdl_write_band_header h =
     [M2022_QPDL_REC_BAND, bh_number h]
     @ wr16be (bh_width h)
     @ wr16be (bh_height h)
     @ [bh_compression h]
     @ wr32be (bh_length h)"

definition m2022_qpdl_write_end_page :: "u16 \<Rightarrow> bytes" where
  "m2022_qpdl_write_end_page copies = M2022_QPDL_REC_END_PAGE # wr16be copies"

section \<open>Names\<close>

definition paper_names :: "(u8 \<times> string) list" where
  "paper_names =
    [(0x00, ''Letter''), (0x01, ''Legal''), (0x02, ''A4''), (0x03, ''Executive''),
     (0x04, ''Ledger''), (0x05, ''A3''), (0x06, ''Env10''), (0x07, ''EnvMonarch''),
     (0x08, ''EnvC5''), (0x09, ''EnvDL''), (0x0A, ''B4-JIS''), (0x0B, ''B5-JIS''),
     (0x0C, ''B5-ISO''), (0x0D, ''Postcard_S''), (0x0E, ''JPost''), (0x0F, ''JDouble''),
     (0x10, ''A5''), (0x11, ''A6''), (0x12, ''B6-JIS''), (0x15, ''Custom''),
     (0x17, ''EnvC6''), (0x18, ''US-Folio''), (0x1C, ''Oficio'')]"

definition m2022_qpdl_paper_name :: "u8 \<Rightarrow> string" where
  "m2022_qpdl_paper_name code =
     (case map_of paper_names code of Some s \<Rightarrow> s | None \<Rightarrow> ''unknown'')"

definition feeder_names :: "(u8 \<times> string) list" where
  "feeder_names =
    [(1, ''auto''), (2, ''manual''), (3, ''multi''), (4, ''top''), (5, ''bottom''),
     (6, ''envelopes''), (7, ''third'')]"

definition m2022_qpdl_feeder_name :: "u8 \<Rightarrow> string" where
  "m2022_qpdl_feeder_name code =
     (case map_of feeder_names code of Some s \<Rightarrow> s | None \<Rightarrow> ''unknown'')"

section \<open>Round trips\<close>

lemma length_write_page_header [simp]:
  "length (m2022_qpdl_write_page_header h) = M2022_QPDL_PAGE_HEADER_LEN"
  by (simp add: m2022_qpdl_write_page_header_def)

lemma length_write_band_header [simp]:
  "length (m2022_qpdl_write_band_header h) = M2022_QPDL_BAND_HEADER_LEN"
  by (simp add: m2022_qpdl_write_band_header_def)

lemma length_write_end_page [simp]:
  "length (m2022_qpdl_write_end_page c) = M2022_QPDL_END_PAGE_LEN"
  by (simp add: m2022_qpdl_write_end_page_def)

lemma nth_write_page_header_0 [simp]: "m2022_qpdl_write_page_header h ! 0 = M2022_QPDL_REC_PAGE"
  by (simp add: m2022_qpdl_write_page_header_def)

lemma nth_write_band_header_0 [simp]: "m2022_qpdl_write_band_header h ! 0 = M2022_QPDL_REC_BAND"
  by (simp add: m2022_qpdl_write_band_header_def)

lemma nth_write_end_page_0 [simp]: "m2022_qpdl_write_end_page c ! 0 = M2022_QPDL_REC_END_PAGE"
  by (simp add: m2022_qpdl_write_end_page_def)

lemma parse_write_page_header [record_simps]:
  "m2022_qpdl_parse_page_header (m2022_qpdl_write_page_header h @ rest) = Inr (17, h)"
  by (cases h)
     (simp add: m2022_qpdl_parse_page_header_def m2022_qpdl_write_page_header_def
       wr16be_def rd16be_def)

lemma parse_write_band_header [record_simps]:
  "m2022_qpdl_parse_band_header (m2022_qpdl_write_band_header h @ rest) = Inr (11, h)"
  by (cases h)
     (simp add: m2022_qpdl_parse_band_header_def m2022_qpdl_write_band_header_def
       wr16be_def rd16be_def wr32be_def rd32be_def)

text \<open>
  Conversely a header that parses is the one the writer stores: the two are inverse on the bytes
  they share, so no byte of the record is lost or invented.
\<close>

lemma page_header_bytes:
  assumes "m2022_qpdl_parse_page_header p = Inr (n, h)"
  shows "n = 17 \<and> take 17 p = m2022_qpdl_write_page_header h"
proof -
  from assms have "17 \<le> length p" and p0: "p ! 0 = 0"
    by (auto simp: m2022_qpdl_parse_page_header_def split: if_splits)
  then obtain a0 a1 a2 a3 a4 a5 a6 a7 a8 a9 a10 a11 a12 a13 a14 a15 a16 r
    where p: "p = [a0, a1, a2, a3, a4, a5, a6, a7, a8, a9, a10, a11, a12, a13, a14, a15, a16] @ r"
    by (auto simp: numeral_eq_Suc length_ge_Suc_iff)
  have "n = 17" and "a0 = 0" and h: "h =
      \<lparr>y_res_100 = a1, ph_copies = rd16be [a2, a3], ph_paper_code = a4,
       paper_width = rd16be [a5, a6], paper_height = rd16be [a7, a8], ph_feeder = a9,
       reserved_a = a10, ph_duplex = a11, tumble = a12, reserved_d = a13, qpdl_version = a14,
       reserved_f = a15, x_res_100 = a16\<rparr>"
    using assms p0 by (auto simp: p m2022_qpdl_parse_page_header_def rd16be_def)
  then show ?thesis
    by (simp add: p m2022_qpdl_write_page_header_def record_simps)
qed

lemma band_header_bytes:
  assumes "m2022_qpdl_parse_band_header p = Inr (n, h)"
  shows "n = 11 \<and> take 11 p = m2022_qpdl_write_band_header h"
proof -
  from assms have "11 \<le> length p" and p0: "p ! 0 = 0x0C"
    by (auto simp: m2022_qpdl_parse_band_header_def split: if_splits)
  then obtain a0 a1 a2 a3 a4 a5 a6 a7 a8 a9 a10 r
    where p: "p = [a0, a1, a2, a3, a4, a5, a6, a7, a8, a9, a10] @ r"
    by (auto simp: numeral_eq_Suc length_ge_Suc_iff)
  have "n = 11" and "a0 = 0x0C" and "h =
      \<lparr>bh_number = a1, bh_width = rd16be [a2, a3], bh_height = rd16be [a4, a5],
       bh_compression = a6, bh_length = rd32be [a7, a8, a9, a10]\<rparr>"
    using assms p0 by (auto simp: p m2022_qpdl_parse_band_header_def rd16be_def rd32be_def)
  then show ?thesis
    by (simp add: p m2022_qpdl_write_band_header_def record_simps)
qed

section \<open>Properties\<close>

text \<open>A page header or band header that was written parses back to itself, whatever follows it, and
  the parser reports the length that was written.\<close>

theorem headers_parse_back:
  "m2022_qpdl_parse_page_header (m2022_qpdl_write_page_header ph @ rest) = Inr (17, ph)
   \<and> m2022_qpdl_parse_band_header (m2022_qpdl_write_band_header bh @ rest) = Inr (11, bh)"
  by (simp add: record_simps)

text \<open>A page header the parser accepts is written back byte for byte: the record type holds
  everything the 17 bytes hold, and what the writer emits is the only accepted form.\<close>

theorem page_header_written_back:
  assumes "m2022_qpdl_parse_page_header p = Inr (n, h)"
  shows "n = 17 \<and> take 17 p = m2022_qpdl_write_page_header h"
  by (rule page_header_bytes [OF assms])

lemma page_header_written_back_witness:
  "let p = [0x00, 6, 0, 1, 2, 9, 0xAF, 13, 0xB4, 1, 0, 0, 0, 0, 3, 1, 6]
   in \<exists>h. m2022_qpdl_parse_page_header p = Inr (17, h) \<and> take 17 p = m2022_qpdl_write_page_header h"
proof -
  define p :: bytes where "p = [0x00, 6, 0, 1, 2, 9, 0xAF, 13, 0xB4, 1, 0, 0, 0, 0, 3, 1, 6]"
  obtain h where "m2022_qpdl_parse_page_header p = Inr (17, h)"
    by (simp add: p_def m2022_qpdl_parse_page_header_def)
  with page_header_written_back [OF this] show ?thesis unfolding Let_def p_def by blast
qed

end
