(* ===== verification/Qpdl_Band.thy ===== *)
theory Qpdl_Band
  imports Qpdl_Records
begin

text \<open>
  Model of src/qpdl/band.c: the transposition between the row-major layout of a page (1 = black)
  and the column-major layout of a band (1 = white). Both functions store into a buffer the caller
  passes; the two loops are kept as loops. The lemmas give the byte at every position, and the two
  conversions are inverse to each other on buffers of the right size.
\<close>

definition m2022_qpdl_band_to_rows :: "bytes \<Rightarrow> nat \<Rightarrow> bytes \<Rightarrow> bytes" where
  "m2022_qpdl_band_to_rows band bytes_per_row rows =
     fold (\<lambda>col.
         let src = drop (col * M2022_QPDL_BAND_LINES) band
         in store_loop (\<lambda>line. line * bytes_per_row + col) (\<lambda>line. NOT (src ! line))
              [0..<M2022_QPDL_BAND_LINES])
       [0..<bytes_per_row] rows"

definition m2022_qpdl_rows_to_band :: "bytes \<Rightarrow> nat \<Rightarrow> bytes \<Rightarrow> bytes" where
  "m2022_qpdl_rows_to_band rows bytes_per_row band =
     fold (\<lambda>col.
         store_loop (\<lambda>line. col * M2022_QPDL_BAND_LINES + line)
           (\<lambda>line. NOT (rows ! (line * bytes_per_row + col)))
           [0..<M2022_QPDL_BAND_LINES])
       [0..<bytes_per_row] band"

lemma band_to_rows_loop:
  "m2022_qpdl_band_to_rows band bpr rows =
     store_loop (\<lambda>(col, line). line * bpr + col)
       (\<lambda>(col, line). NOT (drop (col * 128) band ! line))
       (List.product [0..<bpr] [0..<128]) rows"
  by (simp add: m2022_qpdl_band_to_rows_def Let_def store_loop_nested)

lemma rows_to_band_loop:
  "m2022_qpdl_rows_to_band rows bpr band =
     store_loop (\<lambda>(col, line). col * 128 + line) (\<lambda>(col, line). NOT (rows ! (line * bpr + col)))
       (List.product [0..<bpr] [0..<128]) band"
  by (simp add: m2022_qpdl_rows_to_band_def store_loop_nested)

lemma length_band_to_rows [simp]: "length (m2022_qpdl_band_to_rows band bpr rows) = length rows"
  by (simp add: band_to_rows_loop)

lemma length_rows_to_band [simp]: "length (m2022_qpdl_rows_to_band rows bpr band) = length band"
  by (simp add: rows_to_band_loop)

lemma nth_band_to_rows:
  assumes "col < bpr" "line < 128" "length band = 128 * bpr" "length rows = 128 * bpr"
  shows "m2022_qpdl_band_to_rows band bpr rows ! (line * bpr + col) = NOT (band ! (col * 128 + line))"
proof -
  let ?f = "\<lambda>(col, line). line * bpr + col"
  have "inj_on ?f (set (List.product [0..<bpr] [0..<128]))"
    by (auto simp: inj_on_def index_pair_eq_iff)
  moreover have "?f (col, line) < length rows"
    using assms index_pair_less [of line 128 col bpr] by simp
  moreover have "col * 128 + line < length band"
    using assms index_pair_less [of col bpr line 128] by simp
  ultimately show ?thesis
    using nth_store_loop [of "(col, line)" "List.product [0..<bpr] [0..<128]" ?f rows] assms
    by (simp add: band_to_rows_loop)
qed

lemma nth_rows_to_band:
  assumes "col < bpr" "line < 128" "length band = 128 * bpr"
  shows "m2022_qpdl_rows_to_band rows bpr band ! (col * 128 + line) = NOT (rows ! (line * bpr + col))"
proof -
  let ?f = "\<lambda>(col, line). col * 128 + line"
  have "inj_on ?f (set (List.product [0..<bpr] [0..<128]))"
    by (auto simp: inj_on_def index_pair_eq_iff)
  moreover have "?f (col, line) < length band"
    using assms index_pair_less [of col bpr line 128] by simp
  ultimately show ?thesis
    using nth_store_loop [of "(col, line)" "List.product [0..<bpr] [0..<128]" ?f band] assms
    by (simp add: rows_to_band_loop)
qed

text \<open>Every position of either buffer is a pair of a line and a byte column.\<close>

lemma row_index_cases:
  fixes i bpr :: nat
  assumes "i < 128 * bpr"
  obtains line col where "line < 128" "col < bpr" "i = line * bpr + col"
  using assms that [of "i div bpr" "i mod bpr"]
  by (cases "bpr = 0") (auto simp: less_mult_imp_div_less)

lemma band_index_cases:
  fixes i bpr :: nat
  assumes "i < 128 * bpr"
  obtains col line where "line < 128" "col < bpr" "i = col * 128 + line"
  using assms that [of "i mod 128" "i div 128"]
  by (auto simp: less_mult_imp_div_less mult.commute)

lemma band_rows_band:
  assumes "length band = 128 * bpr" "length rows = 128 * bpr" "length band' = 128 * bpr"
  shows "m2022_qpdl_rows_to_band (m2022_qpdl_band_to_rows band bpr rows) bpr band' = band"
proof (rule list_eq_nthI)
  fix i
  assume "i < length band"
  then obtain col line where "line < 128" "col < bpr" "i = col * 128 + line"
    using assms(1) band_index_cases by metis
  then show "m2022_qpdl_rows_to_band (m2022_qpdl_band_to_rows band bpr rows) bpr band' ! i = band ! i"
    using assms by (simp add: nth_rows_to_band nth_band_to_rows)
qed (use assms in simp)

lemma rows_band_rows:
  assumes "length rows = 128 * bpr" "length band = 128 * bpr" "length rows' = 128 * bpr"
  shows "m2022_qpdl_band_to_rows (m2022_qpdl_rows_to_band rows bpr band) bpr rows' = rows"
proof (rule list_eq_nthI)
  fix i
  assume "i < length rows"
  then obtain line col where "line < 128" "col < bpr" "i = line * bpr + col"
    using assms(1) row_index_cases by metis
  then show "m2022_qpdl_band_to_rows (m2022_qpdl_rows_to_band rows bpr band) bpr rows' ! i = rows ! i"
    using assms by (simp add: nth_rows_to_band nth_band_to_rows)
qed (use assms in simp)

section \<open>Properties\<close>

text \<open>Turning a band into page rows and back gives the band, and turning page rows into a band and
  back gives the rows: both transpositions with their inversion are bijections on buffers of 128
  lines, whatever the destination buffer held.\<close>

theorem band_transposition_inverse:
  assumes "length band = 128 * bpr" "length rows = 128 * bpr"
    and "length any = 128 * bpr" "length any' = 128 * bpr"
  shows "m2022_qpdl_rows_to_band (m2022_qpdl_band_to_rows band bpr any) bpr any' = band
    \<and> m2022_qpdl_band_to_rows (m2022_qpdl_rows_to_band rows bpr any) bpr any' = rows"
  using band_rows_band [OF assms(1,3,4)] rows_band_rows [OF assms(2,3,4)] by simp

lemma band_transposition_inverse_witness:
  "m2022_qpdl_rows_to_band (m2022_qpdl_band_to_rows (replicate 128 5) 1 (replicate 128 0)) 1
     (replicate 128 7) = replicate 128 5"
  using band_transposition_inverse [of "replicate 128 5" 1 "replicate 128 5" "replicate 128 0"
      "replicate 128 7"] by simp

end
