(* ===== verification/Qpdl_Walk.thy ===== *)
theory Qpdl_Walk
  imports Qpdl_Records
begin

text \<open>
  Model of src/qpdl/walk.c. The visitor's callbacks are a trace: the walker returns the list of the
  callbacks it makes, in order, with their arguments, and its return code; an error carries the
  offset stored through \<open>error_offset\<close>. A record whose callback pointer is NULL is an event nobody
  listens to. The band callback gets a pointer to the payload; the event holds the bytes it may
  read, \<open>h.length\<close> of them.
\<close>

abbreviation (input) MAX_PJL_LINE :: nat where "MAX_PJL_LINE \<equiv> 4096"

datatype walk_event =
  PjlLine nat bytes
| PageEv nat page_header
| BandEv nat band_header bytes
| EndPageEv nat u16
| EndJobEv nat

type_synonym walk_result = "walk_event list \<times> (qpdl_error \<times> nat) option"

section \<open>Text lines\<close>

definition is_text_byte :: "u8 \<Rightarrow> bool" where
  "is_text_byte c \<longleftrightarrow> c = 13 \<or> c = 10 \<or> c = 9 \<or> c = 0x1B \<or> (0x20 \<le> c \<and> c < 0x7F)"

text \<open>The libc search \<open>memmem(hay, n) != NULL\<close>.\<close>

fun memmem :: "bytes \<Rightarrow> bytes \<Rightarrow> bool" where
  "memmem [] n = (n = [])"
| "memmem (x # xs) n = (take (length n) (x # xs) = n \<or> memmem xs n)"

text \<open>The inner loop: where the line ends, or \<open>None\<close> when it holds a byte that is not text.\<close>

function line_end :: "bytes \<Rightarrow> nat \<Rightarrow> nat \<Rightarrow> nat option" where
  "line_end data pos nl =
    (if nl < length data \<and> data ! nl \<noteq> 10 \<and> nl - pos < MAX_PJL_LINE
     then if \<not> is_text_byte (data ! nl) then None else line_end data pos (Suc nl)
     else Some nl)"
  by pat_completeness auto
termination
  by (relation "measure (\<lambda>(data, pos, nl). length data - nl)") auto

declare line_end.simps [simp del]

lemma line_end_ge: "line_end data pos nl = Some e \<Longrightarrow> nl \<le> e"
proof (induction data pos nl rule: line_end.induct)
  case (1 data pos nl)
  then show ?case
    by (subst (asm) line_end.simps [of data pos nl]) (auto split: if_splits)
qed

definition ENTER_LANGUAGE :: bytes where
  "ENTER_LANGUAGE = ascii ''ENTER LANGUAGE''"

text \<open>
  The outer loop: the lines, the new position and whether the language was entered. \<open>stop\<close> is
  \<open>saw_enter_language != NULL\<close>.
\<close>

definition line_text :: "bytes \<Rightarrow> nat \<Rightarrow> nat \<Rightarrow> bytes" where
  "line_text data pos nl =
    (let e = (if nl > pos \<and> data ! (nl - 1) = 13 then nl - 1 else nl)
     in part pos (e - pos) data)"

definition next_line :: "bytes \<Rightarrow> nat \<Rightarrow> nat" where
  "next_line data nl = (if nl < length data then nl + 1 else length data)"

function emit_lines :: "bytes \<Rightarrow> nat \<Rightarrow> bool \<Rightarrow> walk_event list \<times> nat \<times> bool" where
  "emit_lines data pos stop =
    (if pos < length data \<and> is_text_byte (data ! pos) then
       (case line_end data pos pos of
          None \<Rightarrow> ([], pos, False)
        | Some nl \<Rightarrow>
            (let line = line_text data pos nl
             in if stop \<and> length line \<ge> 19 \<and> memmem line ENTER_LANGUAGE
                then ([PjlLine pos line], next_line data nl, True)
                else let (evs, pos', entered) = emit_lines data (next_line data nl) stop
                     in (PjlLine pos line # evs, pos', entered)))
     else ([], pos, False))"
  by pat_completeness auto
termination
  by (relation "measure (\<lambda>(data, pos, stop). length data - pos)")
     (auto simp: next_line_def dest!: line_end_ge)

declare emit_lines.simps [simp del]

section \<open>Records\<close>

function walk_records :: "bytes \<Rightarrow> nat \<Rightarrow> walk_result" where
  "walk_records data pos =
    (if pos < length data then
       let t = data ! pos
       in if t = M2022_QPDL_REC_PAGE then
            (case m2022_qpdl_parse_page_header (drop pos data) of
               Inl e \<Rightarrow> ([], Some (e, pos))
             | Inr (n, h) \<Rightarrow>
                 let (evs, r) = walk_records data (pos + n) in (PageEv pos h # evs, r))
          else if t = M2022_QPDL_REC_BAND then
            (case m2022_qpdl_parse_band_header (drop pos data) of
               Inl e \<Rightarrow> ([], Some (e, pos))
             | Inr (n, h) \<Rightarrow>
                 if length data - pos - n < unat (bh_length h) then ([], Some (ETRUNCATED, pos))
                 else
                   let (evs, r) = walk_records data (pos + (n + unat (bh_length h)))
                   in (BandEv pos h (part (pos + n) (unat (bh_length h)) data) # evs, r))
          else if t = M2022_QPDL_REC_END_PAGE then
            (if length data - pos < M2022_QPDL_END_PAGE_LEN then ([], Some (ETRUNCATED, pos))
             else
               let (evs, r) = walk_records data (pos + M2022_QPDL_END_PAGE_LEN)
               in (EndPageEv pos (push_bit 8 (ucast (data ! (pos + 1))) OR ucast (data ! (pos + 2)))
                     # evs, r))
          else if t = M2022_QPDL_REC_END_JOB then
            (let pos1 = pos + 1;
                 (evs, pos2, _) =
                   (if length data - pos1 \<ge> M2022_QPDL_UEL_LEN
                       \<and> take M2022_QPDL_UEL_LEN (drop pos1 data) = M2022_QPDL_UEL
                    then emit_lines data pos1 False else ([], pos1, False))
             in (EndJobEv pos # evs, if pos2 \<noteq> length data then Some (ERECORD, pos2) else None))
          else ([], Some (ERECORD, pos))
     else ([], None))"
  by pat_completeness auto
termination
  by (relation "measure (\<lambda>(data, pos). length data - pos)")
     (auto simp: m2022_qpdl_parse_page_header_def m2022_qpdl_parse_band_header_def split: if_splits)

declare walk_records.simps [simp del]

definition m2022_qpdl_walk :: "bytes \<Rightarrow> walk_result" where
  "m2022_qpdl_walk data =
    (let (lines, pos, entered) = emit_lines data 0 True
     in if \<not> entered then (lines, Some (ENOPJL, pos))
        else let (evs, r) = walk_records data pos in (lines @ evs, r))"


section \<open>The events account for the bytes\<close>

text \<open>The bytes a record event stands for; a text line is not a record.\<close>

fun record_bytes :: "walk_event \<Rightarrow> bytes" where
  "record_bytes (PjlLine _ _) = []"
| "record_bytes (PageEv _ h) = m2022_qpdl_write_page_header h"
| "record_bytes (BandEv _ h payload) = m2022_qpdl_write_band_header h @ payload"
| "record_bytes (EndPageEv _ copies) = m2022_qpdl_write_end_page copies"
| "record_bytes (EndJobEv _) = [M2022_QPDL_REC_END_JOB]"

definition records_bytes :: "walk_event list \<Rightarrow> bytes" where
  "records_bytes evs = concat (map record_bytes evs)"

lemma records_bytes_simps [simp]:
  "records_bytes [] = []"
  "records_bytes (e # es) = record_bytes e @ records_bytes es"
  "records_bytes (es @ fs) = records_bytes es @ records_bytes fs"
  by (simp_all add: records_bytes_def)

text \<open>One step of the walker at each kind of record.\<close>

lemma walk_page:
  assumes "drop pos data = m2022_qpdl_write_page_header h @ rest"
  shows "walk_records data pos =
    (PageEv pos h # fst (walk_records data (pos + 17)), snd (walk_records data (pos + 17)))"
proof -
  have "length data - pos = 17 + length rest" using arg_cong [OF assms, of length] by simp
  then have "pos < length data" by simp
  moreover have "data ! pos = 0"
    using assms by (metis calculation Cons_nth_drop_Suc nth_Cons_0 nth_append
        nth_write_page_header_0 length_write_page_header zero_less_numeral)
  ultimately show ?thesis
    by (simp add: walk_records.simps [of data pos] assms parse_write_page_header split_beta)
qed

lemma walk_band:
  assumes "drop pos data = m2022_qpdl_write_band_header h @ payload @ rest"
    and "length payload = unat (bh_length h)"
  shows "walk_records data pos =
    (BandEv pos h payload # fst (walk_records data (pos + 11 + length payload)),
     snd (walk_records data (pos + 11 + length payload)))"
proof -
  have "length data - pos = 11 + length payload + length rest"
    using arg_cong [OF assms(1), of length] by simp
  moreover from this have inside: "pos < length data" by simp
  moreover have "data ! pos = 12"
    using assms by (metis inside Cons_nth_drop_Suc nth_Cons_0 nth_append
        nth_write_band_header_0 length_write_band_header zero_less_numeral)
  moreover have "part (pos + 11) (unat (bh_length h)) data = payload"
  proof -
    have "drop (pos + 11) data = drop 11 (drop pos data)" by (simp add: add.commute)
    also have "\<dots> = payload @ rest" unfolding assms(1) by simp
    finally show ?thesis using assms(2) by (simp add: part_def)
  qed
  ultimately show ?thesis
    using assms(2)
    by (simp add: walk_records.simps [of data pos] assms(1) parse_write_band_header split_beta
        add.assoc)
qed

lemma walk_end_page:
  assumes "drop pos data = m2022_qpdl_write_end_page copies @ rest"
  shows "walk_records data pos =
    (EndPageEv pos copies # fst (walk_records data (pos + 3)), snd (walk_records data (pos + 3)))"
proof -
  have len: "length data - pos = 3 + length rest"
    using arg_cong [OF assms, of length] by simp
  have nth: "data ! (pos + i) = (m2022_qpdl_write_end_page copies @ rest) ! i" if "i < 3" for i
    using len that by (simp flip: assms)
  from nth [of 0] nth [of 1] nth [of 2]
  have "data ! pos = 1" "data ! (pos + 1) = ucast (drop_bit 8 copies)" "data ! (pos + 2) = ucast copies"
    by (simp_all add: m2022_qpdl_write_end_page_def wr16be_def)
  then show ?thesis
    using len by (simp add: walk_records.simps [of data pos] split_beta)
qed

text \<open>Every record the walker reports is the bytes it read, in order, with nothing skipped.\<close>

lemma end_page_bytes:
  assumes "3 \<le> length p" "p ! 0 = 1"
  shows "take 3 p = m2022_qpdl_write_end_page (push_bit 8 (ucast (p ! 1)) OR ucast (p ! 2))"
proof -
  from assms obtain a b c r where p: "p = a # b # c # r"
    by (auto simp: numeral_eq_Suc length_ge_Suc_iff)
  then show ?thesis
    using assms(2) wr16be_rd16be [of b c "[]"]
    by (simp add: m2022_qpdl_write_end_page_def rd16be_def)
qed

lemma emit_lines_no_records: "records_bytes (fst (emit_lines data pos stop)) = []"
proof (induction data pos stop rule: emit_lines.induct)
  case (1 data pos stop)
  then show ?case
    by (subst emit_lines.simps) (auto simp: Let_def split_beta split: option.splits)
qed

lemma drop_take_split: "drop pos data = take n (drop pos data) @ drop (pos + n) data"
  by (metis add.commute append_take_drop_id drop_drop)

lemma walk_step_bytes:
  assumes "drop pos data = record_bytes e @ drop pos' data"
    and "\<exists>tail. drop pos' data = records_bytes evs @ tail \<and> Q tail"
  shows "\<exists>tail. drop pos data = records_bytes (e # evs) @ tail \<and> Q tail"
  using assms by auto

lemma walk_records_bytes:
  "walk_records data pos = (evs, r) \<Longrightarrow>
     \<exists>tail. drop pos data = records_bytes evs @ tail
       \<and> (r = None \<longrightarrow> tail = [] \<or> take 9 tail = M2022_QPDL_UEL)"
proof (induction data pos arbitrary: evs r rule: walk_records.induct)
  case (1 data pos)
  note unfold = walk_records.simps [of data pos]
  show ?case
  proof (cases "pos < length data")
    case False
    with "1.prems" show ?thesis by (auto simp: unfold)
  next
    case inside: True
    consider (page) "data ! pos = 0" | (band) "data ! pos = 12" | (end_page) "data ! pos = 1"
      | (end_job) "data ! pos = 9" | (unknown) "data ! pos \<notin> {0, 12, 1, 9}" by blast
    then show ?thesis
    proof cases
      case page
      show ?thesis
      proof (cases "m2022_qpdl_parse_page_header (drop pos data)")
        case (Inl e)
        with page inside "1.prems" show ?thesis by (auto simp: unfold)
      next
        case (Inr nh)
        obtain n h where nh: "nh = (n, h)" by force
        note parsed = Inr [unfolded nh]
        obtain evs' where rest: "walk_records data (pos + n) = (evs', r)" and evs: "evs = PageEv pos h # evs'"
          using "1.prems" page inside parsed by (auto simp: unfold split_beta prod_eq_iff)
        show ?thesis
          using "1.IH"(1) [OF inside refl page parsed refl rest]
            page_header_bytes [OF parsed] drop_take_split [of pos data n] evs by auto
      qed
    next
      case band
      show ?thesis
      proof (cases "m2022_qpdl_parse_band_header (drop pos data)")
        case (Inl e)
        with band inside "1.prems" show ?thesis by (auto simp: unfold)
      next
        case (Inr nh)
        obtain n h where nh: "nh = (n, h)" by force
        note parsed = Inr [unfolded nh]
        show ?thesis
        proof (cases "length data - pos - n < unat (bh_length h)")
          case True
          with "1.prems" band inside parsed show ?thesis by (auto simp: unfold)
        next
          case False
          obtain evs' where rest: "walk_records data (pos + (n + unat (bh_length h))) = (evs', r)"
            and evs: "evs = BandEv pos h (part (pos + n) (unat (bh_length h)) data) # evs'"
            using "1.prems" band inside parsed False by (auto simp: unfold split_beta prod_eq_iff)
          have "data ! pos \<noteq> 0" using band by simp
          have "drop pos data = record_bytes (BandEv pos h (part (pos + n) (unat (bh_length h)) data))
              @ drop (pos + (n + unat (bh_length h))) data"
            using band_header_bytes [OF parsed] drop_take_split [of pos data n]
              drop_take_split [of "pos + n" data "unat (bh_length h)"]
            by (simp add: part_def add.assoc)
          then show ?thesis
            unfolding evs
            by (rule walk_step_bytes)
               (rule "1.IH"(2) [OF inside refl \<open>data ! pos \<noteq> 0\<close> band parsed refl False rest])
        qed
      qed
    next
      case end_page
      show ?thesis
      proof (cases "length data - pos < 3")
        case True
        with "1.prems" end_page inside show ?thesis by (auto simp: unfold)
      next
        case False
        obtain evs' where rest: "walk_records data (pos + 3) = (evs', r)"
          and evs: "evs = EndPageEv pos
            (push_bit 8 (ucast (data ! (pos + 1))) OR ucast (data ! (pos + 2))) # evs'"
          using "1.prems" end_page inside False by (auto simp: unfold split_beta prod_eq_iff)
        have "data ! pos \<noteq> 0" "data ! pos \<noteq> 12" using end_page by simp_all
        then show ?thesis
          using "1.IH"(3) [OF inside refl _ _ end_page False rest]
            end_page_bytes [of "drop pos data"] drop_take_split [of pos data 3] end_page False evs
          by auto
      qed
    next
      case end_job
      have split: "drop pos data = 9 # drop (pos + 1) data"
        using inside end_job by (simp add: Cons_nth_drop_Suc [symmetric])
      show ?thesis
      proof (cases "9 \<le> length data - (pos + 1) \<and> take 9 (drop (pos + 1) data) = M2022_QPDL_UEL")
        case True
        obtain ls p entered where el: "emit_lines data (pos + 1) False = (ls, p, entered)"
          using prod_cases3 by blast
        have "records_bytes ls = []" using emit_lines_no_records [of data "pos + 1" False] el by simp
        with True "1.prems" end_job inside el split show ?thesis
          by (auto simp: unfold Let_def)
      next
        case False
        with "1.prems" end_job inside split show ?thesis
          by (auto simp: unfold Let_def split: if_splits)
      qed
    next
      case unknown
      with "1.prems" inside show ?thesis by (auto simp: unfold Let_def)
    qed
  qed
qed


section \<open>Reading a text line back\<close>

text \<open>A line the walker delivers whole: text without a line break, below the length limit.\<close>

definition line_ok :: "bytes \<Rightarrow> bool" where
  "line_ok l \<longleftrightarrow> (\<forall>b \<in> set l. is_text_byte b \<and> b \<noteq> 10 \<and> b \<noteq> 13) \<and> length l < 4095"

lemma line_end_text:
  "\<lbrakk>drop nl data = l @ rest; rest = [] \<or> hd rest = 10; \<forall>b \<in> set l. is_text_byte b \<and> b \<noteq> 10;
    pos \<le> nl; nl + length l - pos \<le> 4096; nl \<le> length data\<rbrakk>
   \<Longrightarrow> line_end data pos nl = Some (nl + length l)"
proof (induction l arbitrary: nl)
  case Nil
  show ?case
  proof (cases "nl < length data")
    case True
    then have "data ! nl = hd rest" using Nil.prems(1) by (simp add: hd_drop_conv_nth [symmetric])
    then show ?thesis using Nil.prems True
      by (auto simp: line_end.simps [of data pos nl])
  qed (auto simp: line_end.simps [of data pos nl])
next
  case (Cons b l)
  have inside: "nl < length data"
    using Cons.prems(1) by (cases "nl < length data") auto
  then have b: "data ! nl = b" "drop (Suc nl) data = l @ rest"
    using Cons.prems(1) by (auto simp: Cons_nth_drop_Suc [symmetric])
  have "nl - pos < 4096" using Cons.prems(4,5) by simp
  then have "line_end data pos nl = line_end data pos (Suc nl)"
    using inside b Cons.prems by (simp add: line_end.simps [of data pos nl])
  also have "\<dots> = Some (Suc nl + length l)"
    using b Cons.prems inside by (intro Cons.IH) auto
  finally show ?case by simp
qed

lemma line_text_eq:
  assumes "drop pos data = l @ rest" "l \<noteq> [] \<longrightarrow> last l \<noteq> 13"
  shows "line_text data pos (pos + length l) = l"
proof (cases "l = []")
  case True
  then show ?thesis by (simp add: line_text_def part_def)
next
  case False
  have "pos < length data" using assms(1) False by (cases "pos < length data") auto
  then have "data ! (pos + (length l - 1)) = last l"
    using assms False
    by (metis nth_drop less_imp_le last_conv_nth nth_append diff_less length_greater_0_conv zero_less_one)
  moreover have "pos + length l - 1 = pos + (length l - 1)" using False by (cases l) auto
  ultimately show ?thesis using assms False by (simp add: line_text_def part_def)
qed

lemma line_text_crlf:
  assumes "drop pos data = l @ 13 # rest"
  shows "line_text data pos (pos + length l + 1) = l"
proof -
  have "pos < length data" using assms by (cases "pos < length data") auto
  then have "data ! (pos + length l) = 13"
    by (metis assms nth_drop less_imp_le nth_append_length)
  with assms show ?thesis by (simp add: line_text_def part_def)
qed

lemma emit_line:
  assumes "drop pos data = l @ [13, 10] @ rest" "line_ok l"
  shows "emit_lines data pos stop =
    (if stop \<and> 19 \<le> length l \<and> memmem l ENTER_LANGUAGE
     then ([PjlLine pos l], pos + length l + 2, True)
     else case emit_lines data (pos + length l + 2) stop of
            (evs, pos', entered) \<Rightarrow> (PjlLine pos l # evs, pos', entered))"
proof -
  have inside: "length data - pos = length l + 2 + length rest"
    using arg_cong [OF assms(1), of length] by simp
  then have "drop pos data \<noteq> []" "pos < length data" using assms(1) by auto
  then have "data ! pos = hd (l @ [13, 10] @ rest)"
    using assms(1) hd_drop_conv_nth [of pos data] by simp
  then have start: "is_text_byte (data ! pos)"
    using assms(2) by (cases l) (auto simp: is_text_byte_def line_ok_def)
  have "line_end data pos pos = Some (pos + length (l @ [13]))"
  proof (rule line_end_text [of _ _ _ "10 # rest"])
    show "\<forall>b \<in> set (l @ [13]). is_text_byte b \<and> b \<noteq> 10"
      using assms(2) by (auto simp: line_ok_def is_text_byte_def [of 13])
    show "pos + length (l @ [13]) - pos \<le> 4096" using assms(2) by (simp add: line_ok_def)
  qed (use assms(1) \<open>pos < length data\<close> in simp_all)
  then have le: "line_end data pos pos = Some (pos + length l + 1)" by simp
  have lt: "line_text data pos (pos + length l + 1) = l"
    using line_text_crlf [of pos data l "10 # rest"] assms(1) by simp
  have nl: "next_line data (pos + length l + 1) = pos + length l + 2"
    using inside by (simp add: next_line_def)
  show ?thesis
    using start \<open>pos < length data\<close>
    by (simp add: emit_lines.simps [of data pos stop] le lt [simplified] nl [simplified] Let_def)
qed

text \<open>The last line of the data, with no line end: the end-of-job UEL.\<close>

lemma emit_last_line:
  assumes "drop pos data = l" "line_ok l" "l \<noteq> []"
  shows "emit_lines data pos False = ([PjlLine pos l], length data, False)"
proof -
  have "pos < length data" using assms by (cases "pos < length data") auto
  have last: "last l \<noteq> 13" using assms(2,3) last_in_set [of l] by (auto simp: line_ok_def)
  have "line_end data pos pos = Some (pos + length l)"
    using assms \<open>pos < length data\<close> by (intro line_end_text [of _ _ _ "[]"]) (auto simp: line_ok_def)
  moreover have len: "pos + length l = length data" using assms(1) \<open>pos < length data\<close> by auto
  moreover have "line_text data pos (length data) = l"
    using line_text_eq [of pos data l "[]"] assms(1) last len by simp
  moreover have "is_text_byte (data ! pos)"
    using assms \<open>pos < length data\<close> hd_drop_conv_nth [of pos data] hd_in_set [of l]
    by (auto simp: line_ok_def)
  ultimately show ?thesis
    using \<open>pos < length data\<close>
    by (simp add: emit_lines.simps [of data pos False] emit_lines.simps [of data "length data" False]
        next_line_def)
qed

lemma line_ok_UEL [simp]: "line_ok M2022_QPDL_UEL"
  by (simp add: line_ok_def M2022_QPDL_UEL_def is_text_byte_def ascii_def)

lemma walk_end_job:
  assumes "drop pos data = 9 # M2022_QPDL_UEL"
  shows "walk_records data pos = ([EndJobEv pos, PjlLine (pos + 1) M2022_QPDL_UEL], None)"
proof -
  have len: "length data - pos = 10" using arg_cong [OF assms, of length] by simp
  then have inside: "pos < length data" by simp
  have drop: "drop (pos + 1) data = M2022_QPDL_UEL"
    using assms inside by (simp add: Cons_nth_drop_Suc [symmetric])
  have "data ! pos = 9" using assms inside by (simp add: Cons_nth_drop_Suc [symmetric])
  moreover have "emit_lines data (pos + 1) False = ([PjlLine (pos + 1) M2022_QPDL_UEL], length data, False)"
    using drop line_ok_UEL by (intro emit_last_line) (auto simp: M2022_QPDL_UEL_def simp del: line_ok_UEL)
  ultimately show ?thesis
    using inside len drop by (simp add: walk_records.simps [of data pos] Let_def)
qed

section \<open>Properties\<close>

text \<open>The walker accounts for every byte: the records it reports, written out again, are exactly the
  bytes it consumed; it ends without an error only at the end of the data or before the closing
  escape sequence.\<close>

theorem walk_accounts_for_bytes:
  assumes "walk_records data pos = (evs, r)"
  shows "\<exists>tail. drop pos data = records_bytes evs @ tail
    \<and> (r = None \<longrightarrow> tail = [] \<or> take 9 tail = M2022_QPDL_UEL)"
  by (rule walk_records_bytes [OF assms])

lemma walk_accounts_for_bytes_witness:
  "\<exists>evs r tail. walk_records [1, 0, 1, 9] 0 = (evs, r) \<and> [1, 0, 1, 9] = records_bytes evs @ tail"
proof -
  obtain evs r where w: "walk_records [1, 0, 1, 9] 0 = (evs, r)" by force
  with walk_accounts_for_bytes [OF w] show ?thesis by auto
qed

end
