(* ===== verification/Codec11_Decode.thy ===== *)
theory Codec11_Decode
  imports Qpdl_Records
begin

text \<open>
  Model of \<open>m2022_codec11_decode\<close> (src/qpdl/codec11.c): the 0x11 band payload, its header, the
  raw prefix, the token stream and the checksum. The output buffer is the list of the bytes stored
  so far, so \<open>pos\<close> is its length; the result holds the return code, the output (whose length is
  what the function stores through \<open>out_len\<close>) and the statistics. NULL pointers are \<open>None\<close>.
\<close>

abbreviation (input) M2022_CODEC11_MAGIC :: u32 where "M2022_CODEC11_MAGIC \<equiv> 0x09ABCDEF"
abbreviation (input) M2022_CODEC11_TABLE_ENTRIES :: nat where "M2022_CODEC11_TABLE_ENTRIES \<equiv> 64"
abbreviation (input) M2022_CODEC11_HEADER_LEN :: nat where "M2022_CODEC11_HEADER_LEN \<equiv> 136"
abbreviation (input) M2022_CODEC11_MAX_RAW :: nat where "M2022_CODEC11_MAX_RAW \<equiv> 128"
abbreviation (input) M2022_CODEC11_MAX_LITERAL :: nat where "M2022_CODEC11_MAX_LITERAL \<equiv> 128"
abbreviation (input) M2022_CODEC11_MAX_MATCH :: nat where "M2022_CODEC11_MAX_MATCH \<equiv> 514"
abbreviation (input) M2022_CODEC11_CHECKSUM_LEN :: nat where "M2022_CODEC11_CHECKSUM_LEN \<equiv> 4"
abbreviation (input) M2022_CODEC11_MIN_RAW :: nat where "M2022_CODEC11_MIN_RAW \<equiv> 64"

section \<open>Integers in either byte order\<close>

definition rd32 :: "bytes \<Rightarrow> bool \<Rightarrow> u32" where
  "rd32 p le =
    (if le then push_bit 24 (ucast (p ! 3)) OR push_bit 16 (ucast (p ! 2))
                  OR push_bit 8 (ucast (p ! 1)) OR ucast (p ! 0)
     else push_bit 24 (ucast (p ! 0)) OR push_bit 16 (ucast (p ! 1))
            OR push_bit 8 (ucast (p ! 2)) OR ucast (p ! 3))"

definition rd16 :: "bytes \<Rightarrow> bool \<Rightarrow> u16" where
  "rd16 p le =
    (if le then push_bit 8 (ucast (p ! 1)) OR ucast (p ! 0)
     else push_bit 8 (ucast (p ! 0)) OR ucast (p ! 1))"

section \<open>Result\<close>

record codec11_info =
  little_endian :: bool
  raw_len :: u32
  ci_table :: "u16 list"
  checksum_stored :: u32
  checksum_computed :: u32
  stream_len :: nat
  literal_tokens :: nat
  match_tokens :: nat
  max_literal :: nat
  max_match :: nat
  max_index :: nat

text \<open>\<open>memset(info, 0, sizeof *info)\<close>.\<close>

definition info_zero :: codec11_info where
  "info_zero = \<lparr>little_endian = False, raw_len = 0,
     ci_table = replicate M2022_CODEC11_TABLE_ENTRIES 0, checksum_stored = 0,
     checksum_computed = 0, stream_len = 0, literal_tokens = 0, match_tokens = 0,
     max_literal = 0, max_match = 0, max_index = 0\<rparr>"

text \<open>Return code (\<open>None\<close> is \<open>M2022_QPDL_OK\<close>), the output stored, the statistics.\<close>

type_synonym decode_result = "qpdl_error option \<times> bytes \<times> codec11_info"

section \<open>The token loop\<close>

text \<open>The copy of a match, byte by byte: a distance below the length repeats what it just wrote.\<close>

fun copy_match :: "nat \<Rightarrow> nat \<Rightarrow> bytes \<Rightarrow> bytes" where
  "copy_match offset 0 out = out"
| "copy_match offset (Suc k) out = copy_match offset k (out @ [out ! (length out - offset)])"

text \<open>
  One iteration reads the first byte of the rest \<open>s\<close> of the stream. \<open>max\<close> updates are the two
  \<open>if\<close> statements of the C code.
\<close>

definition match_length :: "u8 \<Rightarrow> u8 \<Rightarrow> nat" where
  "match_length b1 b2 = unat (b1 AND 0x7F) + 2 * unat (b2 AND 0xC0) + 3"

definition match_index :: "u8 \<Rightarrow> nat" where
  "match_index b2 = unat (b2 AND 0x3F)"

definition note_match :: "nat \<Rightarrow> nat \<Rightarrow> codec11_info \<Rightarrow> codec11_info" where
  "note_match len index info =
     info\<lparr>match_tokens := match_tokens info + 1,
          max_match := (if len > max_match info then len else max_match info),
          max_index := (if index > max_index info then index else max_index info)\<rparr>"

definition note_literal :: "nat \<Rightarrow> codec11_info \<Rightarrow> codec11_info" where
  "note_literal count info =
     info\<lparr>literal_tokens := literal_tokens info + 1,
          max_literal := (if count > max_literal info then count else max_literal info)\<rparr>"

function decode_tokens :: "nat \<Rightarrow> bytes \<Rightarrow> bytes \<Rightarrow> codec11_info \<Rightarrow> decode_result" where
  "decode_tokens out_cap [] out info = (None, out, info)"
| "decode_tokens out_cap (b1 # s) out info =
    (if b1 AND 0x80 \<noteq> 0 then
       (case s of
          [] \<Rightarrow> (Some ETRUNCATED, out, info)
        | b2 # s' \<Rightarrow>
            (let len = match_length b1 b2;
                 index = match_index b2;
                 offset = unat (ci_table info ! index);
                 info' = note_match len index info
             in if offset = 0 \<or> offset > length out then (Some EOFFSET, out, info')
                else if out_cap - length out < len then (Some EOVERFLOW, out, info')
                else decode_tokens out_cap s' (copy_match offset len out) info'))
     else
       (let count = unat b1 + 1;
            info' = note_literal count info
        in if length s < count then (Some ETRUNCATED, out, info')
           else if out_cap - length out < count then (Some EOVERFLOW, out, info')
           else decode_tokens out_cap (drop count s) (out @ take count s) info'))"
  by pat_completeness auto
termination
  by (relation "measure (\<lambda>(cap, s, out, info). length s)") auto

declare decode_tokens.simps [simp del]

section \<open>The decoder\<close>

text \<open>The 32-bit sum of bytes, \<open>sum += payload[i]\<close> with wrap-around.\<close>

definition byte_sum :: "bytes \<Rightarrow> u32" where
  "byte_sum p = foldl (\<lambda>s b. s + ucast b) 0 p"

definition read_table :: "bytes \<Rightarrow> bool \<Rightarrow> u16 list" where
  "read_table payload le =
     map (\<lambda>i. rd16 (drop (8 + 2 * i) payload) le) [0..<M2022_CODEC11_TABLE_ENTRIES]"

text \<open>The body after the NULL and magic checks, for the byte order found.\<close>

definition decode_body :: "bytes \<Rightarrow> nat \<Rightarrow> codec11_info \<Rightarrow> decode_result" where
  "decode_body payload out_cap info0 =
    (let len = length payload;
         le = little_endian info0;
         raw = rd32 (drop 4 payload) le;
         info1 = info0\<lparr>raw_len := raw, ci_table := read_table payload le\<rparr>
     in if unat raw > M2022_CODEC11_MAX_RAW then (Some ERAWLEN, [], info1)
        else if len - M2022_CODEC11_CHECKSUM_LEN - M2022_CODEC11_HEADER_LEN < unat raw
        then (Some ETRUNCATED, [], info1)
        else
          let info2 = info1\<lparr>
                checksum_computed := byte_sum (take (len - M2022_CODEC11_CHECKSUM_LEN) payload),
                checksum_stored := rd32 (drop (len - M2022_CODEC11_CHECKSUM_LEN) payload) False\<rparr>
          in if unat raw > out_cap then (Some EOVERFLOW, [], info2)
             else
               let out = part M2022_CODEC11_HEADER_LEN (unat raw) payload;
                   first = M2022_CODEC11_HEADER_LEN + unat raw;
                   s = part first (len - M2022_CODEC11_CHECKSUM_LEN - first) payload;
                   info3 = info2\<lparr>stream_len := length s\<rparr>
               in case decode_tokens out_cap s out info3 of
                    (Some e, out', info') \<Rightarrow> (Some e, out', info')
                  | (None, out', info') \<Rightarrow>
                      (if checksum_computed info' = checksum_stored info' then None
                       else Some ECHECKSUM, out', info'))"

definition m2022_codec11_decode :: "bytes option \<Rightarrow> nat option \<Rightarrow> decode_result" where
  "m2022_codec11_decode payload_ptr out_ptr =
    (case (payload_ptr, out_ptr) of
       (Some payload, Some out_cap) \<Rightarrow>
         if length payload < M2022_CODEC11_HEADER_LEN + M2022_CODEC11_CHECKSUM_LEN
         then (Some ETRUNCATED, [], info_zero)
         else if rd32 payload True = M2022_CODEC11_MAGIC
         then decode_body payload out_cap (info_zero\<lparr>little_endian := True\<rparr>)
         else if rd32 payload False = M2022_CODEC11_MAGIC
         then decode_body payload out_cap (info_zero\<lparr>little_endian := False\<rparr>)
         else (Some EMAGIC, [], info_zero)
     | _ \<Rightarrow> (Some EINVAL, [], info_zero))"

section \<open>Safety of the token loop\<close>

lemma length_copy_match [simp]: "length (copy_match offset k out) = length out + k"
  by (induction offset k out rule: copy_match.induct) auto

lemma copy_match_extends: "\<exists>zs. copy_match offset k out = out @ zs"
proof (induction offset k out rule: copy_match.induct)
  case (1 offset out)
  then show ?case by simp
next
  case (2 offset k out)
  then show ?case by auto
qed

text \<open>
  Whatever the payload holds, the loop never stores more than \<open>out_cap\<close> bytes, and what it has
  stored is never changed by a later token.
\<close>

lemma decode_tokens_bound:
  "\<lbrakk>decode_tokens cap s out info = (rc, out', info'); length out \<le> cap\<rbrakk> \<Longrightarrow> length out' \<le> cap"
proof (induction cap s out info rule: decode_tokens.induct)
  case (1 out_cap out info)
  then show ?case by (simp add: decode_tokens.simps)
next
  case (2 out_cap b1 s out info)
  then show ?case
    by (fastforce simp: decode_tokens.simps(2) Let_def split: if_splits list.splits)
qed

lemma decode_tokens_extends:
  "decode_tokens cap s out info = (rc, out', info') \<Longrightarrow> \<exists>zs. out' = out @ zs"
proof (induction cap s out info rule: decode_tokens.induct)
  case (1 out_cap out info)
  then show ?case by (simp add: decode_tokens.simps)
next
  case (2 out_cap b1 s out info)
  define zs where "zs off k = drop (length out) (copy_match off k out)" for off k
  have zs: "copy_match off k out = out @ zs off k" for off k
    using copy_match_extends [of off k out] by (auto simp: zs_def)
  from 2 show ?case
    by (fastforce simp: decode_tokens.simps(2) Let_def zs split: if_splits list.splits)
qed

lemma decode_body_bound:
  assumes "decode_body payload cap i0 = (rc, out, info)" "140 \<le> length payload"
  shows "length out \<le> cap"
proof -
  define raw where "raw = unat (rd32 (drop 4 payload) (little_endian i0))"
  have "length (part 136 raw payload) = raw" if "\<not> length payload - 4 - 136 < raw"
    using that assms(2) by (intro length_part) simp
  then show ?thesis
    using assms(1)
    by (auto simp: decode_body_def Let_def raw_def [symmetric] split: if_splits option.splits prod.splits
        dest!: decode_tokens_bound)
qed

lemma decode_bound:
  "m2022_codec11_decode (Some payload) (Some cap) = (rc, out, info) \<Longrightarrow> length out \<le> cap"
  by (auto simp: m2022_codec11_decode_def decode_body_bound split: if_splits)

lemma note_sums [simp]:
  "checksum_computed (note_match l i info) = checksum_computed info"
  "checksum_stored (note_match l i info) = checksum_stored info"
  "checksum_computed (note_literal l info) = checksum_computed info"
  "checksum_stored (note_literal l info) = checksum_stored info"
  by (simp_all add: note_match_def note_literal_def)

lemma decode_tokens_keeps_sums:
  "decode_tokens cap s out info = (rc, out', info') \<Longrightarrow>
     checksum_computed info' = checksum_computed info \<and> checksum_stored info' = checksum_stored info"
proof (induction cap s out info rule: decode_tokens.induct)
  case (1 out_cap out info)
  then show ?case by (simp add: decode_tokens.simps)
next
  case (2 out_cap b1 s out info)
  then show ?case
    by (fastforce simp: decode_tokens.simps(2) Let_def split: if_splits list.splits)
qed

text \<open>A payload that decodes without error carries the sum of its own bytes.\<close>

lemma decode_body_checksum:
  "decode_body payload cap i0 = (None, out, info) \<Longrightarrow>
     rd32 (drop (length payload - 4) payload) False = byte_sum (take (length payload - 4) payload)"
  by (auto simp: decode_body_def Let_def split: if_splits option.splits prod.splits
      dest!: decode_tokens_keeps_sums)

lemma decode_checksum:
  "m2022_codec11_decode (Some payload) (Some cap) = (None, out, info) \<Longrightarrow>
     rd32 (drop (length payload - 4) payload) False = byte_sum (take (length payload - 4) payload)"
  by (auto simp: m2022_codec11_decode_def decode_body_checksum split: if_splits)


section \<open>Tokens, abstractly\<close>

text \<open>
  The format without its bytes: a token is a run of literal bytes or a match with a length and a
  table index; \<open>expand\<close> says what a token list stands for, given what precedes it. The bytes of a
  token and the decoder's loop refine this: decoding the bytes of well-formed tokens is their
  expansion (\<open>decode_tokens_refines\<close>).
\<close>

datatype token = Literals bytes | Match nat nat

fun wf_token :: "token \<Rightarrow> bool" where
  "wf_token (Literals bs) \<longleftrightarrow> 1 \<le> length bs \<and> length bs \<le> M2022_CODEC11_MAX_LITERAL"
| "wf_token (Match len index) \<longleftrightarrow>
     3 \<le> len \<and> len \<le> M2022_CODEC11_MAX_MATCH \<and> index < M2022_CODEC11_TABLE_ENTRIES"

fun token_bytes :: "token \<Rightarrow> bytes" where
  "token_bytes (Literals bs) = word_of_nat (length bs - 1) # bs"
| "token_bytes (Match len index) =
     [word_of_nat (0x80 OR ((len - 3) AND 0x7F)),
      word_of_nat (push_bit 6 (drop_bit 7 (len - 3)) OR index)]"

fun apply_token :: "u16 list \<Rightarrow> token \<Rightarrow> bytes \<Rightarrow> bytes option" where
  "apply_token table (Literals bs) out = Some (out @ bs)"
| "apply_token table (Match len index) out =
    (let offset = unat (table ! index)
     in if offset = 0 \<or> offset > length out then None else Some (copy_match offset len out))"

fun expand :: "u16 list \<Rightarrow> token list \<Rightarrow> bytes \<Rightarrow> bytes option" where
  "expand table [] out = Some out"
| "expand table (t # ts) out =
    (case apply_token table t out of None \<Rightarrow> None | Some out' \<Rightarrow> expand table ts out')"

fun note_token :: "token \<Rightarrow> codec11_info \<Rightarrow> codec11_info" where
  "note_token (Literals bs) info = note_literal (length bs) info"
| "note_token (Match len index) info = note_match len index info"

lemma expand_append:
  "expand table (ts @ us) out =
    (case expand table ts out of None \<Rightarrow> None | Some out' \<Rightarrow> expand table us out')"
  by (induction ts arbitrary: out) (auto split: option.splits)

lemma apply_token_length: "apply_token table t out = Some out' \<Longrightarrow> length out \<le> length out'"
  by (cases t) (auto simp: Let_def split: if_splits)

lemma expand_length: "expand table ts out = Some out' \<Longrightarrow> length out \<le> length out'"
proof (induction ts arbitrary: out)
  case Nil
  then show ?case by simp
next
  case (Cons t ts)
  then show ?case
    by (auto split: option.splits dest!: apply_token_length intro: order_trans)
qed

lemma note_token_fields [simp]:
  "little_endian (note_token t info) = little_endian info"
  "raw_len (note_token t info) = raw_len info"
  "ci_table (note_token t info) = ci_table info"
  "checksum_computed (note_token t info) = checksum_computed info"
  "checksum_stored (note_token t info) = checksum_stored info"
  by (cases t; simp add: note_literal_def note_match_def)+

text \<open>The two bytes of a match carry its length and index without loss.\<close>

lemma first_byte:
  assumes "l < 128"
  shows "(word_of_nat (128 + l) :: u8) AND 0x80 \<noteq> 0"
    and "unat ((word_of_nat (128 + l) :: u8) AND 0x7F) = l"
proof -
  have u: "unat (word_of_nat (128 + l) :: u8) = 128 + l"
    using assms by (intro unat_of_nat_u8) simp
  have "(128 + l) AND 128 = (128 + l) AND push_bit 7 1" by simp
  also have "\<dots> = push_bit 7 (drop_bit 7 (128 + l) AND 1)" by (rule and_shifted)
  also have "\<dots> = 128" using assms by (simp add: drop_bit_eq_div push_bit_eq_mult and_one_eq)
  finally have "unat ((word_of_nat (128 + l) :: u8) AND 0x80) = 128"
    by (simp only: unsigned_and_eq u) simp
  then show "(word_of_nat (128 + l) :: u8) AND 0x80 \<noteq> 0" by auto
  show "unat ((word_of_nat (128 + l) :: u8) AND 0x7F) = l"
    using assms by (simp only: unsigned_and_eq u) (simp add: and_127)
qed

lemma second_byte:
  assumes "h < 4" "i < 64"
  shows "unat ((word_of_nat (64 * h + i) :: u8) AND 0xC0) = 64 * h"
    and "unat ((word_of_nat (64 * h + i) :: u8) AND 0x3F) = i"
proof -
  have u: "unat (word_of_nat (64 * h + i) :: u8) = 64 * h + i"
    using assms by (intro unat_of_nat_u8) simp
  have "(64 * h + i) AND 192 = (64 * h + i) AND push_bit 6 3" by simp
  also have "\<dots> = push_bit 6 (drop_bit 6 (64 * h + i) AND 3)" by (rule and_shifted)
  also have "drop_bit 6 (64 * h + i) = h" using assms by (simp add: drop_bit_eq_div)
  also have "h AND 3 = h"
    using take_bit_eq_mask [of 2 h] assms by (simp add: take_bit_eq_mod mask_eq_exp_minus_1)
  finally show "unat ((word_of_nat (64 * h + i) :: u8) AND 0xC0) = 64 * h"
    by (simp only: unsigned_and_eq u) (simp add: push_bit_eq_mult)
  show "unat ((word_of_nat (64 * h + i) :: u8) AND 0x3F) = i"
    using assms by (simp only: unsigned_and_eq u) (simp add: and_63)
qed

lemma match_bytes:
  assumes "wf_token (Match len index)"
  shows "\<exists>b1 b2. token_bytes (Match len index) = [b1, b2] \<and> b1 AND 0x80 \<noteq> 0
    \<and> match_length b1 b2 = len \<and> match_index b2 = index"
proof -
  define l h where "l = (len - 3) mod 128" and "h = (len - 3) div 128"
  have len: "len = 128 * h + l + 3" and "l < 128" and "h < 4" and "index < 64"
    using assms by (auto simp: l_def h_def)
  have "(0x80 :: nat) OR ((len - 3) AND 0x7F) = 128 + l"
    using push_or_add [of l 7 1] \<open>l < 128\<close> by (simp add: and_127 l_def)
  moreover have "push_bit 6 (drop_bit 7 (len - 3)) OR index = 64 * h + index"
    using push_or_add [of index 6 h] \<open>index < 64\<close>
    by (simp add: drop_bit_eq_div h_def push_bit_eq_mult)
  ultimately have bytes: "token_bytes (Match len index) =
      [word_of_nat (128 + l), word_of_nat (64 * h + index)]"
    by simp
  show ?thesis
  proof (intro exI conjI)
    show "token_bytes (Match len index) =
      [word_of_nat (128 + l), word_of_nat (64 * h + index)]" by (rule bytes)
    show "(word_of_nat (128 + l) :: u8) AND 0x80 \<noteq> 0" by (rule first_byte) fact
    show "match_length (word_of_nat (128 + l)) (word_of_nat (64 * h + index)) = len"
      by (simp only: match_length_def first_byte [OF \<open>l < 128\<close>]
          second_byte [OF \<open>h < 4\<close> \<open>index < 64\<close>]) (simp add: len)
    show "match_index (word_of_nat (64 * h + index)) = index"
      by (simp only: match_index_def second_byte [OF \<open>h < 4\<close> \<open>index < 64\<close>])
  qed
qed

lemma literal_bytes:
  assumes "wf_token (Literals bs)"
  shows "\<exists>b1. token_bytes (Literals bs) = b1 # bs \<and> b1 AND 0x80 = 0 \<and> unat b1 + 1 = length bs"
proof -
  define k where "k = length bs - 1"
  have "length bs = k + 1" and "k < 128" using assms by (auto simp: k_def)
  have u: "unat (word_of_nat k :: u8) = k"
    using \<open>k < 128\<close> by (intro unat_of_nat_u8) simp
  have "k AND 128 = k AND push_bit 7 1" by simp
  also have "\<dots> = push_bit 7 (drop_bit 7 k AND 1)" by (rule and_shifted)
  also have "\<dots> = 0" using \<open>k < 128\<close> by (simp add: drop_bit_eq_div)
  finally have "unat ((word_of_nat k :: u8) AND 0x80) = 0"
    by (simp only: unsigned_and_eq u) simp
  then have "(word_of_nat k :: u8) AND 0x80 = 0" by (simp only: unat_eq_zero)
  with u \<open>length bs = k + 1\<close> show ?thesis by simp
qed

lemma decode_token:
  assumes "wf_token t" "apply_token (ci_table info) t out = Some out'" "length out' \<le> cap"
  shows "decode_tokens cap (token_bytes t @ s) out info = decode_tokens cap s out' (note_token t info)"
proof (cases t)
  case (Literals bs)
  with assms(1) obtain b1 where b1: "token_bytes t = b1 # bs" "b1 AND 0x80 = 0"
      "unat b1 + 1 = length bs"
    using literal_bytes by blast
  from assms Literals have "out' = out @ bs" by simp
  with assms b1 Literals show ?thesis by (auto simp: decode_tokens.simps(2) Let_def)
next
  case (Match len index)
  with assms(1) obtain b1 b2 where b: "token_bytes t = [b1, b2]" "b1 AND 0x80 \<noteq> 0"
      "match_length b1 b2 = len" "match_index b2 = index"
    using match_bytes by metis
  from assms Match have "out' = copy_match (unat (ci_table info ! index)) len out"
      and "unat (ci_table info ! index) \<noteq> 0" and "unat (ci_table info ! index) \<le> length out"
    by (auto simp: Let_def split: if_splits)
  with assms b Match show ?thesis
    by (auto simp: decode_tokens.simps(2) Let_def)
qed

text \<open>The refinement: decoding the bytes of well-formed tokens is their expansion.\<close>

lemma decode_tokens_refines:
  assumes "\<forall>t \<in> set ts. wf_token t" "expand (ci_table info) ts out = Some out'"
    "length out' \<le> cap"
  shows "decode_tokens cap (concat (map token_bytes ts)) out info
      = (None, out', fold note_token ts info)"
  using assms
proof (induction ts arbitrary: out info)
  case Nil
  then show ?case by (simp add: decode_tokens.simps)
next
  case (Cons t ts)
  then obtain o1 where o1: "apply_token (ci_table info) t out = Some o1"
      and rest: "expand (ci_table info) ts o1 = Some out'"
    by (auto split: option.splits)
  have "length o1 \<le> cap"
    using expand_length [OF rest] Cons.prems by simp
  with Cons o1 rest show ?case
    by (simp add: decode_token)
qed

lemma fold_note_token_fields [simp]:
  "little_endian (fold note_token ts info) = little_endian info"
  "raw_len (fold note_token ts info) = raw_len info"
  "ci_table (fold note_token ts info) = ci_table info"
  "checksum_computed (fold note_token ts info) = checksum_computed info"
  "checksum_stored (fold note_token ts info) = checksum_stored info"
  by (induction ts arbitrary: info) auto

section \<open>Properties\<close>

text \<open>C12: Whatever the payload holds, the decoder writes at most the given capacity: it never runs over
  the output buffer, on success or on error.\<close>

theorem decode_stays_in_buffer:
  "length (fst (snd (m2022_codec11_decode (Some payload) (Some cap)))) \<le> cap"
  by (cases "m2022_codec11_decode (Some payload) (Some cap)") (simp add: decode_bound)

end
