(* ===== verification/Codec11_Encode.thy ===== *)
theory Codec11_Encode
  imports Codec11_Decode
begin

text \<open>
  Model of the encoder half of src/qpdl/codec11.c: \<open>match_len\<close>, \<open>longest_match\<close>,
  \<open>m2022_codec11_encode_bound\<close>, the default table and \<open>m2022_codec11_encode\<close>. The output buffer is
  the list of bytes stored so far, so the C counter \<open>n\<close> is its length, and \<open>NEED(k)\<close> is the test
  \<open>out_cap - length out < k\<close>.
\<close>

section \<open>Matches\<close>

text \<open>\<open>while (n < max && p[n] == s[n]) n++;\<close> with \<open>p = band + pos\<close> and \<open>s = p - d\<close>.\<close>

function match_len_from :: "bytes \<Rightarrow> nat \<Rightarrow> nat \<Rightarrow> nat \<Rightarrow> nat \<Rightarrow> nat" where
  "match_len_from band pos d lim n =
    (if n < lim \<and> band ! (pos + n) = band ! (pos - d + n)
     then match_len_from band pos d lim (Suc n) else n)"
  by pat_completeness auto
termination
  by (relation "measure (\<lambda>(band, pos, d, lim, n). lim - n)") auto

declare match_len_from.simps [simp del]

definition match_len :: "bytes \<Rightarrow> nat \<Rightarrow> nat \<Rightarrow> nat \<Rightarrow> nat" where
  "match_len band pos d lim = match_len_from band pos d lim 0"

text \<open>The cheap rejection test: a candidate only wins if it matches where the best one stopped.\<close>

definition rejects :: "bytes \<Rightarrow> nat \<Rightarrow> nat \<Rightarrow> nat \<Rightarrow> bool" where
  "rejects band pos d best =
    (if best > 0 then band ! (pos - d + best) \<noteq> band ! (pos + best)
     else band ! (pos - d) \<noteq> band ! pos
          \<or> band ! (pos - d + 1) \<noteq> band ! (pos + 1)
          \<or> band ! (pos - d + 2) \<noteq> band ! (pos + 2))"

text \<open>The loop over the table slots; the state is the best length and its slot.\<close>

fun longest_match_loop ::
  "bytes \<Rightarrow> nat \<Rightarrow> nat \<Rightarrow> u16 list \<Rightarrow> nat list \<Rightarrow> nat \<times> nat \<Rightarrow> nat \<times> nat" where
  "longest_match_loop band pos lim table [] (best, index) = (best, index)"
| "longest_match_loop band pos lim table (i # is) (best, index) =
    (let d = unat (table ! i)
     in if d = 0 \<or> d > pos then longest_match_loop band pos lim table is (best, index)
        else if rejects band pos d best
        then longest_match_loop band pos lim table is (best, index)
        else
          let n = match_len band pos d lim
          in if n > best
             then (if n = lim then (n, i)
                   else longest_match_loop band pos lim table is (n, i))
             else longest_match_loop band pos lim table is (best, index))"

text \<open>The length of the match and the slot; the slot is the caller's variable, kept on no match.\<close>

definition longest_match :: "bytes \<Rightarrow> nat \<Rightarrow> u16 list \<Rightarrow> nat \<Rightarrow> nat \<times> nat" where
  "longest_match band pos table index =
    (let max0 = length band - pos;
         lim = (if max0 > M2022_CODEC11_MAX_MATCH then M2022_CODEC11_MAX_MATCH else max0)
     in if lim < 3 then (0, index)
        else
          let (best, index') =
                longest_match_loop band pos lim table [0..<M2022_CODEC11_TABLE_ENTRIES] (0, index)
          in (if best \<ge> 3 then best else 0, index'))"

section \<open>Bound and default table\<close>

definition m2022_codec11_encode_bound :: "nat \<Rightarrow> nat" where
  "m2022_codec11_encode_bound len =
     M2022_CODEC11_HEADER_LEN + len
     + (len + M2022_CODEC11_MAX_LITERAL - 1) div M2022_CODEC11_MAX_LITERAL
     + M2022_CODEC11_CHECKSUM_LEN"

definition m2022_codec11_default_table :: "u16 list" where
  "m2022_codec11_default_table =
    [1,    2,    3,    4,    5,    6,    7,    8,    9,    10,   11,   12,   13,   14,   15,   16,
     17,   18,   19,   20,   21,   22,   23,   24,   32,   40,   48,   56,   64,   126,  130,  136,
     127,  128,  129,  255,  256,  257,  383,  384,  385,  511,  512,  513,  639,  640,  641,  767,
     768,  769,  895,  896,  897,  1023, 1024, 1025, 1152, 1280, 1408, 1536, 1664, 1792, 1920, 2048]"

section \<open>The encoder\<close>

definition wr32le :: "u32 \<Rightarrow> bytes" where
  "wr32le v = [ucast v, ucast (drop_bit 8 v), ucast (drop_bit 16 v), ucast (drop_bit 24 v)]"

text \<open>\<open>while (raw < raw_max && longest_match(...) == 0) raw++;\<close> with the slot variable it leaves.\<close>

function raw_scan :: "bytes \<Rightarrow> u16 list \<Rightarrow> nat \<Rightarrow> nat \<Rightarrow> nat \<Rightarrow> nat \<times> nat" where
  "raw_scan band table raw_max raw index =
    (if raw < raw_max
     then let (m, index') = longest_match band raw table index
          in if m = 0 then raw_scan band table raw_max (Suc raw) index' else (raw, index')
     else (raw, index))"
  by pat_completeness auto
termination
  by (relation "measure (\<lambda>(band, table, raw_max, raw, index). raw_max - raw)") auto

declare raw_scan.simps [simp del]

definition encode_header :: "bytes \<Rightarrow> u16 list \<Rightarrow> nat \<Rightarrow> bytes" where
  "encode_header band table raw =
     wr32le M2022_CODEC11_MAGIC @ wr32le (word_of_nat raw)
     @ concat (map (\<lambda>i. [ucast (table ! i), ucast (drop_bit 8 (table ! i))])
         [0..<M2022_CODEC11_TABLE_ENTRIES])
     @ take raw band"

text \<open>Pending literals \<open>band[lit_start..stop)\<close>, cut into tokens; \<open>Inl n\<close> is an overflow at \<open>n\<close>.\<close>

function flush_literals :: "nat \<Rightarrow> bytes \<Rightarrow> nat \<Rightarrow> nat \<Rightarrow> bytes \<Rightarrow> nat + bytes" where
  "flush_literals out_cap band stop lit_start out =
    (if lit_start < stop then
       let count0 = stop - lit_start;
           count = (if count0 > M2022_CODEC11_MAX_LITERAL then M2022_CODEC11_MAX_LITERAL else count0)
       in if out_cap - length out < 1 + count then Inl (length out)
          else flush_literals out_cap band stop (lit_start + count)
                 (out @ [word_of_nat (count - 1)] @ part lit_start count band)
     else Inr out)"
  by pat_completeness auto
termination
  by (relation "measure (\<lambda>(cap, band, stop, lit_start, out). stop - lit_start)") auto

declare flush_literals.simps [simp del]

function encode_loop ::
  "nat \<Rightarrow> bytes \<Rightarrow> u16 list \<Rightarrow> nat \<Rightarrow> nat \<Rightarrow> nat \<Rightarrow> bytes \<Rightarrow> nat + bytes" where
  "encode_loop out_cap band table pos lit_start index out =
    (if pos < length band then
       let (m, index') = longest_match band pos table index
       in if m = 0 then encode_loop out_cap band table (Suc pos) lit_start index' out
          else case flush_literals out_cap band pos lit_start out of
                 Inl n \<Rightarrow> Inl n
               | Inr out1 \<Rightarrow>
                   if out_cap - length out1 < 2 then Inl (length out1)
                   else encode_loop out_cap band table (pos + m) (pos + m) index'
                          (out1 @ [word_of_nat (0x80 OR ((m - 3) AND 0x7F)),
                                   word_of_nat (push_bit 6 (drop_bit 7 (m - 3)) OR index')])
     else flush_literals out_cap band (length band) lit_start out)"
  by pat_completeness auto
termination
  by (relation "measure (\<lambda>(cap, band, table, pos, lit, index, out). length band - pos)") auto

declare encode_loop.simps [simp del]

text \<open>The error carries what the function stores through \<open>out_len\<close>.\<close>

definition m2022_codec11_encode ::
  "bytes option \<Rightarrow> u16 list option \<Rightarrow> nat option \<Rightarrow> (qpdl_error \<times> nat) + bytes" where
  "m2022_codec11_encode band_ptr table_ptr out_ptr =
    (case (band_ptr, table_ptr, out_ptr) of
       (Some band, Some table, Some out_cap) \<Rightarrow>
         (let len = length band;
              raw0 = (if len < M2022_CODEC11_MIN_RAW then len else M2022_CODEC11_MIN_RAW);
              raw_max = (if len < M2022_CODEC11_MAX_RAW then len else M2022_CODEC11_MAX_RAW);
              (raw, index) = raw_scan band table raw_max raw0 0
          in if out_cap < M2022_CODEC11_HEADER_LEN + raw then Inl (EOVERFLOW, 0)
             else
               case encode_loop out_cap band table raw raw index (encode_header band table raw) of
                 Inl n \<Rightarrow> Inl (EOVERFLOW, n)
               | Inr out \<Rightarrow>
                   let sum = byte_sum out
                   in if out_cap - length out < M2022_CODEC11_CHECKSUM_LEN
                      then Inl (EOVERFLOW, length out)
                      else Inr (out @ wr32be sum))
     | _ \<Rightarrow> Inl (EINVAL, 0))"

section \<open>What a match is\<close>

text \<open>Slot \<open>i\<close> gives a match of \<open>m\<close> bytes at \<open>pos\<close>.\<close>

definition slot_matches :: "bytes \<Rightarrow> nat \<Rightarrow> u16 list \<Rightarrow> nat \<Rightarrow> nat \<Rightarrow> bool" where
  "slot_matches band pos table i m \<longleftrightarrow>
     (let d = unat (table ! i)
      in 0 < d \<and> d \<le> pos \<and> (\<forall>k < m. band ! (pos + k) = band ! (pos - d + k)))"

lemma match_len_from_spec:
  "n \<le> lim \<Longrightarrow>
     n \<le> match_len_from band pos d lim n \<and> match_len_from band pos d lim n \<le> lim
   \<and> (\<forall>k. n \<le> k \<and> k < match_len_from band pos d lim n \<longrightarrow> band ! (pos + k) = band ! (pos - d + k))
   \<and> (match_len_from band pos d lim n < lim \<longrightarrow>
        band ! (pos + match_len_from band pos d lim n)
        \<noteq> band ! (pos - d + match_len_from band pos d lim n))"
proof (induction band pos d lim n rule: match_len_from.induct)
  case (1 band pos d lim n)
  show ?case
  proof (cases "n < lim \<and> band ! (pos + n) = band ! (pos - d + n)")
    case True
    then have step: "match_len_from band pos d lim n = match_len_from band pos d lim (Suc n)"
      by (simp add: match_len_from.simps [of band pos d lim n])
    from True 1 have IH: "Suc n \<le> match_len_from band pos d lim (Suc n)
      \<and> match_len_from band pos d lim (Suc n) \<le> lim
      \<and> (\<forall>k. Suc n \<le> k \<and> k < match_len_from band pos d lim (Suc n) \<longrightarrow>
            band ! (pos + k) = band ! (pos - d + k))
      \<and> (match_len_from band pos d lim (Suc n) < lim \<longrightarrow>
            band ! (pos + match_len_from band pos d lim (Suc n))
            \<noteq> band ! (pos - d + match_len_from band pos d lim (Suc n)))"
      by simp
    with True show ?thesis
      unfolding step by (metis Suc_leD Suc_leI le_neq_implies_less)
  next
    case False
    then have "match_len_from band pos d lim n = n"
      by (auto simp: match_len_from.simps [of band pos d lim n])
    with False 1 show ?thesis by auto
  qed
qed

lemma match_len_le: "match_len band pos d lim \<le> lim"
  using match_len_from_spec [of 0 lim band pos d] by (simp add: match_len_def)

lemma match_len_eq:
  "k < match_len band pos d lim \<Longrightarrow> band ! (pos + k) = band ! (pos - d + k)"
  using match_len_from_spec [of 0 lim band pos d] by (simp add: match_len_def)

lemma match_len_ge:
  assumes "\<forall>k < m. band ! (pos + k) = band ! (pos - d + k)" "m \<le> lim"
  shows "m \<le> match_len band pos d lim"
  using assms match_len_from_spec [of 0 lim band pos d]
  unfolding match_len_def by (metis le0 le_trans linorder_not_less not_le_imp_less)

lemma match_len_le_mismatch:
  "band ! (pos + k) \<noteq> band ! (pos - d + k) \<Longrightarrow> match_len band pos d lim \<le> k"
  using match_len_eq [of k band pos d lim] by (meson not_le)

section \<open>The longest match\<close>

text \<open>
  The loop returns the first slot with the greatest match length among the slots whose distance
  is usable, the cheap rejection test notwithstanding.
\<close>

definition slot_len :: "bytes \<Rightarrow> nat \<Rightarrow> nat \<Rightarrow> u16 list \<Rightarrow> nat \<Rightarrow> nat" where
  "slot_len band pos lim table i =
     (let d = unat (table ! i)
      in if d = 0 \<or> d > pos then 0
         else if match_len band pos d lim < 3 then 0 else match_len band pos d lim)"

definition best_so_far :: "bytes \<Rightarrow> nat \<Rightarrow> nat \<Rightarrow> u16 list \<Rightarrow> nat set \<Rightarrow> nat \<Rightarrow> nat \<Rightarrow> bool" where
  "best_so_far band pos lim table seen best index \<longleftrightarrow>
     (\<forall>j \<in> seen. slot_len band pos lim table j \<le> best)
     \<and> (best > 0 \<longrightarrow> index \<in> seen \<and> slot_len band pos lim table index = best
          \<and> (\<forall>j \<in> seen. j < index \<longrightarrow> slot_len band pos lim table j < best))"

lemma slot_len_le: "slot_len band pos lim table i \<le> lim"
  by (simp add: slot_len_def Let_def match_len_le)

lemma slot_len_not_small: "slot_len band pos lim table i = 0 \<or> 3 \<le> slot_len band pos lim table i"
  by (simp add: slot_len_def Let_def)

text \<open>A slot the loop skips or rejects would not have won.\<close>

lemma rejected_slot:
  assumes "rejects band pos d best"
    and "d = unat (table ! i)"
  shows "slot_len band pos lim table i \<le> best"
proof (cases "best > 0")
  case True
  with assms have "match_len band pos d lim \<le> best"
    by (intro match_len_le_mismatch) (simp add: rejects_def eq_commute)
  with assms(2) show ?thesis by (simp add: slot_len_def Let_def)
next
  case False
  have "\<exists>k < 3. band ! (pos + k) \<noteq> band ! (pos - d + k)"
  proof (rule ccontr)
    assume "\<not> (\<exists>k < 3. band ! (pos + k) \<noteq> band ! (pos - d + k))"
    then have same: "k < 3 \<Longrightarrow> band ! (pos + k) = band ! (pos - d + k)" for k by blast
    from same [of 0] same [of 1] same [of 2] assms(1) False show False by (auto simp: rejects_def)
  qed
  then obtain k where "k < 3" and "band ! (pos + k) \<noteq> band ! (pos - d + k)" by blast
  then have "match_len band pos d lim \<le> k" by (intro match_len_le_mismatch)
  with \<open>k < 3\<close> assms(2) show ?thesis by (simp add: slot_len_def Let_def)
qed

text \<open>The invariant of the loop, for slots tried in increasing order.\<close>

lemma longest_match_loop_best:
  assumes "best_so_far band pos lim table seen best index"
    and "sorted slots" "distinct slots" "\<forall>j \<in> seen. \<forall>i \<in> set slots. j < i"
    and "3 \<le> lim" "longest_match_loop band pos lim table slots (best, index) = (best', index')"
    and "best = 0 \<or> best < lim"
  shows "best_so_far band pos lim table (seen \<union> set slots) best' index'"
  using assms
proof (induction slots arbitrary: seen best index)
  case Nil
  then show ?case by simp
next
  case (Cons i slots)
  define d where "d = unat (table ! i)"
  have order: "sorted slots" "distinct slots" "\<forall>j \<in> insert i seen. \<forall>i' \<in> set slots. j < i'"
    using Cons.prems by (auto simp: order_less_le)
  have set_eq: "seen \<union> set (i # slots) = insert i seen \<union> set slots" by auto
  have keep: "?case" if le: "slot_len band pos lim table i \<le> best"
    and eq: "longest_match_loop band pos lim table slots (best, index) = (best', index')"
  proof -
    have "best_so_far band pos lim table (insert i seen) best index"
      using Cons.prems(1,4) le by (auto simp: best_so_far_def)
    then show ?thesis
      unfolding set_eq using order Cons.prems eq by (intro Cons.IH) auto
  qed
  have win: "best_so_far band pos lim table (insert i seen) n i"
    if "slot_len band pos lim table i = n" "n > best" for n
    using Cons.prems(1) that by (fastforce simp: best_so_far_def)
  have three: "3 \<le> match_len band pos d lim" if "\<not> rejects band pos d best" "match_len band pos d lim > best"
  proof (cases "best = 0")
    case True
    with that(1) have "\<forall>k < 3. band ! (pos + k) = band ! (pos - d + k)"
      by (auto simp: rejects_def numeral_3_eq_3 less_Suc_eq)
    then show ?thesis using \<open>3 \<le> lim\<close> by (rule match_len_ge)
  next
    case False
    with Cons.prems(1) have "best = slot_len band pos lim table index" and "best \<noteq> 0"
      by (auto simp: best_so_far_def)
    with that(2) show ?thesis using slot_len_not_small [of band pos lim table index] by simp
  qed
  consider (skip) "d = 0 \<or> d > pos" | (rej) "\<not> (d = 0 \<or> d > pos)" "rejects band pos d best"
    | (try_le) "\<not> (d = 0 \<or> d > pos)" "\<not> rejects band pos d best" "match_len band pos d lim \<le> best"
    | (stop) "\<not> (d = 0 \<or> d > pos)" "\<not> rejects band pos d best" "match_len band pos d lim > best"
        "match_len band pos d lim = lim"
    | (more) "\<not> (d = 0 \<or> d > pos)" "\<not> rejects band pos d best" "match_len band pos d lim > best"
        "match_len band pos d lim < lim"
    using match_len_le [of band pos d lim] by linarith
  then show ?case
  proof cases
    case skip
    then show ?thesis using Cons.prems by (intro keep) (auto simp: d_def slot_len_def)
  next
    case rej
    then show ?thesis
      using Cons.prems rejected_slot [of band pos d best table i lim]
      by (intro keep) (auto simp: d_def Let_def)
  next
    case try_le
    then show ?thesis
      using Cons.prems by (intro keep) (auto simp: d_def Let_def slot_len_def)
  next
    case stop
    have "slot_len band pos lim table i = lim"
      using stop \<open>3 \<le> lim\<close> by (simp add: d_def slot_len_def)
    moreover have "best' = lim" "index' = i"
      using stop Cons.prems by (auto simp: d_def Let_def)
    ultimately show ?thesis
      using Cons.prems(1) order win [of lim] stop slot_len_le [of band pos lim table]
      unfolding set_eq best_so_far_def by (auto simp: d_def)
  next
    case more
    define n where "n = match_len band pos d lim"
    have n: "slot_len band pos lim table i = n" "n > best" "n < lim"
      using more three by (auto simp: n_def d_def slot_len_def)
    have "longest_match_loop band pos lim table slots (n, i) = (best', index')"
      using more Cons.prems by (auto simp: n_def d_def Let_def)
    with win [OF n(1,2)] order n(3) Cons.prems show ?thesis
      unfolding set_eq by (intro Cons.IH [of "insert i seen" n i]) auto
  qed
qed

text \<open>
  The result of the whole search: either no slot gives three bytes and the length is 0, or the
  length is the greatest among the slots, the slot is the first that reaches it, and the bytes
  there do match.
\<close>

lemma longest_match_best:
  assumes "longest_match band pos table index = (m, index')"
    and lim: "lim = min (length band - pos) 514"
  shows "(lim < 3 \<and> m = 0) \<or> (3 \<le> lim \<and> best_so_far band pos lim table {0..<64} m index')"
proof (cases "lim < 3")
  case True
  with assms show ?thesis by (auto simp: longest_match_def Let_def min_def split: if_splits)
next
  case False
  obtain best where loop:
      "longest_match_loop band pos lim table [0..<64] (0, index) = (best, index')"
    and m: "m = (if best \<ge> 3 then best else 0)"
    using assms False
    by (auto simp: longest_match_def Let_def min_def split: if_splits prod.splits)
  have "best_so_far band pos lim table ({} \<union> set [0..<64]) best index'"
    by (rule longest_match_loop_best [OF _ _ _ _ _ loop])
       (use False in \<open>auto simp: best_so_far_def\<close>)
  then have best: "best_so_far band pos lim table {0..<64} best index'" by simp
  then have "best = 0 \<or> 3 \<le> best"
    using slot_len_not_small [of band pos lim table index'] by (auto simp: best_so_far_def)
  with m best False show ?thesis by auto
qed

lemma longest_match_found:
  assumes "longest_match band pos table index = (m, index')" "0 < m"
  shows "3 \<le> m \<and> m \<le> 514 \<and> pos + m \<le> length band \<and> index' < 64
    \<and> slot_matches band pos table index' m"
proof -
  define lim where "lim = min (length band - pos) 514"
  from longest_match_best [OF assms(1) lim_def] assms(2)
  have best: "slot_len band pos lim table index' = m" "index' < 64" "3 \<le> lim"
    by (auto simp: best_so_far_def)
  then have "3 \<le> m" and "m \<le> lim" and "m = match_len band pos (unat (table ! index')) lim"
    and "0 < unat (table ! index')" and "unat (table ! index') \<le> pos"
    using assms(2) slot_len_not_small [of band pos lim table index']
      slot_len_le [of band pos lim table index']
    by (auto simp: slot_len_def Let_def split: if_splits)
  moreover have "pos + m \<le> length band" "m \<le> 514"
    using \<open>m \<le> lim\<close> \<open>3 \<le> lim\<close> by (auto simp: lim_def)
  ultimately show ?thesis
    using best match_len_eq by (auto simp: slot_matches_def Let_def)
qed

text \<open>Greedy: no slot whose distance is usable gives a longer match, within the 514 bytes a token holds.\<close>

lemma longest_match_greatest:
  assumes "longest_match band pos table index = (m, index')"
    and "slot_matches band pos table i k" "i < 64" "3 \<le> k" "k \<le> 514" "pos + k \<le> length band"
  shows "k \<le> m"
proof -
  define lim where "lim = min (length band - pos) 514"
  have "k \<le> lim" using assms by (simp add: lim_def)
  then have "k \<le> match_len band pos (unat (table ! i)) lim"
    using assms(2) by (intro match_len_ge) (auto simp: slot_matches_def Let_def)
  then have "k \<le> slot_len band pos lim table i"
    using assms(2,4) by (auto simp: slot_len_def slot_matches_def Let_def)
  moreover have "slot_len band pos lim table i \<le> m"
    using longest_match_best [OF assms(1) lim_def] \<open>k \<le> lim\<close> assms(3,4)
    by (auto simp: best_so_far_def)
  ultimately show ?thesis by simp
qed

section \<open>The encoder emits tokens that expand to the band\<close>

lemma copy_match_band:
  assumes "0 < d" "d \<le> pos" "\<forall>k < m. band ! (pos + k) = band ! (pos - d + k)"
    and "pos + m \<le> length band"
  shows "copy_match d m (take pos band) = take (pos + m) band"
  using assms
proof (induction m arbitrary: pos)
  case 0
  then show ?case by simp
next
  case (Suc m)
  have "take pos band @ [take pos band ! (length (take pos band) - d)] = take (Suc pos) band"
    using Suc.prems by (auto simp: take_Suc_nth)
  moreover have "\<forall>k < m. band ! (Suc pos + k) = band ! (Suc pos - d + k)"
    using Suc.prems(2,3) by (metis Suc_diff_le Suc_mono add_Suc_right add_Suc_shift)
  ultimately show ?case
    using Suc.IH [of "Suc pos"] Suc.prems by simp
qed

text \<open>\<open>out'\<close> is \<open>out\<close> followed by tokens that turn the first \<open>a\<close> bytes of the band into \<open>b\<close> bytes.\<close>

definition emits :: "u16 list \<Rightarrow> bytes \<Rightarrow> nat \<Rightarrow> nat \<Rightarrow> bytes \<Rightarrow> bytes \<Rightarrow> bool" where
  "emits table band a b out out' \<longleftrightarrow>
     (\<exists>ts. out' = out @ concat (map token_bytes ts) \<and> (\<forall>t \<in> set ts. wf_token t)
         \<and> expand table ts (take a band) = Some (take b band))"

lemma emits_refl: "emits table band a a out out"
  unfolding emits_def by (rule exI [of _ "[]"]) simp

lemma emits_trans:
  assumes "emits table band a b out out1" "emits table band b c out1 out2"
  shows "emits table band a c out out2"
proof -
  from assms obtain ts us where
    "out1 = out @ concat (map token_bytes ts)" "\<forall>t \<in> set ts. wf_token t"
    "expand table ts (take a band) = Some (take b band)"
    "out2 = out1 @ concat (map token_bytes us)" "\<forall>t \<in> set us. wf_token t"
    "expand table us (take b band) = Some (take c band)"
    by (auto simp: emits_def)
  then show ?thesis
    unfolding emits_def by (intro exI [of _ "ts @ us"]) (auto simp: expand_append)
qed

lemma emits_literals:
  "\<lbrakk>0 < n; n \<le> 128; a + n \<le> length band\<rbrakk> \<Longrightarrow>
   emits table band a (a + n) out (out @ [word_of_nat (n - 1)] @ part a n band)"
  unfolding emits_def
  by (intro exI [of _ "[Literals (part a n band)]"]) (simp add: take_part)

lemma emits_match:
  assumes "slot_matches band pos table index m" "3 \<le> m" "m \<le> 514" "index < 64"
    and "pos + m \<le> length band"
  shows "emits table band pos (pos + m) out (out @ token_bytes (Match m index))"
proof -
  have "apply_token table (Match m index) (take pos band) = Some (take (pos + m) band)"
    using assms copy_match_band [of "unat (table ! index)" pos m band]
    by (auto simp: slot_matches_def Let_def)
  then show ?thesis
    unfolding emits_def using assms by (intro exI [of _ "[Match m index]"]) simp
qed

lemma flush_literals_emits:
  "\<lbrakk>flush_literals cap band stop lit out = Inr out'; lit \<le> stop; stop \<le> length band\<rbrakk>
   \<Longrightarrow> emits table band lit stop out out'"
proof (induction cap band stop lit out rule: flush_literals.induct)
  case (1 cap band stop lit out)
  show ?case
  proof (cases "lit < stop")
    case False
    with "1.prems" show ?thesis
      by (simp add: flush_literals.simps [of cap band stop lit out] emits_refl)
  next
    case True
    define n where "n = (if stop - lit > 128 then 128 else stop - lit)"
    have n: "0 < n" "n \<le> 128" "lit + n \<le> stop" using True by (auto simp: n_def)
    from "1.prems" True have fits: "\<not> cap - length out < 1 + n"
      and rest: "flush_literals cap band stop (lit + n)
        (out @ [word_of_nat (n - 1)] @ part lit n band) = Inr out'"
      by (auto simp: flush_literals.simps [of cap band stop lit out] n_def Let_def split: if_splits)
    have "emits table band (lit + n) stop (out @ [word_of_nat (n - 1)] @ part lit n band) out'"
      using "1.IH" [OF True refl refl, folded n_def, OF fits] rest n "1.prems"(3) by simp
    moreover have "emits table band lit (lit + n) out (out @ [word_of_nat (n - 1)] @ part lit n band)"
      using n "1.prems"(3) by (intro emits_literals) auto
    ultimately show ?thesis by (blast intro: emits_trans)
  qed
qed

lemma encode_loop_emits:
  "\<lbrakk>encode_loop cap band table pos lit index out = Inr out'; lit \<le> pos; pos \<le> length band\<rbrakk>
   \<Longrightarrow> emits table band lit (length band) out out'"
proof (induction cap band table pos lit index out rule: encode_loop.induct)
  case (1 cap band table pos lit index out)
  obtain m index' where lm: "longest_match band pos table index = (m, index')" by force
  note unfold = encode_loop.simps [of cap band table pos lit index out]
  show ?case
  proof (cases "pos < length band")
    case False
    with "1.prems" show ?thesis by (simp add: unfold flush_literals_emits)
  next
    case inside: True
    show ?thesis
    proof (cases "m = 0")
      case True
      with "1.prems" inside lm have "encode_loop cap band table (Suc pos) lit index' out = Inr out'"
        by (simp add: unfold)
      with "1.IH"(1) [OF inside lm [symmetric] refl True] "1.prems" inside show ?thesis by simp
    next
      case False
      with "1.prems" inside lm obtain out1 where
          flush: "flush_literals cap band pos lit out = Inr out1"
        and fits: "\<not> cap - length out1 < 2"
        and rest: "encode_loop cap band table (pos + m) (pos + m) index'
          (out1 @ token_bytes (Match m index')) = Inr out'"
        by (auto simp: unfold split: sum.splits if_splits)
      note found = longest_match_found [OF lm]
      have "emits table band (pos + m) (length band) (out1 @ token_bytes (Match m index')) out'"
        using "1.IH"(2) [OF inside lm [symmetric] refl False flush fits] rest found False by simp
      moreover have "emits table band pos (pos + m) out1 (out1 @ token_bytes (Match m index'))"
        using found False by (intro emits_match) auto
      moreover have "emits table band lit pos out out1"
        using flush_literals_emits [OF flush] "1.prems" by simp
      ultimately show ?thesis by (blast intro: emits_trans)
    qed
  qed
qed

section \<open>The payload the encoder writes\<close>

lemma raw_scan_bounds:
  "\<lbrakk>raw_scan band table raw_max raw index = (raw', index'); raw \<le> raw_max\<rbrakk>
   \<Longrightarrow> raw \<le> raw' \<and> raw' \<le> raw_max"
proof (induction band table raw_max raw index rule: raw_scan.induct)
  case (1 band table raw_max raw index)
  show ?case
  proof (cases "raw < raw_max \<and> fst (longest_match band raw table index) = 0")
    case True
    with "1.prems" have
      "raw_scan band table raw_max (Suc raw) (snd (longest_match band raw table index)) = (raw', index')"
      by (simp add: raw_scan.simps [of band table raw_max raw index] split_beta)
    with "1.IH" [OF _ _ prod.collapse] True show ?thesis by (auto simp: prod_eq_iff)
  next
    case False
    with "1.prems" show ?thesis
      by (auto simp: raw_scan.simps [of band table raw_max raw index] split_beta split: if_splits)
  qed
qed

definition table_bytes :: "u16 list \<Rightarrow> bytes" where
  "table_bytes table =
     concat (map (\<lambda>i. [ucast (table ! i), ucast (drop_bit 8 (table ! i))]) [0..<64])"

lemma length_table_bytes [simp]: "length (table_bytes table) = 128"
  by (simp add: table_bytes_def length_concat comp_def sum_list_triv)

lemma length_wr32le [simp]: "length (wr32le v) = 4"
  by (simp add: wr32le_def)

lemma length_encode_header [simp]:
  "raw \<le> length band \<Longrightarrow> length (encode_header band table raw) = 136 + raw"
  by (simp add: encode_header_def flip: table_bytes_def)

text \<open>What a payload is: header, raw prefix, tokens, checksum.\<close>

definition payload_of :: "bytes \<Rightarrow> u16 list \<Rightarrow> nat \<Rightarrow> token list \<Rightarrow> bytes" where
  "payload_of band table raw ts =
     (let body = encode_header band table raw @ concat (map token_bytes ts)
      in body @ wr32be (byte_sum body))"

lemma encode_payload:
  assumes "m2022_codec11_encode (Some band) (Some table) (Some cap) = Inr payload"
  obtains raw ts where "raw \<le> 128" "raw \<le> length band" "payload = payload_of band table raw ts"
    "\<forall>t \<in> set ts. wf_token t" "expand table ts (take raw band) = Some band"
proof -
  define raw0 raw_max where
    "raw0 = (if length band < 64 then length band else 64)"
    and "raw_max = (if length band < 128 then length band else 128)"
  obtain raw index where scan: "raw_scan band table raw_max raw0 0 = (raw, index)" by force
  then have raw: "raw \<le> raw_max" using raw_scan_bounds [OF scan] by (simp add: raw0_def raw_max_def)
  then have le: "raw \<le> 128" "raw \<le> length band" by (auto simp: raw_max_def split: if_splits)
  from assms scan obtain out where
      loop: "encode_loop cap band table raw raw index (encode_header band table raw) = Inr out"
    and payload: "payload = out @ wr32be (byte_sum out)"
    by (auto simp: m2022_codec11_encode_def Let_def raw0_def [symmetric] raw_max_def [symmetric]
        split: if_splits sum.splits)
  have "emits table band raw (length band) (encode_header band table raw) out"
    using encode_loop_emits [OF loop] le by simp
  then show ?thesis
    using that [OF le] payload by (auto simp: emits_def payload_of_def Let_def)
qed

section \<open>Decoding it gives the band back\<close>

lemma rd32_wr32le [codec_simps]: "rd32 (wr32le v @ rest) True = v"
  by (simp add: rd32_def wr32le_def)

lemma rd32_wr32be [codec_simps]: "rd32 (wr32be v) False = v"
  by (simp add: rd32_def wr32be_def)

lemma rd16_le_pair: "rd16 (ucast v # ucast (drop_bit 8 v) # rest) True = v"
  by (simp add: rd16_def)

lemma drop_concat_pairs:
  assumes "\<And>i. length (f i) = k" "i \<le> n"
  shows "drop (k * i) (concat (map f [0..<n])) = concat (map f [i..<n])"
proof -
  have "[0..<n] = [0..<i] @ [i..<n]" using assms(2) by (metis le0 upt_add_eq_append le_add_diff_inverse)
  moreover have "length (concat (map f [0..<i])) = k * i"
    using assms(1) by (simp add: length_concat comp_def sum_list_triv)
  ultimately show ?thesis by simp
qed

lemma read_table_bytes:
  assumes "length pre = 8" "length table = 64"
  shows "read_table (pre @ table_bytes table @ rest) True = table"
proof -
  have entry: "rd16 (drop (8 + 2 * i) (pre @ table_bytes table @ rest)) True = table ! i"
    if "i < 64" for i
  proof -
    have "drop (2 * i) (table_bytes table) =
        concat (map (\<lambda>i. [ucast (table ! i), ucast (drop_bit 8 (table ! i))]) [i..<64])"
      unfolding table_bytes_def using that by (intro drop_concat_pairs) auto
    also have "\<dots> = ucast (table ! i) # ucast (drop_bit 8 (table ! i)) #
        concat (map (\<lambda>i. [ucast (table ! i), ucast (drop_bit 8 (table ! i))]) [Suc i..<64])"
      using that by (simp add: upt_conv_Cons)
    finally show ?thesis
      using that assms(1) by (simp add: rd16_le_pair)
  qed
  show ?thesis
    unfolding read_table_def by (rule list_eq_nthI) (use assms entry in auto)
qed

lemma decode_payload_of:
  assumes "length table = 64" "raw \<le> 128" "raw \<le> length band"
    and "\<forall>t \<in> set ts. wf_token t" "expand table ts (take raw band) = Some band"
    and "length band \<le> out_cap"
  shows "\<exists>info. m2022_codec11_decode (Some (payload_of band table raw ts)) (Some out_cap)
      = (None, band, info)
    \<and> little_endian info \<and> unat (raw_len info) = raw \<and> ci_table info = table
    \<and> checksum_stored info = checksum_computed info"
proof -
  define toks where "toks = concat (map token_bytes ts)"
  define body where "body = encode_header band table raw @ toks"
  define p where "p = payload_of band table raw ts"
  have body: "body = wr32le 0x09ABCDEF @ wr32le (word_of_nat raw) @ table_bytes table
      @ take raw band @ toks"
    by (simp add: body_def encode_header_def table_bytes_def)
  have p: "p = body @ wr32be (byte_sum body)"
    by (simp add: p_def payload_of_def Let_def body_def toks_def)
  have len_body: "length body = 136 + raw + length toks"
    using assms(3) by (simp add: body)
  have raw32: "unat (word_of_nat raw :: u32) = raw"
    using assms(2) by (simp add: unat_of_nat take_bit_eq_mod)
  have magic: "rd32 p True = 0x09ABCDEF"
    by (simp add: p body codec_simps)
  have raw: "rd32 (drop 4 p) True = word_of_nat raw"
    by (simp add: p body codec_simps)
  have table: "read_table p True = table"
    using read_table_bytes [of "wr32le 0x09ABCDEF @ wr32le (word_of_nat raw)" table] assms(1)
    by (simp add: p body)
  have out: "part 136 raw p = take raw band" and stream: "part (136 + raw) (length toks) p = toks"
    using assms(3) by (simp_all add: part_def p body)
  have sum: "rd32 (drop (length body) p) False = byte_sum body" and pre: "take (length body) p = body"
    by (simp_all add: p codec_simps)
  define info where "info = info_zero\<lparr>little_endian := True, raw_len := word_of_nat raw,
      ci_table := table, checksum_computed := byte_sum body, checksum_stored := byte_sum body,
      stream_len := length toks\<rparr>"
  have tokens: "decode_tokens out_cap toks (take raw band) info = (None, band, fold note_token ts info)"
    unfolding toks_def using assms by (intro decode_tokens_refines) (auto simp: info_def)
  have raw_cap: "raw \<le> out_cap" using assms by simp
  have "length p = length body + 4" by (simp add: p)
  then have "m2022_codec11_decode (Some p) (Some out_cap) = (None, band, fold note_token ts info)"
    using magic raw table out stream sum pre tokens raw_cap assms(2) raw32 len_body
    by (simp add: add.assoc m2022_codec11_decode_def decode_body_def Let_def info_def)
  then show ?thesis
    using raw32 by (auto simp: p_def info_def)
qed

section \<open>The encoder fits its bound\<close>

text \<open>What \<open>k\<close> pending literals cost: themselves and a count byte per 128.\<close>

definition literal_cost :: "nat \<Rightarrow> nat" where
  "literal_cost k = k + (k + 127) div 128"

lemma literal_cost_split:
  assumes "0 < k"
  shows "literal_cost k = 1 + (if k > 128 then 128 else k) + literal_cost (k - (if k > 128 then 128 else k))"
proof (cases "k > 128")
  case True
  then obtain j where "k = 128 + j" using less_imp_add_positive by blast
  then show ?thesis using True by (simp add: literal_cost_def)
next
  case False
  then have "(k + 127) div 128 = 1" using assms by (intro div_nat_eqI) auto
  then show ?thesis using False by (simp add: literal_cost_def)
qed

lemma flush_literals_fits:
  "\<lbrakk>lit \<le> stop; stop \<le> length band; length out + literal_cost (stop - lit) \<le> cap\<rbrakk> \<Longrightarrow>
   \<exists>out'. flush_literals cap band stop lit out = Inr out'
     \<and> length out' = length out + literal_cost (stop - lit)"
proof (induction cap band stop lit out rule: flush_literals.induct)
  case (1 cap band stop lit out)
  show ?case
  proof (cases "lit < stop")
    case False
    with "1.prems" show ?thesis
      by (subst flush_literals.simps) (simp add: literal_cost_def)
  next
    case True
    define n where "n = (if stop - lit > 128 then 128 else stop - lit)"
    have n: "0 < n" "lit + n \<le> stop" using True by (auto simp: n_def)
    have cost: "literal_cost (stop - lit) = 1 + n + literal_cost (stop - (lit + n))"
      using literal_cost_split [of "stop - lit"] True by (simp only: n_def diff_diff_left zero_less_diff)
    define out1 where "out1 = out @ [word_of_nat (n - 1)] @ part lit n band"
    have len1: "length out1 = length out + 1 + n"
      using n "1.prems"(2) by (simp add: out1_def)
    have fits: "\<not> cap - length out < 1 + n" using "1.prems"(3) cost by linarith
    then have step: "flush_literals cap band stop lit out
        = flush_literals cap band stop (lit + n) out1"
      using True by (subst flush_literals.simps) (simp add: n_def out1_def Let_def)
    have "\<exists>out'. flush_literals cap band stop (lit + n) out1 = Inr out'
        \<and> length out' = length out1 + literal_cost (stop - (lit + n))"
      using "1.IH" [OF True refl refl, folded n_def, OF fits, folded out1_def] n "1.prems" len1 cost
      by simp
    with step cost len1 show ?thesis by (auto simp: add.assoc)
  qed
qed

text \<open>The output so far is at most the header, the bytes covered and one byte per 128 of them.\<close>

definition within_bound :: "nat \<Rightarrow> nat \<Rightarrow> bool" where
  "within_bound n lit \<longleftrightarrow> n \<le> 136 + lit + lit div 128"

lemma within_bound_match:
  assumes "within_bound n lit" "lit \<le> pos" "3 \<le> m"
  shows "within_bound (n + literal_cost (pos - lit) + 2) (pos + m)"
proof -
  define k where "k = pos - lit"
  have "(k + 127) div 128 \<le> (k + m + 128) div 128" by (rule div_le_mono) simp
  then have "(k + 127) div 128 \<le> 1 + (k + m) div 128" by simp
  moreover have "lit div 128 + (k + m) div 128 \<le> (lit + (k + m)) div 128"
    by (rule div_add_le)
  moreover have "pos + m = lit + (k + m)" using assms(2) by (simp add: k_def)
  ultimately show ?thesis
    using assms by (simp add: within_bound_def literal_cost_def flip: k_def)
qed

lemma within_bound_literals:
  assumes "within_bound n lit" "lit \<le> len"
  shows "n + literal_cost (len - lit) \<le> 136 + len + (len + 127) div 128"
proof -
  have "lit div 128 + (len - lit + 127) div 128 \<le> (lit + (len - lit + 127)) div 128"
    by (rule div_add_le)
  then show ?thesis using assms by (simp add: within_bound_def literal_cost_def)
qed

lemma encode_loop_fits:
  "\<lbrakk>within_bound (length out) lit; lit \<le> pos; pos \<le> length band;
    136 + length band + (length band + 127) div 128 \<le> cap\<rbrakk> \<Longrightarrow>
   \<exists>out'. encode_loop cap band table pos lit index out = Inr out'
     \<and> length out' \<le> 136 + length band + (length band + 127) div 128"
proof (induction cap band table pos lit index out rule: encode_loop.induct)
  case (1 cap band table pos lit index out)
  obtain m index' where lm: "longest_match band pos table index = (m, index')" by force
  note unfold = encode_loop.simps [of cap band table pos lit index out]
  have total: "length out + literal_cost (length band - lit) \<le> cap"
    using within_bound_literals [OF "1.prems"(1), of "length band"] "1.prems" by simp
  show ?case
  proof (cases "pos < length band")
    case False
    then have "encode_loop cap band table pos lit index out =
        flush_literals cap band (length band) lit out" by (simp add: unfold)
    with flush_literals_fits [OF _ _ total] within_bound_literals [OF "1.prems"(1), of "length band"]
      "1.prems"
    show ?thesis by fastforce
  next
    case inside: True
    show ?thesis
    proof (cases "m = 0")
      case True
      with "1.IH"(1) [OF inside lm [symmetric] refl True] "1.prems" inside lm
      show ?thesis by (simp add: unfold)
    next
      case False
      note found = longest_match_found [OF lm]
      have m: "3 \<le> m" "pos + m \<le> length band" using found False by auto
      define cost where "cost = literal_cost (pos - lit)"
      have bound: "within_bound (length out + cost + 2) (pos + m)"
        using within_bound_match "1.prems" m by (simp add: cost_def)
      have room: "length out + cost + 2 \<le> cap"
        using within_bound_literals [OF bound m(2)] "1.prems"(4) by simp
      then obtain out1 where flush: "flush_literals cap band pos lit out = Inr out1"
          and len1: "length out1 = length out + cost"
        using flush_literals_fits [of lit pos band out cap] "1.prems" inside
        by (auto simp: cost_def)
      have fits: "\<not> cap - length out1 < 2" using room len1 by simp
      show ?thesis
        using "1.IH"(2) [OF inside lm [symmetric] refl False flush fits] bound len1 m "1.prems"
          inside lm False flush fits
        by (simp add: unfold)
    qed
  qed
qed

lemma encode_fits:
  assumes "m2022_codec11_encode_bound (length band) \<le> cap"
  shows "\<exists>payload. m2022_codec11_encode (Some band) (Some table) (Some cap) = Inr payload
    \<and> length payload \<le> m2022_codec11_encode_bound (length band)"
proof -
  define raw0 raw_max where
    "raw0 = (if length band < 64 then length band else 64)"
    and "raw_max = (if length band < 128 then length band else 128)"
  obtain raw index where scan: "raw_scan band table raw_max raw0 0 = (raw, index)" by force
  have "raw0 \<le> raw_max" by (simp add: raw0_def raw_max_def)
  then have raw: "raw \<le> length band"
    using raw_scan_bounds [OF scan] by (auto simp: raw_max_def split: if_splits)
  have cap: "136 + length band + (length band + 127) div 128 + 4 \<le> cap"
    using assms by (simp add: m2022_codec11_encode_bound_def)
  have "within_bound (length (encode_header band table raw)) raw"
    using raw by (simp add: within_bound_def)
  then obtain out where
      "encode_loop cap band table raw raw index (encode_header band table raw) = Inr out"
    and "length out \<le> 136 + length band + (length band + 127) div 128"
    using encode_loop_fits [of "encode_header band table raw" raw raw band cap table index] raw cap
    by auto
  with scan raw cap show ?thesis
    by (auto simp: m2022_codec11_encode_def Let_def raw0_def [symmetric] raw_max_def [symmetric]
        m2022_codec11_encode_bound_def)
qed

text \<open>Decoding after encoding, for any capacities that suffice.\<close>

lemma decode_encode:
  assumes "length table = 64"
    and "m2022_codec11_encode (Some band) (Some table) (Some cap) = Inr payload"
    and "length band \<le> out_cap"
  shows "\<exists>info. m2022_codec11_decode (Some payload) (Some out_cap) = (None, band, info)
    \<and> ci_table info = table \<and> checksum_stored info = checksum_computed info"
proof -
  from encode_payload [OF assms(2)] obtain raw ts where
    "raw \<le> 128" "raw \<le> length band" "payload = payload_of band table raw ts"
    "\<forall>t \<in> set ts. wf_token t" "expand table ts (take raw band) = Some band" .
  with decode_payload_of [OF assms(1) this(1,2,4,5) assms(3)] show ?thesis by auto
qed

section \<open>Properties\<close>

text \<open>The codec round trip: a payload the encoder produced, with any table of 64 distances and
  whatever capacity it was given, decodes to exactly the band it was made from, reports the table it
  was made with, and its checksum is right.\<close>

theorem codec11_roundtrip:
  assumes "length table = 64"
    and "m2022_codec11_encode (Some band) (Some table) (Some cap) = Inr payload"
    and "length band \<le> out_cap"
  shows "\<exists>info. m2022_codec11_decode (Some payload) (Some out_cap) = (None, band, info)
    \<and> ci_table info = table \<and> checksum_stored info = checksum_computed info"
  by (rule decode_encode [OF assms])

lemma codec11_roundtrip_witness:
  "\<exists>payload info. m2022_codec11_encode (Some [1, 2, 3]) (Some (replicate 64 1)) (Some 1000) = Inr payload
     \<and> m2022_codec11_decode (Some payload) (Some 3) = (None, [1, 2, 3], info)"
proof -
  obtain payload where p: "m2022_codec11_encode (Some [1, 2, 3]) (Some (replicate 64 1)) (Some 1000) = Inr payload"
    using encode_fits [of "[1, 2, 3]" 1000 "replicate 64 1"] by (auto simp: m2022_codec11_encode_bound_def)
  with codec11_roundtrip [OF _ p, of 3] show ?thesis by auto
qed

text \<open>With the capacity that \<open>m2022_codec11_encode_bound\<close> promises, the encoder never fails, and its
  payload is no longer than that bound.\<close>

theorem encode_bound_suffices:
  assumes "m2022_codec11_encode_bound (length band) \<le> cap"
  shows "\<exists>payload. m2022_codec11_encode (Some band) (Some table) (Some cap) = Inr payload
    \<and> length payload \<le> m2022_codec11_encode_bound (length band)"
  by (rule encode_fits [OF assms])

lemma encode_bound_suffices_witness:
  "\<exists>payload. m2022_codec11_encode (Some [7, 7, 7, 7]) (Some (replicate 64 1)) (Some 145) = Inr payload
     \<and> length payload \<le> 145"
  using encode_bound_suffices [of "[7, 7, 7, 7]" 145 "replicate 64 1"]
  by (simp add: m2022_codec11_encode_bound_def)

text \<open>C15: The optimised match search, with its cheap rejection of candidates, finds a longest match: what
  it returns is a real repeat at one of the 64 distances inside the band, and no slot of the table
  has a longer one within the limits of the format.\<close>

theorem longest_match_is_longest:
  assumes "longest_match band pos table index = (m, index')"
  shows "(0 < m \<longrightarrow> 3 \<le> m \<and> m \<le> 514 \<and> pos + m \<le> length band \<and> index' < 64
      \<and> slot_matches band pos table index' m)
    \<and> (\<forall>i k. slot_matches band pos table i k \<and> i < 64 \<and> 3 \<le> k \<and> k \<le> 514 \<and> pos + k \<le> length band
        \<longrightarrow> k \<le> m)"
  using longest_match_found [OF assms] longest_match_greatest [OF assms] by blast

lemma longest_match_is_longest_witness:
  "\<exists>m index'. longest_match [4, 4, 4, 4, 4] 1 (replicate 64 1) 0 = (m, index') \<and> 4 \<le> m \<and> m \<le> 514"
proof -
  obtain m index' where r: "longest_match [4, 4, 4, 4, 4] 1 (replicate 64 1) 0 = (m, index')" by force
  have "slot_matches [4, 4, 4, 4, 4] 1 (replicate 64 1) 0 4"
    by (simp add: slot_matches_def less_Suc_eq numeral_eq_Suc)
  with longest_match_is_longest [OF r] have "4 \<le> m" by fastforce
  with longest_match_is_longest [OF r] r show ?thesis by auto
qed

end
