(* ===== verification/Codec11_Table.thy ===== *)
theory Codec11_Table
  imports Codec11_Encode
begin

text \<open>
  Model of \<open>m2022_codec11_choose_table\<close> (src/qpdl/codec11.c): a cheap parse credits distances, the
  64 distances with the most credit become the table, the default table fills the rest. The two
  arrays on the C stack are lists of their full length: \<open>credit\<close> of 4097 counters, \<open>slots\<close> of 2048
  rows of 4 positions. The lemmas show that the counters cannot wrap, that every credited distance
  is one at which the band repeats, and that the table is usable: 64 distinct distances between 1
  and 4096, the credited ones first, by decreasing credit.
\<close>

abbreviation (input) CHOOSE_HASH_BITS :: nat where "CHOOSE_HASH_BITS \<equiv> 11"
abbreviation (input) CHOOSE_SLOTS :: nat where "CHOOSE_SLOTS \<equiv> 4"
abbreviation (input) CHOOSE_MAX_DIST :: nat where "CHOOSE_MAX_DIST \<equiv> 4096"

definition choose_columns :: "nat list" where
  "choose_columns = [128, 256, 384, 512, 640, 768, 896, 1024,
                     1152, 1280, 1408, 1536, 1664, 1792, 1920, 2048]"

section \<open>Hash and recent positions\<close>

definition hash3 :: "bytes \<Rightarrow> u32" where
  "hash3 p =
    (let v = push_bit 16 (ucast (p ! 0)) OR push_bit 8 (ucast (p ! 1)) OR ucast (p ! 2)
     in drop_bit (32 - CHOOSE_HASH_BITS) (v * 2654435761))"

definition slot_insert :: "u32 list list \<Rightarrow> bytes \<Rightarrow> nat \<Rightarrow> u32 list list" where
  "slot_insert slots band pos =
    (let h = unat (hash3 (drop pos band));
         s = fold (\<lambda>k s. s[k := s ! (k - 1)]) (rev [1..<CHOOSE_SLOTS]) (slots ! h)
     in slots[h := s[0 := word_of_nat pos + 1]])"

section \<open>The cheap parse\<close>

text \<open>Both loops keep the best length and its distance.\<close>

definition try_distance :: "bytes \<Rightarrow> nat \<Rightarrow> nat \<Rightarrow> nat \<Rightarrow> nat \<times> nat \<Rightarrow> nat \<times> nat" where
  "try_distance band pos lim d b =
    (case b of (best, best_d) \<Rightarrow>
       let n = match_len band pos d lim
       in if n \<ge> 3 \<and> n > best then (n, d) else (best, best_d))"

fun try_slots :: "bytes \<Rightarrow> nat \<Rightarrow> nat \<Rightarrow> u32 list \<Rightarrow> nat \<times> nat \<Rightarrow> nat \<times> nat" where
  "try_slots band pos lim [] b = b"
| "try_slots band pos lim (x # s) b =
    (if x = 0 then b
     else let d = pos - unat (x - 1)
          in if d > CHOOSE_MAX_DIST then try_slots band pos lim s b
             else try_slots band pos lim s (try_distance band pos lim d b))"

fun try_columns :: "bytes \<Rightarrow> nat \<Rightarrow> nat \<Rightarrow> nat list \<Rightarrow> nat \<times> nat \<Rightarrow> nat \<times> nat" where
  "try_columns band pos lim [] b = b"
| "try_columns band pos lim (d # ds) b =
    (if d > pos then b else try_columns band pos lim ds (try_distance band pos lim d b))"

text \<open>One position of the parse: the match it finds, as length and distance.\<close>

definition choose_match :: "u32 list list \<Rightarrow> bytes \<Rightarrow> nat \<Rightarrow> nat \<times> nat" where
  "choose_match slots band pos =
    (let s = slots ! unat (hash3 (drop pos band));
         max0 = length band - pos;
         lim = (if max0 > M2022_CODEC11_MAX_MATCH then M2022_CODEC11_MAX_MATCH else max0)
     in try_columns band pos lim choose_columns (try_slots band pos lim s (0, 0)))"

text \<open>\<open>for (q = pos + 1; q < pos + best && q + 3 <= len; q++) slot_insert(slots, band, q);\<close>\<close>

definition insert_skipped :: "u32 list list \<Rightarrow> bytes \<Rightarrow> nat \<Rightarrow> nat \<Rightarrow> u32 list list" where
  "insert_skipped slots band pos best =
     fold (\<lambda>q sl. slot_insert sl band q)
       (takeWhile (\<lambda>q. q + 3 \<le> length band) [pos + 1..<pos + best]) slots"

function choose_parse :: "bytes \<Rightarrow> nat \<Rightarrow> u32 list list \<Rightarrow> u32 list \<Rightarrow> u32 list" where
  "choose_parse band pos slots credit =
    (if pos + 3 \<le> length band then
       let (best, best_d) = choose_match slots band pos;
           slots1 = slot_insert slots band pos
       in if best = 0 then choose_parse band (pos + 1) slots1 credit
          else choose_parse band (pos + best) (insert_skipped slots1 band pos best)
                 (credit[best_d := credit ! best_d + word_of_nat best])
     else credit)"
  by pat_completeness auto
termination
  by (relation "measure (\<lambda>(band, pos, slots, credit). length band - pos)") auto

declare choose_parse.simps [simp del]

section \<open>The selection\<close>

text \<open>\<open>for (d = 1; d <= CHOOSE_MAX_DIST; d++) if (credit[d] > best_c) ...\<close>: credit and distance.\<close>

definition best_credit :: "u32 list \<Rightarrow> u32 \<times> nat" where
  "best_credit credit =
     fold (\<lambda>d (best_c, best_d). if credit ! d > best_c then (credit ! d, d) else (best_c, best_d))
       [1..<CHOOSE_MAX_DIST + 1] (0, 0)"

text \<open>The first argument is the number of entries still free, \<open>64 - count\<close>.\<close>

fun choose_best :: "nat \<Rightarrow> u32 list \<Rightarrow> u16 list \<Rightarrow> u16 list" where
  "choose_best 0 credit table = table"
| "choose_best (Suc k) credit table =
    (let (best_c, best_d) = best_credit credit
     in if best_c = 0 then table
        else choose_best k (credit[best_d := 0]) (table @ [word_of_nat best_d]))"

fun choose_fill :: "u16 list \<Rightarrow> u16 list \<Rightarrow> u16 list" where
  "choose_fill [] table = table"
| "choose_fill (v # vs) table =
    (if length table < M2022_CODEC11_TABLE_ENTRIES
     then choose_fill vs (if v \<in> set table then table else table @ [v])
     else table)"

definition choose_credit :: "bytes \<Rightarrow> u32 list" where
  "choose_credit band =
     choose_parse band 0 (replicate (2 ^ CHOOSE_HASH_BITS) (replicate CHOOSE_SLOTS 0))
       (replicate (CHOOSE_MAX_DIST + 1) 0)"

definition m2022_codec11_choose_table :: "bytes \<Rightarrow> u16 list" where
  "m2022_codec11_choose_table band =
     choose_fill m2022_codec11_default_table
       (choose_best M2022_CODEC11_TABLE_ENTRIES (choose_credit band) [])"

section \<open>The array indices stay inside\<close>

lemma hash3_less: "unat (hash3 p) < 2048"
proof -
  have "hash3 p = hash3 p AND mask 11"
    unfolding hash3_def Let_def by (rule bit_word_eqI) (auto simp: bit_simps dest: bit_imp_le_length)
  then have "unat (hash3 p) \<le> unat (mask 11 :: u32)"
    by (metis word_and_le1 word_le_nat_alt)
  then show ?thesis by (simp add: mask_eq_exp_minus_1)
qed

lemma length_slot_insert [simp]: "length (slot_insert slots band pos) = length slots"
  by (simp add: slot_insert_def Let_def)

lemma fold_update_length: "length (fold (\<lambda>k s. s[k := s ! (k - 1)]) ks s) = length s"
  by (induction ks arbitrary: s) auto


text \<open>
  Every position the slots hold lies before the current one, so the distances are positive. The
  position is stored in 32 bits: the band is shorter than \<open>2 ^ 32\<close> bytes.
\<close>

definition row_ok :: "nat \<Rightarrow> u32 list \<Rightarrow> bool" where
  "row_ok pos s \<longleftrightarrow> length s = 4 \<and> (\<forall>x \<in> set s. x = 0 \<or> unat (x - 1) < pos)"

definition slots_ok :: "nat \<Rightarrow> u32 list list \<Rightarrow> bool" where
  "slots_ok pos slots \<longleftrightarrow> length slots = 2048 \<and> (\<forall>s \<in> set slots. row_ok pos s)"

lemma row_ok_mono: "row_ok p s \<Longrightarrow> p \<le> q \<Longrightarrow> row_ok q s"
  by (fastforce simp: row_ok_def)

lemma slots_ok_mono: "slots_ok p s \<Longrightarrow> p \<le> q \<Longrightarrow> slots_ok q s"
  by (auto simp: slots_ok_def intro: row_ok_mono)

lemma row_ok_shift:
  "row_ok pos s \<Longrightarrow> \<forall>k \<in> set ks. k < 4 \<Longrightarrow> row_ok pos (fold (\<lambda>k s. s[k := s ! (k - 1)]) ks s)"
proof (induction ks arbitrary: s)
  case (Cons k ks)
  have "row_ok pos (s[k := s ! (k - 1)])"
    using Cons.prems nth_mem [of "k - 1" s]
    by (auto simp: row_ok_def dest!: set_update_subset_insert [THEN subsetD])
  with Cons show ?case by simp
qed simp

lemma slot_insert_ok:
  assumes "slots_ok pos slots" "pos < 2 ^ 32"
  shows "slots_ok (Suc pos) (slot_insert slots band pos)"
proof -
  define h where "h = unat (hash3 (drop pos band))"
  define s where "s = fold (\<lambda>k s. s[k := s ! (k - 1)]) (rev [1..<4]) (slots ! h)"
  have "h < length slots" using assms hash3_less by (simp add: slots_ok_def h_def)
  then have "row_ok pos s"
    unfolding s_def using assms by (intro row_ok_shift) (auto simp: slots_ok_def)
  moreover have "unat (word_of_nat pos :: u32) = pos"
    using assms(2) by (simp add: unat_of_nat take_bit_nat_eq_self)
  ultimately have "row_ok (Suc pos) (s[0 := word_of_nat pos + 1])"
    by (auto simp: row_ok_def less_Suc_eq dest!: set_update_subset_insert [THEN subsetD])
  moreover have "slots_ok (Suc pos) slots" using assms by (auto intro: slots_ok_mono)
  ultimately show ?thesis
    by (auto simp: slot_insert_def Let_def slots_ok_def s_def h_def
        dest!: set_update_subset_insert [THEN subsetD])
qed

lemma fold_insert_ok:
  "slots_ok a slots \<Longrightarrow> m \<le> 2 ^ 32 \<Longrightarrow>
     slots_ok (max a m) (fold (\<lambda>q sl. slot_insert sl band q) [a..<m] slots)"
proof (induction m)
  case (Suc m)
  then have IH: "slots_ok (max a m) (fold (\<lambda>q sl. slot_insert sl band q) [a..<m] slots)" by simp
  show ?case
  proof (cases "a \<le> m")
    case True
    then have "max a m = m" "max a (Suc m) = Suc m" by auto
    with IH Suc.prems(2) True show ?thesis by (simp add: slot_insert_ok)
  next
    case False
    then have "max a m = a" "max a (Suc m) = a" by auto
    with IH False show ?thesis by simp
  qed
qed simp

lemma takeWhile_upt:
  obtains m where "m \<le> b" "takeWhile P [a..<b] = [a..<m]"
proof (cases "a \<le> b")
  case True
  define n where "n = length (takeWhile P [a..<b])"
  have n: "a + n \<le> b" using length_takeWhile_le [of P "[a..<b]"] True by (simp add: n_def)
  have "takeWhile P [a..<b] = take n [a..<b]" unfolding n_def by (rule takeWhile_eq_take)
  with n show ?thesis using that [of "a + n"] by simp
qed (use that [of b] in simp)

lemma insert_skipped_ok:
  assumes "slots_ok (Suc pos) slots" "0 < best" "pos + best \<le> 2 ^ 32"
  shows "slots_ok (pos + best) (insert_skipped slots band pos best)"
proof -
  define P where "P = (\<lambda>q. q + 3 \<le> length band)"
  obtain m where m: "m \<le> pos + best" "takeWhile P [Suc pos..<pos + best] = [Suc pos..<m]"
    using takeWhile_upt [of "pos + best" P "Suc pos"] by metis
  have le: "m \<le> 2 ^ 32" using m(1) assms(3) by (rule le_trans)
  have "insert_skipped slots band pos best = fold (\<lambda>q sl. slot_insert sl band q) [Suc pos..<m] slots"
    using m(2) by (simp add: insert_skipped_def P_def)
  then have "slots_ok (max (Suc pos) m) (insert_skipped slots band pos best)"
    using fold_insert_ok [OF assms(1) le, of band] by simp
  moreover have "max (Suc pos) m \<le> pos + best" using m(1) assms(2) by simp
  ultimately show ?thesis by (rule slots_ok_mono)
qed

section \<open>What the parse credits\<close>

text \<open>The match a position finds: none, or at least 3 bytes that repeat at a distance up to 4096.\<close>

definition repeats :: "bytes \<Rightarrow> nat \<Rightarrow> nat \<Rightarrow> nat \<Rightarrow> bool" where
  "repeats band d pos n \<longleftrightarrow> 0 < d \<and> d \<le> 4096 \<and> d \<le> pos \<and> 3 \<le> n \<and> pos + n \<le> length band
     \<and> (\<forall>k < n. band ! (pos + k) = band ! (pos - d + k))"

definition match_ok :: "bytes \<Rightarrow> nat \<Rightarrow> nat \<times> nat \<Rightarrow> bool" where
  "match_ok band pos b \<longleftrightarrow> fst b = 0 \<or> repeats band (snd b) pos (fst b)"

lemma try_distance_ok:
  assumes "match_ok band pos b" "0 < d" "d \<le> 4096" "d \<le> pos" "pos + lim \<le> length band"
  shows "match_ok band pos (try_distance band pos lim d b)"
  using assms match_len_le [of band pos d lim] match_len_eq [of _ band pos d lim]
  by (auto simp: match_ok_def try_distance_def repeats_def Let_def split: prod.splits)

lemma try_slots_ok:
  "\<lbrakk>match_ok band pos b; \<forall>x \<in> set s. x = 0 \<or> unat (x - 1) < pos; pos + lim \<le> length band\<rbrakk>
   \<Longrightarrow> match_ok band pos (try_slots band pos lim s b)"
proof (induction s arbitrary: b)
  case (Cons x s)
  define b' where "b' = try_distance band pos lim (pos - unat (x - 1)) b"
  show ?case
  proof (cases "x = 0 \<or> pos - unat (x - 1) > 4096")
    case True
    with Cons show ?thesis by (auto simp: Let_def)
  next
    case False
    then have "match_ok band pos b'"
      unfolding b'_def using Cons.prems by (intro try_distance_ok) auto
    with Cons.IH [of b'] Cons.prems False show ?thesis by (simp add: b'_def Let_def)
  qed
qed simp

lemma try_columns_ok:
  "\<lbrakk>match_ok band pos b; \<forall>d \<in> set ds. 0 < d \<and> d \<le> 4096; pos + lim \<le> length band\<rbrakk>
   \<Longrightarrow> match_ok band pos (try_columns band pos lim ds b)"
proof (induction ds arbitrary: b)
  case (Cons d ds)
  then show ?case using try_distance_ok [of band pos b d lim] by auto
qed simp

lemma choose_match_ok:
  assumes "slots_ok pos slots" "pos < length band"
  shows "match_ok band pos (choose_match slots band pos)"
proof -
  define s where "s = slots ! unat (hash3 (drop pos band))"
  have "s \<in> set slots" using assms(1) hash3_less by (simp add: slots_ok_def s_def)
  then have s: "\<forall>x \<in> set s. x = 0 \<or> unat (x - 1) < pos"
    using assms(1) by (auto simp: slots_ok_def row_ok_def)
  have "match_ok band pos (0, 0)" by (simp add: match_ok_def)
  moreover have "\<forall>d \<in> set choose_columns. 0 < d \<and> d \<le> 4096" by (simp add: choose_columns_def)
  ultimately show ?thesis
    unfolding choose_match_def Let_def s_def [symmetric]
    using assms(2) s by (intro try_columns_ok try_slots_ok) auto
qed

text \<open>
  The counters: together they never exceed the bytes already parsed, so no addition wraps, and
  only distances at which the band repeats are credited.
\<close>

definition credit_ok :: "bytes \<Rightarrow> nat \<Rightarrow> u32 list \<Rightarrow> bool" where
  "credit_ok band pos credit \<longleftrightarrow> length credit = 4097 \<and> sum_list (map unat credit) \<le> pos
     \<and> (\<forall>d < 4097. credit ! d \<noteq> 0 \<longrightarrow> (\<exists>p n. repeats band d p n))"

lemma sum_list_update_nat:
  "i < length xs \<Longrightarrow> sum_list (xs[i := (y :: nat)]) + xs ! i = sum_list xs + y"
  using elem_le_sum_list [of i xs] by (simp add: sum_list_update)

lemma credit_add_ok:
  assumes "credit_ok band pos credit" "repeats band d pos n" "length band < 2 ^ 32"
  shows "credit_ok band (pos + n) (credit[d := credit ! d + word_of_nat n])"
proof -
  have d: "d < length credit" using assms by (simp add: repeats_def credit_ok_def)
  have "unat (credit ! d) \<le> sum_list (map unat credit)"
    using d elem_le_sum_list [of d "map unat credit"] by simp
  then have "unat (credit ! d) + n < 2 ^ 32"
    using assms by (simp add: credit_ok_def repeats_def)
  moreover have n: "unat (word_of_nat n :: u32) = n"
    using calculation by (simp add: unat_of_nat take_bit_nat_eq_self)
  ultimately have "unat (credit ! d + word_of_nat n) = unat (credit ! d) + n"
    by (simp add: unat_add_lem [THEN iffD1])
  then have "sum_list (map unat (credit[d := credit ! d + word_of_nat n])) \<le> pos + n"
    using d assms(1) sum_list_update_nat [of d "map unat credit" "unat (credit ! d) + n"]
    by (simp add: map_update credit_ok_def)
  moreover have "\<exists>p n. repeats band i p n"
    if "credit[d := credit ! d + word_of_nat n] ! i \<noteq> 0" "i < 4097" for i
    using that assms(1,2) by (cases "i = d") (auto simp: credit_ok_def)
  ultimately show ?thesis
    using assms(1) by (simp add: credit_ok_def)
qed

lemma choose_parse_ok:
  "\<lbrakk>credit_ok band pos credit; slots_ok pos slots; pos \<le> length band; length band < 2 ^ 32\<rbrakk>
   \<Longrightarrow> \<exists>end \<le> length band. credit_ok band end (choose_parse band pos slots credit)"
proof (induction band pos slots credit rule: choose_parse.induct)
  case (1 band pos slots credit)
  note unfold = choose_parse.simps [of band pos slots credit]
  obtain best best_d where cm: "choose_match slots band pos = (best, best_d)" by force
  have ins: "slots_ok (Suc pos) (slot_insert slots band pos)"
    using "1.prems" by (intro slot_insert_ok) auto
  show ?case
  proof (cases "pos + 3 \<le> length band")
    case False
    then show ?thesis using "1.prems" by (auto simp: unfold)
  next
    case inside: True
    show ?thesis
    proof (cases "best = 0")
      case True
      have "credit_ok band (pos + 1) credit" using "1.prems"(1) by (simp add: credit_ok_def)
      with "1.IH"(1) [OF inside cm [symmetric] refl refl True] ins "1.prems" inside True cm
      show ?thesis by (simp add: unfold)
    next
      case False
      then have rep: "repeats band best_d pos best"
        using choose_match_ok [of pos slots band] "1.prems" inside cm by (simp add: match_ok_def)
      have "slots_ok (pos + best) (insert_skipped (slot_insert slots band pos) band pos best)"
        using ins rep "1.prems" by (intro insert_skipped_ok) (auto simp: repeats_def)
      with "1.IH"(2) [OF inside cm [symmetric] refl refl False] credit_add_ok [OF "1.prems"(1) rep]
        rep "1.prems" inside False cm
      show ?thesis by (simp add: unfold repeats_def)
    qed
  qed
qed

lemma choose_credit_ok:
  assumes "length band < 2 ^ 32"
  shows "\<exists>end \<le> length band. credit_ok band end (choose_credit band)"
  unfolding choose_credit_def using assms
  by (intro choose_parse_ok)
     (auto simp: credit_ok_def slots_ok_def row_ok_def sum_list_replicate map_replicate_const)

section \<open>What the selection picks\<close>

text \<open>Distances in order of decreasing credit, at most \<open>k\<close> of them, none with more credit left out.\<close>

definition top_credits :: "nat \<Rightarrow> u32 list \<Rightarrow> nat list \<Rightarrow> bool" where
  "top_credits k credit ds \<longleftrightarrow>
     length ds \<le> k \<and> distinct ds \<and> set ds \<subseteq> {1..4096}
     \<and> (\<forall>d \<in> set ds. credit ! d \<noteq> 0)
     \<and> sorted_wrt (\<lambda>a b. credit ! b \<le> credit ! a) ds
     \<and> (\<forall>d \<in> {1..4096} - set ds. credit ! d = 0 \<or> length ds = k \<and> (\<forall>e \<in> set ds. credit ! d \<le> credit ! e))"

lemma best_credit_fold:
  "\<lbrakk>fold (\<lambda>d (c, b). if credit ! d > c then (credit ! d, d) else (c, b)) ds (c0, b0) = (c, b)\<rbrakk>
   \<Longrightarrow> c0 \<le> c \<and> (\<forall>d \<in> set ds. credit ! d \<le> (c :: u32)) \<and> (c = c0 \<and> b = b0 \<or> b \<in> set ds \<and> c = credit ! b)"
proof (induction ds arbitrary: c0 b0)
  case (Cons d ds)
  show ?case
  proof (cases "credit ! d > c0")
    case True
    with Cons.prems Cons.IH [of "credit ! d" d] show ?thesis by auto
  next
    case False
    with Cons.prems Cons.IH [of c0 b0] show ?thesis by auto
  qed
qed simp

lemma best_credit_spec:
  assumes "best_credit credit = (c, d)"
  shows "(\<forall>i \<in> {1..4096}. credit ! i \<le> c) \<and> (c = 0 \<or> d \<in> {1..4096} \<and> credit ! d = c)"
proof -
  have "set [1..<4096 + 1] = {1..4096}" by auto
  then show ?thesis
    using best_credit_fold [of credit "[1..<4096 + 1]" 0 0 c d] assms
    unfolding best_credit_def by auto
qed

lemma choose_best_top:
  "length credit = 4097 \<Longrightarrow>
     \<exists>ds. choose_best k credit table = table @ map word_of_nat ds \<and> top_credits k credit ds"
proof (induction k arbitrary: credit table)
  case 0
  then show ?case by (auto simp: top_credits_def)
next
  case (Suc k)
  obtain c d where bc: "best_credit credit = (c, d)" by force
  note spec = best_credit_spec [OF bc]
  show ?case
  proof (cases "c = 0")
    case True
    with spec have "top_credits (Suc k) credit []" by (auto simp: top_credits_def)
    with True bc show ?thesis by auto
  next
    case False
    define rest where "rest = credit[d := 0]"
    obtain ds where ds: "choose_best k rest (table @ [word_of_nat d])
        = (table @ [word_of_nat d]) @ map word_of_nat ds" and top: "top_credits k rest ds"
      using Suc.IH [of rest "table @ [word_of_nat d]"] Suc.prems by (auto simp: rest_def)
    have d: "d \<in> {1..4096}" "credit ! d = c" "d < length credit"
      using spec False Suc.prems by auto
    have rest: "rest ! i = (if i = d then 0 else credit ! i)" for i
      using d by (simp add: rest_def)
    have notin: "d \<notin> set ds" using top d by (auto simp: top_credits_def rest)
    have same: "i \<in> set ds \<Longrightarrow> rest ! i = credit ! i" for i
      using notin by (auto simp: rest)
    have "sorted_wrt (\<lambda>a b. credit ! b \<le> credit ! a) ds"
      using top same by (auto simp: top_credits_def elim!: sorted_wrt_mono_rel [rotated])
    moreover have "credit ! i = 0 \<or> length ds = k \<and> (\<forall>e \<in> set ds. credit ! i \<le> credit ! e)"
      if "i \<in> {1..4096} - set ds" "i \<noteq> d" for i
    proof -
      have "rest ! i = 0 \<or> length ds = k \<and> (\<forall>e \<in> set ds. rest ! i \<le> rest ! e)"
        using top that(1) unfolding top_credits_def by blast
      with that(2) same show ?thesis by (simp add: rest [of i])
    qed
    moreover have "\<forall>i \<in> set ds. credit ! i \<noteq> 0"
      using top same by (simp add: top_credits_def)
    ultimately have "top_credits (Suc k) credit (d # ds)"
      using top spec d(1,2) notin False by (auto simp: top_credits_def)
    then show ?thesis
      using ds bc False by (intro exI [of _ "d # ds"]) (auto simp: rest_def)
  qed
qed

lemma choose_fill_eq:
  "\<lbrakk>distinct vs; length table \<le> 64\<rbrakk> \<Longrightarrow>
     choose_fill vs table = table @ take (64 - length table) (filter (\<lambda>v. v \<notin> set table) vs)"
proof (induction vs arbitrary: table)
  case (Cons v vs)
  show ?case
  proof (cases "length table < 64 \<and> v \<notin> set table")
    case True
    have filter: "filter (\<lambda>x. x \<notin> set (table @ [v])) vs = filter (\<lambda>x. x \<notin> set table) vs"
      using Cons.prems by (intro filter_cong) auto
    have "64 - length table = Suc (64 - length (table @ [v]))" using True by auto
    with True Cons.IH [of "table @ [v]"] Cons.prems filter show ?thesis by simp
  next
    case False
    with Cons show ?thesis by auto
  qed
qed simp

lemma default_table_facts:
  "length m2022_codec11_default_table = 64" "distinct m2022_codec11_default_table"
  "\<forall>v \<in> set m2022_codec11_default_table. 1 \<le> unat v \<and> unat v \<le> 2048"
  by (simp_all add: m2022_codec11_default_table_def)

lemma length_filter_notin:
  "distinct vs \<Longrightarrow> length vs - length xs \<le> length (filter (\<lambda>v. v \<notin> set xs) vs)"
proof -
  assume "distinct vs"
  then have "length (filter (\<lambda>v. v \<notin> set xs) vs) = card (set vs - set xs)"
    by (metis distinct_card distinct_filter set_diff_eq set_filter)
  also have "\<dots> \<ge> card (set vs) - card (set xs)" by (simp add: diff_card_le_card_Diff)
  finally show ?thesis
    using \<open>distinct vs\<close> card_length [of xs] by (simp add: distinct_card)
qed

lemma length_choose_parse [simp]: "length (choose_parse band pos slots credit) = length credit"
proof (induction band pos slots credit rule: choose_parse.induct)
  case (1 band pos slots credit)
  obtain best best_d where cm: "choose_match slots band pos = (best, best_d)" by force
  show ?case
    using "1.IH"(1) [OF _ cm [symmetric] refl refl] "1.IH"(2) [OF _ cm [symmetric] refl refl] cm
    by (auto simp: choose_parse.simps [of band pos slots credit] Let_def)
qed

text \<open>The table: the credited distances \<open>ds\<close>, then default distances.\<close>

lemma choose_table_split:
  obtains ds fill where "m2022_codec11_choose_table band = map word_of_nat ds @ fill"
    "top_credits 64 (choose_credit band) ds"
    "fill = take (64 - length ds)
       (filter (\<lambda>v. v \<notin> set (map word_of_nat ds)) m2022_codec11_default_table)"
proof -
  obtain ds where best: "choose_best 64 (choose_credit band) [] = map word_of_nat ds"
      and top: "top_credits 64 (choose_credit band) ds"
    using choose_best_top [of "choose_credit band" 64 "[]"] by (auto simp: choose_credit_def)
  have "length ds \<le> 64" using top by (simp add: top_credits_def)
  then show ?thesis
    using that [OF _ top refl] best choose_fill_eq [of m2022_codec11_default_table "map word_of_nat ds"]
      default_table_facts(2)
    by (simp add: m2022_codec11_choose_table_def)
qed

lemma word_of_nat_u16_inj: "inj_on (word_of_nat :: nat \<Rightarrow> u16) {1..4096}"
  by (rule inj_onI) (auto dest!: arg_cong [of _ _ unat] simp: unat_of_nat take_bit_nat_eq_self)

lemma choose_table_usable:
  "length (m2022_codec11_choose_table band) = 64 \<and> distinct (m2022_codec11_choose_table band)
   \<and> (\<forall>v \<in> set (m2022_codec11_choose_table band). 1 \<le> unat v \<and> unat v \<le> 4096)"
proof -
  obtain ds fill where tab: "m2022_codec11_choose_table band = map word_of_nat ds @ fill"
    and top: "top_credits 64 (choose_credit band) ds"
    and fill: "fill = take (64 - length ds)
       (filter (\<lambda>v. v \<notin> set (map word_of_nat ds)) m2022_codec11_default_table)"
    by (rule choose_table_split)
  have ds: "distinct ds" "set ds \<subseteq> {1..4096}" "length ds \<le> 64"
    using top by (auto simp: top_credits_def)
  have "length fill = 64 - length ds"
    using length_filter_notin [of m2022_codec11_default_table "map word_of_nat ds :: u16 list"]
      default_table_facts by (simp add: fill)
  then have len: "length (map word_of_nat ds @ fill) = 64" using ds(3) by simp
  have range: "1 \<le> unat (word_of_nat d :: u16) \<and> unat (word_of_nat d :: u16) \<le> 4096"
    if "d \<in> set ds" for d
    using that ds(2) by (auto simp: unat_of_nat take_bit_nat_eq_self)
  have fill_sub: "set fill \<subseteq> set m2022_codec11_default_table - set (map word_of_nat ds)"
    unfolding fill by (auto dest: in_set_takeD)
  have "distinct (map word_of_nat ds @ fill)"
    using ds word_of_nat_u16_inj fill_sub default_table_facts(2)
    by (auto simp: distinct_map fill intro: inj_on_subset)
  then show ?thesis
    unfolding tab using len range fill_sub default_table_facts(3) by fastforce
qed

section \<open>Properties\<close>

text \<open>C5: The codec as the job encoder uses it: every band, with the table chosen for it, encodes within
  the bound and decodes to itself.\<close>

theorem codec11_chosen_table_roundtrip:
  "\<exists>payload info. m2022_codec11_encode (Some band) (Some (m2022_codec11_choose_table band))
       (Some (m2022_codec11_encode_bound (length band))) = Inr payload
     \<and> length payload \<le> m2022_codec11_encode_bound (length band)
     \<and> m2022_codec11_decode (Some payload) (Some (length band)) = (None, band, info)
     \<and> ci_table info = m2022_codec11_choose_table band"
proof -
  obtain payload where p: "m2022_codec11_encode (Some band) (Some (m2022_codec11_choose_table band))
       (Some (m2022_codec11_encode_bound (length band))) = Inr payload"
      "length payload \<le> m2022_codec11_encode_bound (length band)"
    using encode_fits [of band "m2022_codec11_encode_bound (length band)"] by blast
  with decode_encode [OF _ p(1), of "length band"] choose_table_usable [of band]
  show ?thesis by auto
qed

text \<open>C16: The chosen table is always usable: 64 different distances, none of them zero and none beyond
  4096.\<close>

theorem choose_table_entries:
  "length (m2022_codec11_choose_table band) = 64 \<and> distinct (m2022_codec11_choose_table band)
   \<and> unat ` set (m2022_codec11_choose_table band) \<subseteq> {1..4096}"
  using choose_table_usable [of band] by auto

text \<open>The credit that picks the distances never overflows its 32-bit counters, and a distance has
  credit only where the band really repeats at that distance.\<close>

theorem choose_credit_real:
  assumes "length band < 2 ^ 32"
  shows "\<exists>end \<le> length band. credit_ok band end (choose_credit band)"
  by (rule choose_credit_ok [OF assms])

lemma choose_credit_real_witness:
  "\<exists>end \<le> 4. credit_ok [3, 3, 3, 3] end (choose_credit [3, 3, 3, 3])"
proof -
  have l: "length ([3, 3, 3, 3] :: bytes) = 4" by simp
  show ?thesis by (rule choose_credit_real [of "[3, 3, 3, 3]", unfolded l]) simp
qed

end
