(* ===== verification/Qpdl_Encode.thy ===== *)
theory Qpdl_Encode
  imports Qpdl_Band Qpdl_Walk Codec11_Table "HOL-Library.Signed_Division"
begin

text \<open>
  Model of src/qpdl/encode.c: the job encoder. \<open>m2022_qpdl_encoder_t\<close> is a record whose \<open>sink\<close>
  field is the callback and whose \<open>sink_ctx\<close> is the state the callback works on; an operation takes
  the encoder and returns the C return code (0, a negative \<open>M2022_QPDL_E...\<close> code, or what the
  sink returned) with the new encoder. The encoder pointer itself is never NULL here; NULL bits,
  NULL workspace and NULL strings are \<open>None\<close>. The slices \<open>rows\<close> and \<open>band\<close> of the page workspace
  are fields of their own; the payload slice holds no state between calls. C strings are the bytes
  before their NUL.
\<close>

section \<open>Job and encoder\<close>

abbreviation (input) M2022_QPDL_FEEDER_AUTO :: u8 where "M2022_QPDL_FEEDER_AUTO \<equiv> 1"
abbreviation (input) M2022_QPDL_FEEDER_MANUAL :: u8 where "M2022_QPDL_FEEDER_MANUAL \<equiv> 2"
abbreviation (input) M2022_QPDL_DUPLEX_OFF :: nat where "M2022_QPDL_DUPLEX_OFF \<equiv> 0"
abbreviation (input) M2022_QPDL_DUPLEX_MANUAL_LONG_EDGE :: nat where
  "M2022_QPDL_DUPLEX_MANUAL_LONG_EDGE \<equiv> 1"
abbreviation (input) M2022_QPDL_DUPLEX_MANUAL_SHORT_EDGE :: nat where
  "M2022_QPDL_DUPLEX_MANUAL_SHORT_EDGE \<equiv> 2"

record qpdl_job =
  paper_code :: u8
  paper_width_pt :: int
  paper_height_pt :: int
  dpi :: nat
  feeder :: u8
  paper_type :: "bytes option"
  duplex :: nat
  skip_blank_pages :: bool
  copies :: u16
  service_date :: "bytes option"
  producer :: "bytes option"

definition m2022_qpdl_job_default :: qpdl_job where
  "m2022_qpdl_job_default =
    \<lparr>paper_code = 0x02, paper_width_pt = 595, paper_height_pt = 842, dpi = 600,
     feeder = M2022_QPDL_FEEDER_AUTO, paper_type = Some (ascii ''OFF''),
     duplex = M2022_QPDL_DUPLEX_OFF, skip_blank_pages = False, copies = 1,
     service_date = None, producer = None\<rparr>"

text \<open>The sink callback: its context, the bytes, its return code.\<close>

type_synonym 's sink_fn = "'s \<Rightarrow> bytes \<Rightarrow> int \<times> 's"

text \<open>
  Pixel and line counts are numbers: the width is at most 65280, so every value computed from it
  fits the C type. \<open>lines\<close> is 32 bits wide and wraps. The statistics count pages and bands.
\<close>

record 's encoder =
  job :: qpdl_job
  sink :: "'s sink_fn"
  sink_ctx :: 's
  width :: nat
  band_width :: nat
  bytes_per_row :: nat
  row_bytes_used :: nat
  lines :: nat
  band_number :: nat
  rows :: bytes
  band :: bytes
  payload_cap :: nat
  in_job :: bool
  in_page :: bool
  pages :: nat
  bands_written :: nat
  bands_blank :: nat
  bytes_out :: nat

section \<open>Helpers\<close>

definition m2022_qpdl_paper_dots :: "int \<Rightarrow> nat \<Rightarrow> u16" where
  "m2022_qpdl_paper_dots points d =
    (let per_inch = (if d = 1200 then 150 else 300);
         dots = (points * per_inch + 36) sdiv 72
     in if dots < 0 then 0 else if dots > 65535 then 65535 else word_of_int dots)"

definition m2022_qpdl_encoder_workspace_bytes :: "nat \<Rightarrow> nat" where
  "m2022_qpdl_encoder_workspace_bytes w =
    (let bpr = (w + 255) div 256 * 256 div 8;
         band_bytes = bpr * M2022_QPDL_BAND_LINES
     in band_bytes + band_bytes + m2022_codec11_encode_bound band_bytes)"

definition emit :: "'s encoder \<Rightarrow> bytes \<Rightarrow> int \<times> 's encoder" where
  "emit e data =
    (let (rc, ctx) = sink e (sink_ctx e) data;
         e' = e\<lparr>sink_ctx := ctx\<rparr>
     in if rc = 0 then (rc, e'\<lparr>bytes_out := bytes_out e' + length data\<rparr>) else (rc, e'))"

text \<open>The formatted line is what \<open>vsnprintf\<close> produces; 256 is the size of its buffer.\<close>

definition emitf :: "'s encoder \<Rightarrow> bytes \<Rightarrow> int \<times> 's encoder" where
  "emitf e line = (if length line \<ge> 256 then (err_code EINVAL, e) else emit e line)"

text \<open>\<open>strnlen(s, max + 1)\<close> looks no further than the limit.\<close>

definition plain_text :: "bytes \<Rightarrow> nat \<Rightarrow> bool" where
  "plain_text s lim =
    (let n = min (length s) (lim + 1)
     in if n = 0 \<or> n > lim then False
        else \<forall>i \<in> set [0..<n]. \<not> (s ! i < 0x20 \<or> s ! i > 0x7e))"

text \<open>\<open>if ((rc = f(e)) != 0) return rc;\<close> over a sequence of calls: the first failure is the result.\<close>

primrec in_order :: "('e \<Rightarrow> int \<times> 'e) list \<Rightarrow> 'e \<Rightarrow> int \<times> 'e" where
  "in_order [] e = (0, e)"
| "in_order (f # fs) e = (let (rc, e') = f e in if rc \<noteq> 0 then (rc, e') else in_order fs e')"

section \<open>Begin job\<close>

definition CRLF :: bytes where
  "CRLF = [13, 10]"

text \<open>\<open>"%u"\<close> of the two resolutions that pass the check.\<close>

definition dpi_text :: "nat \<Rightarrow> bytes" where
  "dpi_text d = (if d = 600 then ascii ''600'' else ascii ''1200'')"

definition job_valid :: "qpdl_job \<Rightarrow> bool" where
  "job_valid j \<longleftrightarrow>
    \<not> ((dpi j \<noteq> 600 \<and> dpi j \<noteq> 1200)
       \<or> (feeder j \<noteq> M2022_QPDL_FEEDER_AUTO \<and> feeder j \<noteq> M2022_QPDL_FEEDER_MANUAL)
       \<or> (case paper_type j of None \<Rightarrow> True | Some s \<Rightarrow> \<not> plain_text s 32)
       \<or> copies j = 0 \<or> paper_width_pt j \<le> 0 \<or> paper_height_pt j \<le> 0
       \<or> duplex j > M2022_QPDL_DUPLEX_MANUAL_SHORT_EDGE
       \<or> (case service_date j of None \<Rightarrow> False | Some s \<Rightarrow> \<not> plain_text s 8)
       \<or> (case producer j of None \<Rightarrow> False | Some s \<Rightarrow> \<not> plain_text s 128))"

text \<open>The \<open>emitf\<close> calls of \<open>m2022_qpdl_begin_job\<close>, in order, each with the text it formats.\<close>

definition pjl_calls :: "qpdl_job \<Rightarrow> bytes list" where
  "pjl_calls j =
    (case service_date j of None \<Rightarrow> []
       | Some s \<Rightarrow> [ascii ''@PJL DEFAULT SERVICEDATE='' @ s @ CRLF])
    @ [ascii ''@PJL COMMENT Model Name : Samsung M2020 Series'' @ CRLF]
    @ (case producer j of None \<Rightarrow> []
       | Some s \<Rightarrow> [ascii ''@PJL COMMENT Producer : '' @ s @ CRLF])
    @ [ascii ''@PJL SET XIGNOREFF='' @ ascii (if skip_blank_pages j then ''ON'' else ''OFF'')
         @ CRLF @ CRLF]
    @ [ascii ''@PJL SET RESOLUTION = '' @ dpi_text (dpi j) @ CRLF]
    @ (if dpi j = 600 then [ascii ''@PJL SET BITSPERPIXEL = 1'' @ CRLF] else [])
    @ [ascii ''@PJL SET PAPERTYPE = '' @ the (paper_type j) @ CRLF]
    @ [ascii ''@PJL SET DUPLEX = ''
         @ ascii (if duplex j = M2022_QPDL_DUPLEX_OFF then ''OFF'' else ''MANUAL'') @ CRLF]
    @ (if duplex j \<noteq> M2022_QPDL_DUPLEX_OFF
       then [ascii ''@PJL SET BINDING = ''
               @ ascii (if duplex j = M2022_QPDL_DUPLEX_MANUAL_LONG_EDGE then ''LONGEDGE''
                        else ''SHORTEDGE'') @ CRLF]
       else [])
    @ [ascii ''@PJL ENTER LANGUAGE=QPDL'' @ CRLF]"

definition encoder_zero :: "qpdl_job \<Rightarrow> 's sink_fn \<Rightarrow> 's \<Rightarrow> 's encoder" where
  "encoder_zero j f ctx =
    \<lparr>job = j, sink = f, sink_ctx = ctx, width = 0, band_width = 0, bytes_per_row = 0,
     row_bytes_used = 0, lines = 0, band_number = 0, rows = [], band = [], payload_cap = 0,
     in_job = False, in_page = False, pages = 0, bands_written = 0, bands_blank = 0,
     bytes_out = 0\<rparr>"

text \<open>A refused job leaves the encoder alone: the caller's encoder \<open>e0\<close> is returned.\<close>

definition m2022_qpdl_begin_job ::
  "'s encoder \<Rightarrow> qpdl_job \<Rightarrow> 's sink_fn \<Rightarrow> 's \<Rightarrow> int \<times> 's encoder" where
  "m2022_qpdl_begin_job e0 j f ctx =
    (if \<not> job_valid j then (err_code EINVAL, e0)
     else in_order ((\<lambda>e. emit e M2022_QPDL_UEL) # map (\<lambda>line e. emitf e line) (pjl_calls j))
            ((encoder_zero j f ctx)\<lparr>in_job := True\<rparr>))"

section \<open>Pages\<close>

definition page_header_of :: "qpdl_job \<Rightarrow> page_header" where
  "page_header_of j =
    (let res = word_of_nat (dpi j div 100)
     in \<lparr>y_res_100 = res, ph_copies = copies j, ph_paper_code = paper_code j,
         paper_width = m2022_qpdl_paper_dots (paper_width_pt j) (dpi j),
         paper_height = m2022_qpdl_paper_dots (paper_height_pt j) (dpi j),
         ph_feeder = feeder j, reserved_a = 0, ph_duplex = 0, tumble = 0, reserved_d = 0,
         qpdl_version = 3, reserved_f = 1, x_res_100 = res\<rparr>)"

text \<open>The workspace is given by its contents; its length is \<open>workspace_bytes\<close>.\<close>

definition m2022_qpdl_begin_page ::
  "'s encoder \<Rightarrow> nat \<Rightarrow> bytes option \<Rightarrow> int \<times> 's encoder" where
  "m2022_qpdl_begin_page e w workspace =
    (if \<not> in_job e \<or> in_page e then (err_code ESTATE, e)
     else if w = 0 \<or> w > 65280 then (err_code ERANGE, e)
     else case workspace of
       None \<Rightarrow> (err_code EINVAL, e)
     | Some ws \<Rightarrow>
         if length ws < m2022_qpdl_encoder_workspace_bytes w then (err_code EINVAL, e)
         else
           let bw = (w + 255) div 256 * 256;
               bpr = bw div 8;
               band_bytes = bpr * M2022_QPDL_BAND_LINES;
               e' = e\<lparr>width := w, band_width := bw, bytes_per_row := bpr,
                      row_bytes_used := (w + 7) div 8,
                      rows := replicate band_bytes 0, band := part band_bytes band_bytes ws,
                      payload_cap := m2022_codec11_encode_bound band_bytes,
                      lines := 0, band_number := 0, in_page := True\<rparr>
           in emit e' (m2022_qpdl_write_page_header (page_header_of (job e'))))"

text \<open>Encode and write the band in \<open>rows\<close>, or skip it when it is all white.\<close>

definition flush_band :: "'s encoder \<Rightarrow> int \<times> 's encoder" where
  "flush_band e =
    (let band_bytes = bytes_per_row e * M2022_QPDL_BAND_LINES
     in if band_number e > 255 then (err_code ERANGE, e)
        else if (\<forall>i \<in> set [0..<band_bytes]. rows e ! i = 0)
        then (0, e\<lparr>bands_blank := bands_blank e + 1, band_number := band_number e + 1\<rparr>)
        else
          let e1 = e\<lparr>band := m2022_qpdl_rows_to_band (rows e) (bytes_per_row e) (band e)\<rparr>;
              table = m2022_codec11_choose_table (part 0 band_bytes (band e1))
          in case m2022_codec11_encode (Some (part 0 band_bytes (band e1))) (Some table)
                    (Some (payload_cap e1)) of
               Inl (err, n) \<Rightarrow> (err_code err, e1)
             | Inr payload \<Rightarrow>
                 let h = \<lparr>bh_number = word_of_nat (band_number e1),
                          bh_width = word_of_nat (band_width e1),
                          bh_height = word_of_nat M2022_QPDL_BAND_LINES,
                          bh_compression = M2022_QPDL_COMPRESSION_0X11,
                          bh_length = word_of_nat (length payload)\<rparr>;
                     (rc, e2) = in_order [\<lambda>e. emit e (m2022_qpdl_write_band_header h),
                                          \<lambda>e. emit e payload] e1
                 in if rc \<noteq> 0 then (rc, e2)
                    else (0, e2\<lparr>rows := replicate band_bytes 0,
                                bands_written := bands_written e2 + 1,
                                band_number := band_number e2 + 1\<rparr>))"

text \<open>
  \<open>memcpy\<close> of the used bytes into the row, then the mask of the last byte when the width is not
  a multiple of 8: \<open>(uint8_t)(0xFF << (8 - width % 8))\<close>.
\<close>

definition store_row :: "nat \<Rightarrow> nat \<Rightarrow> nat \<Rightarrow> bytes \<Rightarrow> bytes \<Rightarrow> bytes" where
  "store_row at used w bits rs =
    (let copied = take at rs @ take used bits @ drop (at + used) rs;
         last = at + used - 1
     in if w mod 8 \<noteq> 0
        then copied[last := copied ! last AND push_bit (8 - w mod 8) 0xFF]
        else copied)"

definition m2022_qpdl_write_line :: "'s encoder \<Rightarrow> bytes option \<Rightarrow> int \<times> 's encoder" where
  "m2022_qpdl_write_line e bits_ptr =
    (if \<not> in_page e then (err_code ESTATE, e)
     else case bits_ptr of
       None \<Rightarrow> (err_code EINVAL, e)
     | Some bits \<Rightarrow>
         let e1 = e\<lparr>rows := store_row (lines e mod M2022_QPDL_BAND_LINES * bytes_per_row e)
                               (row_bytes_used e) (width e) bits (rows e),
                    lines := (lines e + 1) mod 2 ^ 32\<rparr>
         in if lines e1 mod M2022_QPDL_BAND_LINES = 0 then flush_band e1 else (0, e1))"

definition m2022_qpdl_end_page :: "'s encoder \<Rightarrow> int \<times> 's encoder" where
  "m2022_qpdl_end_page e =
    (if \<not> in_page e then (err_code ESTATE, e)
     else
       let (rc, e1) = (if lines e mod M2022_QPDL_BAND_LINES \<noteq> 0 then flush_band e else (0, e))
       in if rc \<noteq> 0 then (rc, e1)
          else
            let e2 = e1\<lparr>in_page := False, pages := pages e1 + 1\<rparr>
            in emit e2 (m2022_qpdl_write_end_page (copies (job e2))))"

definition m2022_qpdl_end_job :: "'s encoder \<Rightarrow> int \<times> 's encoder" where
  "m2022_qpdl_end_job e =
    (if \<not> in_job e \<or> in_page e then (err_code ESTATE, e)
     else in_order [\<lambda>e. emit e [M2022_QPDL_REC_END_JOB], \<lambda>e. emit e M2022_QPDL_UEL]
            (e\<lparr>in_job := False\<rparr>))"

end
