(* ===== verification/Qpdl_Stream.thy ===== *)
theory Qpdl_Stream
  imports Qpdl_Encode
begin

text \<open>
  What the job encoder of src/qpdl/encode.c writes. \<open>byte_sink\<close> is the contract between the encoder
  and its sink callback, \<open>reliable_sink\<close> adds that the sink never fails; under the first, a job whose
  calls all succeed has written exactly \<open>job_stream\<close> and counted its bytes, pages and bands; under
  the second, a valid job succeeds. \<open>job_stream\<close> is the specification: envelope, page headers, one
  record per band that is not blank, end-of-page records, end of job.
\<close>

section \<open>What the calls append\<close>

text \<open>
  The interface between the encoder and its sink: a sink that reports success has taken exactly
  the bytes it was given. \<open>written\<close> is what it has taken so far. The facts about the stream the
  encoder produces rest on this law only, so they hold for every sink that obeys it.
\<close>

locale byte_sink =
  fixes snk :: "'s sink_fn"
    and written :: "'s \<Rightarrow> bytes"
  assumes accepts: "snk s data = (0, s') \<Longrightarrow> written s' = written s @ data"

text \<open>A sink that never fails.\<close>

locale reliable_sink = byte_sink +
  assumes reliable: "fst (snk s data) = 0"

text \<open>Between \<open>e\<close> and \<open>e'\<close> the sink took \<open>data\<close>, and nothing else changed but the byte count.\<close>

definition appends :: "('s \<Rightarrow> bytes) \<Rightarrow> 's encoder \<Rightarrow> 's encoder \<Rightarrow> bytes \<Rightarrow> bool" where
  "appends written e e' data \<longleftrightarrow>
     (\<exists>ctx. written ctx = written (sink_ctx e) @ data
       \<and> e' = e\<lparr>sink_ctx := ctx, bytes_out := bytes_out e + length data\<rparr>)"

lemma appends_trans: "appends w e e1 a \<Longrightarrow> appends w e1 e2 b \<Longrightarrow> appends w e e2 (a @ b)"
  by (auto simp: appends_def)

lemma appends_refl [simp]: "appends w e e []"
  unfolding appends_def by (intro exI [of _ "sink_ctx e"]) simp

lemma appends_sink: "appends w e e' d \<Longrightarrow> sink e' = sink e"
  by (auto simp: appends_def)

lemma in_order_append:
  "in_order (fs @ gs) e = (let (rc, e') = in_order fs e in if rc \<noteq> 0 then (rc, e') else in_order gs e')"
  by (induction fs arbitrary: e) (auto simp: Let_def split: prod.splits)

lemma in_order_Cons_ok:
  "in_order (f # fs) e = (0, e') \<longleftrightarrow> (\<exists>e1. f e = (0, e1) \<and> in_order fs e1 = (0, e'))"
  by (auto simp: Let_def split: prod.splits)

lemma in_order_append_ok:
  "in_order (fs @ gs) e = (0, e') \<longleftrightarrow> (\<exists>e1. in_order fs e = (0, e1) \<and> in_order gs e1 = (0, e'))"
  by (auto simp: in_order_append Let_def split: prod.splits)

lemma in_order_Nil_ok: "in_order [] e = (0, e') \<longleftrightarrow> e' = e"
  by auto

lemmas in_order_ok = in_order_Nil_ok in_order_Cons_ok in_order_append_ok

lemma err_code_nonzero [simp]: "err_code e \<noteq> 0"
  by (cases e) auto

context byte_sink begin

lemma emit_appends:
  "\<lbrakk>emit e data = (0, e'); sink e = snk\<rbrakk> \<Longrightarrow> appends written e e' data"
  using accepts [of "sink_ctx e" data]
  by (auto simp: emit_def appends_def Let_def split: prod.splits if_splits)

lemma emitf_appends:
  "\<lbrakk>emitf e data = (0, e'); sink e = snk\<rbrakk> \<Longrightarrow> appends written e e' data"
  using emit_appends by (auto simp: emitf_def split: if_splits)

lemma emit_all_appends:
  "\<lbrakk>in_order (map (\<lambda>line e. emitf e line) ls) e = (0, e'); sink e = snk\<rbrakk>
   \<Longrightarrow> appends written e e' (concat ls)"
proof (induction ls arbitrary: e)
  case (Cons l ls)
  then obtain e1 where e1: "emitf e l = (0, e1)"
      and rest: "in_order (map (\<lambda>line e. emitf e line) ls) e1 = (0, e')"
    by (auto simp only: list.map in_order_ok)
  have "appends written e e1 l" using e1 Cons.prems by (intro emitf_appends)
  moreover from this have "appends written e1 e' (concat ls)"
    using rest Cons.prems by (intro Cons.IH) (simp_all add: appends_sink)
  ultimately show ?case by (auto intro: appends_trans)
qed simp

end

section \<open>The stream of a job\<close>

text \<open>The bytes between two states of the sink that the job header, a band, a page consist of.\<close>

definition envelope :: "qpdl_job \<Rightarrow> bytes" where
  "envelope j = M2022_QPDL_UEL @ concat (pjl_calls j)"

text \<open>A page row as it is stored: the used bytes with the padding masked, then white bytes.\<close>

definition row_bytes :: "nat \<Rightarrow> nat" where
  "row_bytes w = (w + 255) div 256 * 256 div 8"

definition clean_row :: "nat \<Rightarrow> bytes \<Rightarrow> bytes" where
  "clean_row w bits = store_row 0 ((w + 7) div 8) w bits (replicate (row_bytes w) 0)"

text \<open>The row buffer after the lines \<open>ls\<close> of a band: what is not yet received is white.\<close>

definition band_rows :: "nat \<Rightarrow> bytes list \<Rightarrow> bytes" where
  "band_rows w ls = concat (map (clean_row w) ls) @ replicate ((128 - length ls) * row_bytes w) 0"

definition band_payload :: "nat \<Rightarrow> bytes \<Rightarrow> bytes" where
  "band_payload w rs =
    (let b = m2022_qpdl_rows_to_band rs (row_bytes w) (replicate (128 * row_bytes w) 0)
     in case m2022_codec11_encode (Some b) (Some (m2022_codec11_choose_table b))
               (Some (m2022_codec11_encode_bound (128 * row_bytes w))) of
          Inl _ \<Rightarrow> [] | Inr p \<Rightarrow> p)"

definition band_header_of :: "nat \<Rightarrow> nat \<Rightarrow> bytes \<Rightarrow> band_header" where
  "band_header_of w k payload =
    \<lparr>bh_number = word_of_nat k, bh_width = word_of_nat ((w + 255) div 256 * 256),
     bh_height = 128, bh_compression = 0x11, bh_length = word_of_nat (length payload)\<rparr>"

definition band_record :: "nat \<Rightarrow> nat \<Rightarrow> bytes \<Rightarrow> bytes" where
  "band_record w k rs =
    (if \<forall>b \<in> set rs. b = 0 then []
     else m2022_qpdl_write_band_header (band_header_of w k (band_payload w rs)) @ band_payload w rs)"

text \<open>The records of the full bands of \<open>ls\<close>, numbered from \<open>k\<close>; a partial last band counts.\<close>

function band_records :: "nat \<Rightarrow> nat \<Rightarrow> bytes list \<Rightarrow> bytes" where
  "band_records w k ls =
    (if ls = [] then []
     else band_record w k (band_rows w (take 128 ls)) @ band_records w (Suc k) (drop 128 ls))"
  by pat_completeness auto
termination by (relation "measure (\<lambda>(w, k, ls). length ls)") auto

declare band_records.simps [simp del]

definition page_stream :: "qpdl_job \<Rightarrow> nat \<Rightarrow> bytes list \<Rightarrow> bytes" where
  "page_stream j w ls =
     m2022_qpdl_write_page_header (page_header_of j) @ band_records w 0 ls
     @ m2022_qpdl_write_end_page (copies j)"

definition job_stream :: "qpdl_job \<Rightarrow> (nat \<times> bytes list) list \<Rightarrow> bytes" where
  "job_stream j ps =
     envelope j @ concat (map (\<lambda>(w, ls). page_stream j w ls) ps)
     @ [M2022_QPDL_REC_END_JOB] @ M2022_QPDL_UEL"

text \<open>Rows of the right length.\<close>

lemma row_used_le: "(w + 7) div 8 \<le> row_bytes w"
proof -
  define q where "q = (w + 255) div 256"
  have "w + 255 = 256 * q + (w + 255) mod 256" unfolding q_def by (rule mult_div_mod_eq [symmetric])
  moreover have "(w + 255) mod 256 < 256" by simp
  ultimately have "w \<le> 256 * q" by simp
  then have "(w + 7) div 8 \<le> (256 * q + 7) div 8" by (intro div_le_mono) simp
  also have "\<dots> = 32 * q" by simp
  finally show ?thesis by (simp add: row_bytes_def q_def [symmetric])
qed

lemma length_store_row:
  "\<lbrakk>at + used \<le> length rs; used \<le> length bits\<rbrakk> \<Longrightarrow> length (store_row at used w bits rs) = length rs"
  by (auto simp: store_row_def Let_def)

lemma length_clean_row [simp]: "(w + 7) div 8 \<le> length bits \<Longrightarrow> length (clean_row w bits) = row_bytes w"
  unfolding clean_row_def using row_used_le [of w] by (subst length_store_row) auto


section \<open>One band\<close>

lemma rows_to_band_any_buffer:
  assumes "length b = 128 * bpr" "length b' = 128 * bpr"
  shows "m2022_qpdl_rows_to_band rs bpr b = m2022_qpdl_rows_to_band rs bpr b'"
proof (rule list_eq_nthI)
  fix i assume "i < length (m2022_qpdl_rows_to_band rs bpr b')"
  then obtain col line where "line < 128" "col < bpr" "i = col * 128 + line"
    using assms band_index_cases [of i bpr thesis] by simp
  then show "m2022_qpdl_rows_to_band rs bpr b ! i = m2022_qpdl_rows_to_band rs bpr b' ! i"
    using assms by (simp add: nth_rows_to_band)
qed (use assms in simp)

lemma all_zero_iff: "(\<forall>i \<in> set [0..<length rs]. rs ! i = 0) \<longleftrightarrow> (\<forall>b \<in> set rs. b = (0 :: u8))"
  by (auto simp: all_set_conv_all_nth)

lemma all_zero_replicate: "\<forall>b \<in> set rs. b = (0 :: u8) \<Longrightarrow> rs = replicate (length rs) 0"
  by (simp add: list_eq_iff_nth_eq)

text \<open>The geometry of the page's buffers.\<close>

definition page_geom :: "nat \<Rightarrow> 's encoder \<Rightarrow> bool" where
  "page_geom w e \<longleftrightarrow> width e = w \<and> band_width e = (w + 255) div 256 * 256
     \<and> bytes_per_row e = row_bytes w \<and> row_bytes_used e = (w + 7) div 8
     \<and> payload_cap e = m2022_codec11_encode_bound (128 * row_bytes w)
     \<and> length (rows e) = 128 * row_bytes w \<and> length (band e) = 128 * row_bytes w"

lemma band_payload_encode:
  assumes "length b = 128 * row_bytes w"
  shows "m2022_codec11_encode (Some (m2022_qpdl_rows_to_band rs (row_bytes w) b))
      (Some (m2022_codec11_choose_table (m2022_qpdl_rows_to_band rs (row_bytes w) b)))
      (Some (m2022_codec11_encode_bound (128 * row_bytes w))) = Inr (band_payload w rs)"
proof -
  define bd where "bd = m2022_qpdl_rows_to_band rs (row_bytes w) b"
  have "bd = m2022_qpdl_rows_to_band rs (row_bytes w) (replicate (128 * row_bytes w) 0)"
    unfolding bd_def using assms by (intro rows_to_band_any_buffer) auto
  moreover have "length bd = 128 * row_bytes w" using assms by (simp add: bd_def)
  moreover from this obtain p where "m2022_codec11_encode (Some bd) (Some (m2022_codec11_choose_table bd))
      (Some (m2022_codec11_encode_bound (128 * row_bytes w))) = Inr p"
    using encode_fits [of bd "m2022_codec11_encode_bound (128 * row_bytes w)"] by auto
  ultimately show ?thesis
    by (simp add: band_payload_def Let_def flip: bd_def)
qed

context byte_sink begin

lemma flush_band_ok:
  assumes ok: "flush_band e = (0, e')" and snk: "sink e = snk" and geom: "page_geom w e"
    and "band_number e \<le> 255"
  shows "\<exists>b wn bl e1. appends written e e1 (band_record w (band_number e) (rows e))
    \<and> length b = 128 * row_bytes w \<and> wn + bl = bands_written e + bands_blank e + 1
    \<and> e' = e1\<lparr>rows := replicate (128 * row_bytes w) 0, band := b, bands_written := wn,
          bands_blank := bl, band_number := band_number e + 1\<rparr>"
proof (cases "\<forall>b \<in> set (rows e). b = 0")
  case True
  then have "flush_band e = (0, e\<lparr>bands_blank := bands_blank e + 1, band_number := band_number e + 1\<rparr>)"
    using assms(4) geom all_zero_iff [of "rows e"]
    by (simp add: flush_band_def Let_def page_geom_def mult.commute)
  then have e': "e' = e\<lparr>bands_blank := bands_blank e + 1, band_number := band_number e + 1\<rparr>"
    using ok by simp
  have zero: "rows e = replicate (128 * row_bytes w) 0"
    using all_zero_replicate [OF True] geom by (simp only: page_geom_def)
  have "e' = e\<lparr>rows := replicate (128 * row_bytes w) 0, band := band e,
      bands_written := bands_written e, bands_blank := bands_blank e + 1,
      band_number := band_number e + 1\<rparr>"
    unfolding e' zero [symmetric] by simp
  moreover have "band_record w (band_number e) (rows e) = []"
    unfolding band_record_def using True by (rule if_P)
  moreover have "length (band e) = 128 * row_bytes w" using geom by (simp only: page_geom_def)
  ultimately show ?thesis
    by (intro exI [of _ "band e"] exI [of _ "bands_written e"] exI [of _ "bands_blank e + 1"]
        exI [of _ e]) (simp only: appends_refl add.assoc)
next
  case False
  define b where "b = m2022_qpdl_rows_to_band (rows e) (row_bytes w) (band e)"
  define e1 where "e1 = e\<lparr>band := b\<rparr>"
  define p where "p = band_payload w (rows e)"
  have b: "length b = 128 * row_bytes w" using geom by (simp add: b_def page_geom_def)
  have enc: "m2022_codec11_encode (Some b) (Some (m2022_codec11_choose_table b))
      (Some (payload_cap e)) = Inr p"
    using band_payload_encode [of "band e" w "rows e"] geom by (simp add: b_def p_def page_geom_def)
  have whole: "part 0 (128 * row_bytes w) b = b" using b by (simp add: part_def)
  have geo: "bytes_per_row e = row_bytes w" "band_width e = (w + 255) div 256 * 256"
    "length (rows e) = 128 * row_bytes w"
    using geom by (simp_all add: page_geom_def)
  define send where "send = [\<lambda>e :: 's encoder. emit e (m2022_qpdl_write_band_header
        (band_header_of w (band_number e1) p)), \<lambda>e. emit e p]"
  have full: "(\<forall>i \<in> set [0..<128 * row_bytes w]. rows e ! i = 0) = False"
    using False all_zero_iff [of "rows e"] unfolding geo(3) by simp
  have b': "m2022_qpdl_rows_to_band (rows e) (bytes_per_row e) (band e) = b"
    using geo(1) by (simp add: b_def)
  have size: "bytes_per_row e * 128 = 128 * row_bytes w" using geo(1) by simp
  have "flush_band e = (let (rc, e2) = in_order send e1
      in if rc \<noteq> 0 then (rc, e2)
         else (0, e2\<lparr>rows := replicate (128 * row_bytes w) 0, bands_written := bands_written e2 + 1,
                band_number := band_number e2 + 1\<rparr>))"
    unfolding flush_band_def send_def e1_def
    using assms(4) enc whole geo(2)
    by (simp add: Let_def size full band_header_of_def b' del: in_order.simps set_upt)
  with ok obtain e2 where steps: "in_order send e1 = (0, e2)"
    and e': "e' = e2\<lparr>rows := replicate (128 * row_bytes w) 0, bands_written := bands_written e2 + 1,
                band_number := band_number e2 + 1\<rparr>"
    by (auto split: prod.splits if_splits)
  from steps obtain e3 where e3: "emit e1 (m2022_qpdl_write_band_header
        (band_header_of w (band_number e1) p)) = (0, e3)" and e2: "emit e3 p = (0, e2)"
    unfolding send_def by (auto simp only: in_order_ok)
  have a3: "appends written e1 e3 (m2022_qpdl_write_band_header (band_header_of w (band_number e1) p))"
    using e3 snk by (intro emit_appends) (simp_all add: e1_def)
  have a2: "appends written e3 e2 p"
    using e2 appends_sink [OF a3] snk by (intro emit_appends) (simp_all add: e1_def)
  have "band_record w (band_number e) (rows e)
      = m2022_qpdl_write_band_header (band_header_of w (band_number e1) p) @ p"
    unfolding band_record_def if_not_P [OF False] by (simp add: p_def e1_def)
  with appends_trans [OF a3 a2] have "appends written e1 e2 (band_record w (band_number e) (rows e))"
    by simp
  then obtain c where c: "written c = written (sink_ctx e) @ band_record w (band_number e) (rows e)"
    and e2: "e2 = e1\<lparr>sink_ctx := c,
      bytes_out := bytes_out e + length (band_record w (band_number e) (rows e))\<rparr>"
    by (auto simp: appends_def e1_def)
  define e4 where "e4 = e\<lparr>sink_ctx := c,
      bytes_out := bytes_out e + length (band_record w (band_number e) (rows e))\<rparr>"
  have "appends written e e4 (band_record w (band_number e) (rows e))"
    using c by (auto simp: appends_def e4_def)
  then show ?thesis
    using b e' by (intro exI [of _ b] exI [of _ "bands_written e + 1"] exI [of _ "bands_blank e"]
        exI [of _ e4]) (simp add: e4_def e2 e1_def mult.commute)
qed

end


section \<open>One line\<close>

lemma store_row_middle:
  assumes "used \<le> length bits" "used \<le> n" "0 < used"
  shows "store_row (length pre) used w bits (pre @ replicate n 0 @ post)
    = pre @ store_row 0 used w bits (replicate n 0) @ post"
proof -
  have "length pre + used - 1 = length pre + (used - 1)" using assms(3) by simp
  moreover have "used - 1 < length (take used bits)" using assms by simp
  ultimately show ?thesis
    using assms
    by (simp add: store_row_def Let_def nth_append list_update_append)
qed

lemma length_concat_clean:
  "\<forall>l \<in> set ls. (w + 7) div 8 \<le> length l \<Longrightarrow> length (concat (map (clean_row w) ls)) = length ls * row_bytes w"
  by (induction ls) auto

lemma length_band_rows:
  "\<lbrakk>length ls \<le> 128; \<forall>l \<in> set ls. (w + 7) div 8 \<le> length l\<rbrakk> \<Longrightarrow> length (band_rows w ls) = 128 * row_bytes w"
  by (simp add: band_rows_def length_concat_clean flip: add_mult_distrib)

lemma store_row_band_rows:
  assumes "length ls < 128" "\<forall>l \<in> set ls. (w + 7) div 8 \<le> length l" "(w + 7) div 8 \<le> length bits" "0 < w"
  shows "store_row (length ls * row_bytes w) ((w + 7) div 8) w bits (band_rows w ls)
    = band_rows w (ls @ [bits])"
proof -
  define pre where "pre = concat (map (clean_row w) ls)"
  have "128 - length ls = Suc (128 - Suc (length ls))" using assms(1) by arith
  then have "(128 - length ls) * row_bytes w = row_bytes w + (128 - Suc (length ls)) * row_bytes w"
    by (simp only: mult_Suc)
  then have split: "band_rows w ls = pre @ replicate (row_bytes w) 0
      @ replicate ((128 - Suc (length ls)) * row_bytes w) 0"
    by (simp add: band_rows_def pre_def flip: replicate_add)
  have len: "length ls * row_bytes w = length pre"
    using length_concat_clean [OF assms(2)] by (simp add: pre_def)
  have "0 < (w + 7) div 8" using assms(4) by (simp add: div_greater_zero_iff)
  then show ?thesis
    unfolding split len
    using store_row_middle [OF assms(3) row_used_le, of pre w]
    by (simp add: band_rows_def pre_def clean_row_def)
qed

section \<open>A page\<close>

text \<open>
  The state after the lines \<open>ls\<close> of a page: \<open>base\<close> is what the sink had taken before them, \<open>n0\<close> and
  \<open>k0\<close> are the bytes and bands counted so far.
\<close>

definition page_inv ::
  "('s \<Rightarrow> bytes) \<Rightarrow> 's sink_fn \<Rightarrow> bytes \<Rightarrow> nat \<Rightarrow> nat \<Rightarrow> nat \<Rightarrow> qpdl_job \<Rightarrow> nat \<Rightarrow> bytes list \<Rightarrow> 's encoder \<Rightarrow> bool" where
  "page_inv written snk base n0 k0 p0 j w ls e \<longleftrightarrow>
     (let q = length ls div 128; done = take (128 * q) ls
      in sink e = snk \<and> job e = j \<and> in_job e \<and> in_page e \<and> page_geom w e \<and> pages e = p0
         \<and> rows e = band_rows w (drop (128 * q) ls)
         \<and> lines e = length ls \<and> band_number e = q
         \<and> bands_written e + bands_blank e = k0 + q
         \<and> written (sink_ctx e) = base @ band_records w 0 done
         \<and> bytes_out e = n0 + length (band_records w 0 done))"

lemma band_records_snoc:
  "length ls = 128 * q \<Longrightarrow> length ns \<le> 128 \<Longrightarrow> ns \<noteq> [] \<Longrightarrow>
     band_records w k (ls @ ns) = band_records w k ls @ band_record w (k + q) (band_rows w ns)"
proof (induction q arbitrary: k ls)
  case 0
  then show ?case by (simp add: band_records.simps [of w k ns] band_records.simps [of _ _ "[]"])
next
  case (Suc q)
  have ls: "ls \<noteq> []" using Suc.prems by auto
  have "band_records w k (ls @ ns) = band_record w k (band_rows w (take 128 ls))
      @ band_records w (Suc k) (drop 128 ls @ ns)"
    using Suc.prems ls by (subst band_records.simps) simp
  also have "band_records w (Suc k) (drop 128 ls @ ns)
      = band_records w (Suc k) (drop 128 ls) @ band_record w (Suc k + q) (band_rows w ns)"
    using Suc.prems by (intro Suc.IH) auto
  finally show ?case using ls by (simp add: band_records.simps [of w k ls])
qed


context byte_sink begin

lemma begin_page_inv:
  assumes "m2022_qpdl_begin_page e w ws = (0, e')" "sink e = snk"
  shows "page_inv written snk (written (sink_ctx e) @ m2022_qpdl_write_page_header (page_header_of (job e)))
    (bytes_out e + 17) (bands_written e + bands_blank e) (pages e) (job e) w [] e'
    \<and> 0 < w \<and> w \<le> 65280"
proof -
  define bpr where "bpr = row_bytes w"
  obtain buf where ws: "ws = Some buf"
    using assms(1) by (cases ws) (auto simp: m2022_qpdl_begin_page_def split: if_splits)
  from assms have
      guards: "in_job e" "\<not> in_page e" "0 < w" "w \<le> 65280"
      and buf: "m2022_qpdl_encoder_workspace_bytes w \<le> length buf"
      and em: "emit (e\<lparr>width := w, band_width := (w + 255) div 256 * 256, bytes_per_row := bpr,
            row_bytes_used := (w + 7) div 8,
            rows := replicate (bpr * 128) 0, band := part (bpr * 128) (bpr * 128) buf,
            payload_cap := m2022_codec11_encode_bound (bpr * 128),
            lines := 0, band_number := 0, in_page := True\<rparr>)
          (m2022_qpdl_write_page_header (page_header_of (job e))) = (0, e')"
    by (auto simp: ws m2022_qpdl_begin_page_def Let_def row_bytes_def bpr_def split: if_splits)
  have "length (part (bpr * 128) (bpr * 128) buf) = 128 * row_bytes w"
    using buf by (subst length_part)
      (auto simp: m2022_qpdl_encoder_workspace_bytes_def Let_def bpr_def row_bytes_def)
  moreover from emit_appends [OF em] assms(2) obtain c where
      "written c = written (sink_ctx e) @ m2022_qpdl_write_page_header (page_header_of (job e))"
      "e' = e\<lparr>width := w, band_width := (w + 255) div 256 * 256, bytes_per_row := bpr,
            row_bytes_used := (w + 7) div 8,
            rows := replicate (bpr * 128) 0, band := part (bpr * 128) (bpr * 128) buf,
            payload_cap := m2022_codec11_encode_bound (bpr * 128),
            lines := 0, band_number := 0, in_page := True,
            sink_ctx := c, bytes_out := bytes_out e + 17\<rparr>"
    by (auto simp: appends_def)
  ultimately show ?thesis
    using guards assms(2)
    by (auto simp: page_inv_def Let_def page_geom_def bpr_def band_rows_def mult.commute
        band_records.simps [of _ _ "[]"])
qed

lemma write_line_inv:
  assumes inv: "page_inv written snk base n0 k0 p0 j w ls e"
    and step: "m2022_qpdl_write_line e (Some bits) = (0, e')"
    and lens: "\<forall>l \<in> set ls. (w + 7) div 8 \<le> length l" "(w + 7) div 8 \<le> length bits"
    and "0 < w" "length ls < 32768"
  shows "page_inv written snk base n0 k0 p0 j w (ls @ [bits]) e'"
proof -
  define q where "q = length ls div 128"
  define cur where "cur = drop (128 * q) ls"
  have split: "ls = take (128 * q) ls @ cur" by (simp add: cur_def)
  have full: "length (take (128 * q) ls) = 128 * q" by (simp add: q_def)
  have cur: "length cur = length ls mod 128" "length cur < 128"
    by (simp_all add: cur_def q_def minus_mult_div_eq_mod)
  have cur_lens: "\<forall>l \<in> set cur. (w + 7) div 8 \<le> length l"
    using lens(1) by (auto simp: cur_def dest: in_set_dropD)
  have geom: "page_geom w e" and state: "sink e = snk" "job e = j" "in_job e" "in_page e" "pages e = p0"
      "rows e = band_rows w cur" "lines e = length ls" "band_number e = q"
      "bands_written e + bands_blank e = k0 + q"
      "written (sink_ctx e) = base @ band_records w 0 (take (128 * q) ls)"
      "bytes_out e = n0 + length (band_records w 0 (take (128 * q) ls))"
    using inv by (simp_all add: page_inv_def Let_def cur_def q_def)
  define e1 where "e1 = e\<lparr>rows := band_rows w (cur @ [bits]), lines := length ls + 1\<rparr>"
  have e1: "e\<lparr>rows := store_row (lines e mod 128 * bytes_per_row e) (row_bytes_used e) (width e) bits (rows e),
        lines := (lines e + 1) mod 2 ^ 32\<rparr> = e1"
    using geom state store_row_band_rows [OF cur(2) cur_lens lens(2) assms(5)] cur(1) assms(6)
    by (simp add: e1_def page_geom_def)
  have "m2022_qpdl_write_line e (Some bits) = (if lines e1 mod 128 = 0 then flush_band e1 else (0, e1))"
    unfolding m2022_qpdl_write_line_def Let_def e1 [symmetric] using state(4) by simp
  then have step1: "(if (length ls + 1) mod 128 = 0 then flush_band e1 else (0, e1)) = (0, e')"
    using step by (simp add: e1_def)
  have len1: "length (band_rows w (cur @ [bits])) = 128 * row_bytes w"
    using cur(2) cur_lens lens(2) by (intro length_band_rows) auto
  have geom1: "page_geom w e1" using geom len1 by (simp add: e1_def page_geom_def)
  show ?thesis
  proof (cases "(length ls + 1) mod 128 = 0")
    case False
    then have "(length ls + 1) div 128 = q" by (simp add: q_def div_Suc)
    moreover have "take (128 * q) (ls @ [bits]) = take (128 * q) ls"
      "drop (128 * q) (ls @ [bits]) = cur @ [bits]"
      by (simp_all add: cur_def q_def)
    ultimately show ?thesis
      using False step1 state geom1 by (auto simp: page_inv_def Let_def e1_def)
  next
    case True
    then have q1: "(length ls + 1) div 128 = Suc q" by (simp add: q_def div_Suc)
    with True have lenSuc: "length ls + 1 = 128 * Suc q"
      using mult_div_mod_eq [of 128 "length ls + 1"] by simp
    have "q \<le> 255" using lenSuc assms(6) by simp
    with step1 True geom1 state obtain b wn bl e2 where
        app: "appends written e1 e2 (band_record w q (band_rows w (cur @ [bits])))"
      and b: "length b = 128 * row_bytes w" and cnt: "wn + bl = bands_written e + bands_blank e + 1"
      and e': "e' = e2\<lparr>rows := replicate (128 * row_bytes w) 0, band := b, bands_written := wn,
          bands_blank := bl, band_number := q + 1\<rparr>"
      using flush_band_ok [of e1 e' w] by (auto simp: e1_def)
    have recs: "band_records w 0 (ls @ [bits]) = band_records w 0 (take (128 * q) ls)
        @ band_record w q (band_rows w (cur @ [bits]))"
      using band_records_snoc [OF full, of "cur @ [bits]" w 0] cur(2) split
      by (metis add_0 append_assoc length_append_singleton Suc_leI snoc_eq_iff_butlast)
    from app obtain c where c: "written c = written (sink_ctx e) @ band_record w q (band_rows w (cur @ [bits]))"
      and e2: "e2 = e1\<lparr>sink_ctx := c, bytes_out := bytes_out e
          + length (band_record w q (band_rows w (cur @ [bits])))\<rparr>"
      by (auto simp: appends_def e1_def)
    have "take (128 * Suc q) (ls @ [bits]) = ls @ [bits]" "drop (128 * Suc q) (ls @ [bits]) = []"
      using lenSuc by simp_all
    then show ?thesis
      using state geom1 b cnt c recs q1 lenSuc
      by (auto simp: page_inv_def Let_def e' e2 e1_def page_geom_def band_rows_def)
  qed
qed

end


text \<open>The calls of a page, and of a job, in the order the clients make them.\<close>

definition page_calls :: "nat \<Rightarrow> bytes \<Rightarrow> bytes list \<Rightarrow> ('s encoder \<Rightarrow> int \<times> 's encoder) list" where
  "page_calls w ws ls =
     (\<lambda>e. m2022_qpdl_begin_page e w (Some ws)) # map (\<lambda>l e. m2022_qpdl_write_line e (Some l)) ls
     @ [m2022_qpdl_end_page]"

definition encode_job ::
  "'s encoder \<Rightarrow> qpdl_job \<Rightarrow> 's sink_fn \<Rightarrow> 's \<Rightarrow> (nat \<times> bytes \<times> bytes list) list \<Rightarrow> int \<times> 's encoder" where
  "encode_job e0 j f ctx ps =
     in_order ((\<lambda>e. m2022_qpdl_begin_job e j f ctx)
       # concat (map (\<lambda>(w, ws, ls). page_calls w ws ls) ps) @ [m2022_qpdl_end_job]) e0"

definition lines_ok :: "nat \<Rightarrow> bytes list \<Rightarrow> bool" where
  "lines_ok w ls \<longleftrightarrow> length ls \<le> 32768 \<and> (\<forall>l \<in> set ls. (w + 7) div 8 \<le> length l)"

text \<open>The state between pages: \<open>out\<close> is the stream of the job so far.\<close>

definition job_inv ::
  "('s \<Rightarrow> bytes) \<Rightarrow> 's sink_fn \<Rightarrow> bytes \<Rightarrow> bytes \<Rightarrow> qpdl_job \<Rightarrow> 's encoder \<Rightarrow> bool" where
  "job_inv written snk base out j e \<longleftrightarrow> sink e = snk \<and> job e = j \<and> in_job e \<and> \<not> in_page e
     \<and> written (sink_ctx e) = base @ out \<and> bytes_out e = length out"

lemma band_records_end:
  assumes "length ls = 128 * q + r" "r < 128" "0 < r"
  shows "band_records w 0 ls = band_records w 0 (take (128 * q) ls)
    @ band_record w q (band_rows w (drop (128 * q) ls))"
  using band_records_snoc [of "take (128 * q) ls" q "drop (128 * q) ls" w 0] assms by simp

context byte_sink begin

lemma write_lines_inv:
  "\<lbrakk>page_inv written snk base n0 k0 p0 j w done e; 0 < w;
    in_order (map (\<lambda>l e. m2022_qpdl_write_line e (Some l)) ls) e = (0, e');
    lines_ok w (done @ ls)\<rbrakk>
   \<Longrightarrow> page_inv written snk base n0 k0 p0 j w (done @ ls) e'"
proof (induction ls arbitrary: e "done")
  case (Cons l ls)
  from Cons.prems(3) obtain e1 where e1: "m2022_qpdl_write_line e (Some l) = (0, e1)"
    and rest: "in_order (map (\<lambda>l e. m2022_qpdl_write_line e (Some l)) ls) e1 = (0, e')"
    by (auto simp only: list.map in_order_ok)
  have "page_inv written snk base n0 k0 p0 j w (done @ [l]) e1"
    using write_line_inv [OF Cons.prems(1) e1] Cons.prems(2,4) by (simp add: lines_ok_def)
  from Cons.IH [OF this Cons.prems(2) rest] Cons.prems(4) show ?case by simp
qed (simp only: in_order_ok list.map append_Nil2)

lemma end_page_inv:
  assumes inv: "page_inv written snk base n0 k0 p0 j w ls e"
    and step: "m2022_qpdl_end_page e = (0, e')" and lens: "lines_ok w ls"
  shows "sink e' = snk \<and> job e' = j \<and> in_job e' \<and> \<not> in_page e' \<and> pages e' = p0 + 1
    \<and> written (sink_ctx e') = base @ band_records w 0 ls @ m2022_qpdl_write_end_page (copies j)
    \<and> bytes_out e' = n0 + length (band_records w 0 ls) + 3
    \<and> bands_written e' + bands_blank e' = k0 + (length ls + 127) div 128"
proof -
  define q where "q = length ls div 128"
  define r where "r = length ls mod 128"
  have len: "length ls = 128 * q + r" "r < 128" by (simp_all add: q_def r_def)
  have geom: "page_geom w e" and state: "sink e = snk" "job e = j" "in_job e" "in_page e" "pages e = p0"
      "rows e = band_rows w (drop (128 * q) ls)" "lines e = length ls" "band_number e = q"
      "bands_written e + bands_blank e = k0 + q"
      "written (sink_ctx e) = base @ band_records w 0 (take (128 * q) ls)"
      "bytes_out e = n0 + length (band_records w 0 (take (128 * q) ls))"
    using inv by (simp_all add: page_inv_def Let_def q_def)
  obtain e1 where flush: "(if r \<noteq> 0 then flush_band e else (0, e)) = (0, e1)"
    and em: "emit (e1\<lparr>in_page := False, pages := pages e1 + 1\<rparr>)
        (m2022_qpdl_write_end_page (copies (job e1))) = (0, e')"
    using step state(4,7) by (auto simp: m2022_qpdl_end_page_def Let_def r_def split: prod.splits if_splits)
  have "sink e1 = snk \<and> job e1 = j \<and> in_job e1 \<and> pages e1 = p0
    \<and> written (sink_ctx e1) = base @ band_records w 0 ls
    \<and> bytes_out e1 = n0 + length (band_records w 0 ls)
    \<and> bands_written e1 + bands_blank e1 = k0 + (length ls + 127) div 128"
  proof (cases "r = 0")
    case True
    then have "(length ls + 127) div 128 = q" using len by simp
    with True flush state len show ?thesis by simp
  next
    case False
    then have cnt: "(length ls + 127) div 128 = q + 1" using len by (intro div_nat_eqI) auto
    have "q \<le> 255" using False len lens by (simp add: lines_ok_def)
    with flush False geom state obtain b wn bl e2 where
        app: "appends written e e2 (band_record w q (band_rows w (drop (128 * q) ls)))"
      and cnt2: "wn + bl = bands_written e + bands_blank e + 1"
      and e1: "e1 = e2\<lparr>rows := replicate (128 * row_bytes w) 0, band := b, bands_written := wn,
          bands_blank := bl, band_number := q + 1\<rparr>"
      using flush_band_ok [of e e1 w] by auto
    then show ?thesis
      using band_records_end [OF len(1,2)] False state cnt by (auto simp: appends_def)
  qed
  moreover from this have "appends written (e1\<lparr>in_page := False, pages := pages e1 + 1\<rparr>) e'
      (m2022_qpdl_write_end_page (copies (job e1)))"
    by (intro emit_appends [OF em]) simp
  ultimately show ?thesis by (auto simp: appends_def)
qed

lemma page_calls_inv:
  assumes run: "in_order (page_calls w ws ls) e = (0, e')" and inv: "job_inv written snk base out j e"
    and lens: "lines_ok w ls"
  shows "job_inv written snk base (out @ page_stream j w ls) j e'"
    and "pages e' = pages e + 1"
    and "bands_written e' + bands_blank e' = bands_written e + bands_blank e + (length ls + 127) div 128"
proof -
  from run obtain e1 e2 where
      e1: "m2022_qpdl_begin_page e w (Some ws) = (0, e1)"
    and e2: "in_order (map (\<lambda>l e. m2022_qpdl_write_line e (Some l)) ls) e1 = (0, e2)"
    and e': "m2022_qpdl_end_page e2 = (0, e')"
    unfolding page_calls_def by (auto simp only: in_order_ok)
  have snk: "sink e = snk" using inv by (simp add: job_inv_def)
  note start = begin_page_inv [OF e1 snk]
  have "page_inv written snk (written (sink_ctx e) @ m2022_qpdl_write_page_header (page_header_of (job e)))
    (bytes_out e + 17) (bands_written e + bands_blank e) (pages e) (job e) w ls e2"
    using write_lines_inv [OF _ _ e2, of _ _ _ _ _ _ "[]"] start lens by simp
  from end_page_inv [OF this e' lens] inv
  show "job_inv written snk base (out @ page_stream j w ls) j e'" "pages e' = pages e + 1"
    "bands_written e' + bands_blank e' = bands_written e + bands_blank e + (length ls + 127) div 128"
    by (auto simp: job_inv_def page_stream_def)
qed

lemma pages_inv:
  "\<lbrakk>in_order (concat (map (\<lambda>(w, ws, ls). page_calls w ws ls) ps)) e = (0, e');
    job_inv written snk base out j e; \<forall>(w, ws, ls) \<in> set ps. lines_ok w ls\<rbrakk>
   \<Longrightarrow> job_inv written snk base (out @ concat (map (\<lambda>(w, ws, ls). page_stream j w ls) ps)) j e'
     \<and> pages e' = pages e + length ps
     \<and> bands_written e' + bands_blank e' = bands_written e + bands_blank e
         + sum_list (map (\<lambda>(w, ws, ls). (length ls + 127) div 128) ps)"
proof (induction ps arbitrary: e out)
  case Nil
  then show ?case by (simp only: in_order_ok list.map concat.simps) simp
next
  case (Cons p ps)
  obtain w ws ls where p: "p = (w, ws, ls)" using prod_cases3 by blast
  from Cons.prems(1) obtain e1 where e1: "in_order (page_calls w ws ls) e = (0, e1)"
    and rest: "in_order (concat (map (\<lambda>(w, ws, ls). page_calls w ws ls) ps)) e1 = (0, e')"
    by (auto simp only: p list.map concat.simps split_conv in_order_ok)
  have lens: "lines_ok w ls" using Cons.prems(3) p by auto
  note page = page_calls_inv [OF e1 Cons.prems(2) lens]
  from Cons.IH [OF rest page(1)] page Cons.prems(3) show ?case by (simp add: p)
qed

lemma begin_job_inv:
  assumes "m2022_qpdl_begin_job e0 j snk ctx = (0, e)"
  shows "job_inv written snk (written ctx) (envelope j) j e \<and> pages e = 0
    \<and> bands_written e = 0 \<and> bands_blank e = 0 \<and> job_valid j"
proof -
  define z where "z = (encoder_zero j snk ctx)\<lparr>in_job := True\<rparr>"
  have valid: "job_valid j" using assms by (auto simp: m2022_qpdl_begin_job_def split: if_splits)
  with assms obtain e1 where e1: "emit z M2022_QPDL_UEL = (0, e1)"
    and rest: "in_order (map (\<lambda>line e. emitf e line) (pjl_calls j)) e1 = (0, e)"
    unfolding m2022_qpdl_begin_job_def z_def by (auto simp only: if_False not_True_eq_False in_order_ok)
  have a1: "appends written z e1 M2022_QPDL_UEL"
    using emit_appends [OF e1] by (simp add: z_def encoder_zero_def)
  have "appends written e1 e (concat (pjl_calls j))"
    using emit_all_appends [OF rest] appends_sink [OF a1] by (simp add: z_def encoder_zero_def)
  from appends_trans [OF a1 this] valid show ?thesis
    by (auto simp: appends_def job_inv_def z_def encoder_zero_def envelope_def)
qed

text \<open>The whole job: when every call succeeds, the sink has taken exactly the job's stream.\<close>

lemma encode_job_stream:
  assumes run: "encode_job e0 j snk ctx ps = (0, e)"
    and lens: "\<forall>(w, ws, ls) \<in> set ps. lines_ok w ls"
  shows "written (sink_ctx e) = written ctx @ job_stream j (map (\<lambda>(w, ws, ls). (w, ls)) ps)
    \<and> bytes_out e = length (job_stream j (map (\<lambda>(w, ws, ls). (w, ls)) ps))
    \<and> pages e = length ps
    \<and> bands_written e + bands_blank e = sum_list (map (\<lambda>(w, ws, ls). (length ls + 127) div 128) ps)
    \<and> \<not> in_job e"
proof -
  from run obtain e1 e2 where e1: "m2022_qpdl_begin_job e0 j snk ctx = (0, e1)"
    and e2: "in_order (concat (map (\<lambda>(w, ws, ls). page_calls w ws ls) ps)) e1 = (0, e2)"
    and e: "m2022_qpdl_end_job e2 = (0, e)"
    unfolding encode_job_def by (auto simp only: in_order_ok)
  note start = begin_job_inv [OF e1]
  note mid = pages_inv [OF e2 conjunct1 [OF start] lens]
  have inv: "job_inv written snk (written ctx)
      (envelope j @ concat (map (\<lambda>(w, ws, ls). page_stream j w ls) ps)) j e2"
    using mid by simp
  from e inv obtain e3 where e3: "emit (e2\<lparr>in_job := False\<rparr>) [9] = (0, e3)"
    and last: "emit e3 M2022_QPDL_UEL = (0, e)"
    unfolding m2022_qpdl_end_job_def job_inv_def by (auto simp only: if_False in_order_ok simp_thms)
  have a3: "appends written (e2\<lparr>in_job := False\<rparr>) e3 [9]"
    using emit_appends [OF e3] inv by (simp add: job_inv_def)
  have "appends written e3 e M2022_QPDL_UEL"
    using emit_appends [OF last] appends_sink [OF a3] inv by (simp add: job_inv_def)
  from appends_trans [OF a3 this] inv mid start show ?thesis
    by (auto simp: appends_def job_inv_def job_stream_def comp_def case_prod_unfold)
qed

end


text \<open>What a successful job had to satisfy.\<close>

context byte_sink begin

lemma encode_job_guards:
  assumes run: "encode_job e0 j snk ctx ps = (0, e)" and lens: "\<forall>(w, ws, ls) \<in> set ps. lines_ok w ls"
  shows "job_valid j \<and> (\<forall>(w, ws, ls) \<in> set ps. 0 < w \<and> w \<le> 65280)"
proof -
  have page: "0 < w \<and> w \<le> 65280"
    if "in_order (page_calls w ws ls) e = (0, e')" "job_inv written snk base out j e" for w ws ls e e' base out
  proof -
    from that(1) obtain e1 where "m2022_qpdl_begin_page e w (Some ws) = (0, e1)"
      unfolding page_calls_def by (auto simp only: in_order_ok)
    from begin_page_inv [OF this] that(2) show ?thesis by (simp add: job_inv_def)
  qed
  have "\<lbrakk>in_order (concat (map (\<lambda>(w, ws, ls). page_calls w ws ls) ps)) e = (0, e');
      job_inv written snk base out j e; \<forall>(w, ws, ls) \<in> set ps. lines_ok w ls\<rbrakk>
    \<Longrightarrow> \<forall>(w, ws, ls) \<in> set ps. 0 < w \<and> w \<le> 65280" for e e' base out
  proof (induction ps arbitrary: e out)
    case (Cons p ps)
    obtain w ws ls where p: "p = (w, ws, ls)" using prod_cases3 by blast
    from Cons.prems(1) obtain e1 where e1: "in_order (page_calls w ws ls) e = (0, e1)"
      and rest: "in_order (concat (map (\<lambda>(w, ws, ls). page_calls w ws ls) ps)) e1 = (0, e')"
      by (auto simp only: p list.map concat.simps split_conv in_order_ok)
    have "lines_ok w ls" using Cons.prems(3) p by auto
    from Cons.IH [OF rest page_calls_inv(1) [OF e1 Cons.prems(2) this]] Cons.prems(3)
      page [OF e1 Cons.prems(2)] show ?case by (simp add: p)
  qed simp
  moreover from run obtain e1 e2 where "m2022_qpdl_begin_job e0 j snk ctx = (0, e1)"
    and "in_order (concat (map (\<lambda>(w, ws, ls). page_calls w ws ls) ps)) e1 = (0, e2)"
    unfolding encode_job_def by (auto simp only: in_order_ok)
  ultimately show ?thesis using begin_job_inv lens by blast
qed

end

section \<open>With a sink that does not fail, no call fails\<close>

lemma flush_band_total:
  assumes "page_geom w e" "band_number e \<le> 255"
    and emit: "\<And>e' d. sink e' = sink e \<Longrightarrow> \<exists>e''. emit e' d = (0, e'')"
  shows "\<exists>e'. flush_band e = (0, e')"
proof (cases "\<forall>b \<in> set (rows e). b = 0")
  case True
  then show ?thesis
    using assms(1,2) all_zero_iff [of "rows e"]
    by (simp add: flush_band_def Let_def page_geom_def mult.commute)
next
  case False
  define b where "b = m2022_qpdl_rows_to_band (rows e) (row_bytes w) (band e)"
  define p where "p = band_payload w (rows e)"
  define h where "h = band_header_of w (band_number e) p"
  have b: "length b = 128 * row_bytes w" using assms(1) by (simp add: b_def page_geom_def)
  have enc: "m2022_codec11_encode (Some b) (Some (m2022_codec11_choose_table b))
      (Some (payload_cap e)) = Inr p"
    using band_payload_encode [of "band e" w "rows e"] assms(1) by (simp add: b_def p_def page_geom_def)
  obtain e1 where e1: "emit (e\<lparr>band := b\<rparr>) (m2022_qpdl_write_band_header h) = (0, e1)"
    using emit [of "e\<lparr>band := b\<rparr>"] by auto
  then have "sink e1 = sink e" by (auto simp: emit_def Let_def split: prod.splits if_splits)
  then obtain e2 where e2: "emit e1 p = (0, e2)" using emit by blast
  have full: "(\<forall>i \<in> set [0..<128 * row_bytes w]. rows e ! i = 0) = False"
    using False all_zero_iff [of "rows e"] assms(1) by (simp add: page_geom_def)
  have b': "m2022_qpdl_rows_to_band (rows e) (bytes_per_row e) (band e) = b"
    using assms(1) by (simp add: b_def page_geom_def)
  have size: "bytes_per_row e * 128 = 128 * row_bytes w" "band_width e = (w + 255) div 256 * 256"
    using assms(1) by (simp_all add: page_geom_def)
  have whole: "part 0 (128 * row_bytes w) b = b" using b by (simp add: part_def)
  have h': "\<lparr>bh_number = word_of_nat (band_number e), bh_width = word_of_nat (band_width e),
      bh_height = word_of_nat 128, bh_compression = 17, bh_length = word_of_nat (length p)\<rparr> = h"
    using size by (simp add: h_def band_header_of_def)
  show ?thesis
    unfolding flush_band_def Let_def size(1) full b' if_False
    using assms(2) whole enc e1 e2 by (simp add: h' [simplified])
qed

lemma emit_keeps:
  "emit e d = (rc, e') \<Longrightarrow> sink e' = sink e \<and> in_page e' = in_page e \<and> in_job e' = in_job e"
  by (auto simp: emit_def Let_def split: prod.splits if_splits)

lemma pjl_calls_short:
  assumes "job_valid j"
  shows "\<forall>l \<in> set (pjl_calls j). length l < 256"
proof -
  have plain: "plain_text s n \<Longrightarrow> length s \<le> n" for s n
    by (auto simp: plain_text_def Let_def split: if_splits)
  show ?thesis
    using assms
    by (auto simp: pjl_calls_def job_valid_def CRLF_def dpi_text_def split: option.splits dest!: plain)
qed

context reliable_sink begin

lemma emit_total: "sink e = snk \<Longrightarrow> \<exists>e'. emit e d = (0, e')"
  using reliable [of "sink_ctx e" d] by (cases "snk (sink_ctx e) d") (simp add: emit_def Let_def)

lemma begin_page_total:
  "\<lbrakk>sink e = snk; in_job e; \<not> in_page e; 0 < w; w \<le> 65280;
    m2022_qpdl_encoder_workspace_bytes w \<le> length ws\<rbrakk>
   \<Longrightarrow> \<exists>e'. m2022_qpdl_begin_page e w (Some ws) = (0, e')"
  by (simp add: m2022_qpdl_begin_page_def Let_def emit_total)

lemma write_line_total:
  assumes inv: "page_inv written snk base n0 k0 p0 j w ls e" and lens: "lines_ok w (ls @ [bits])" and "0 < w"
  shows "\<exists>e'. m2022_qpdl_write_line e (Some bits) = (0, e')"
proof -
  define e1 where "e1 = e\<lparr>rows := store_row (lines e mod 128 * bytes_per_row e) (row_bytes_used e)
      (width e) bits (rows e), lines := (lines e + 1) mod 2 ^ 32\<rparr>"
  have step: "m2022_qpdl_write_line e (Some bits)
      = (if lines e1 mod 128 = 0 then flush_band e1 else (0, e1))"
    using inv by (simp add: m2022_qpdl_write_line_def Let_def e1_def page_inv_def)
  have "lines e mod 128 * row_bytes w + (w + 7) div 8 \<le> 128 * row_bytes w"
  proof -
    have "Suc (lines e mod 128) * row_bytes w \<le> 128 * row_bytes w"
      by (intro mult_le_mono1) (simp add: Suc_le_eq)
    then show ?thesis using row_used_le [of w] by (simp only: mult_Suc)
  qed
  then have "page_geom w e1"
    using inv lens by (auto simp: e1_def page_inv_def Let_def page_geom_def lines_ok_def length_store_row)
  moreover have "length ls div 128 < 256" using lens by (intro less_mult_imp_div_less) (simp add: lines_ok_def)
  then have "band_number e1 \<le> 255" using inv by (simp add: e1_def page_inv_def Let_def)
  moreover have "sink e1 = snk" using inv by (simp add: e1_def page_inv_def Let_def)
  ultimately have "\<exists>e'. flush_band e1 = (0, e')"
    by (intro flush_band_total [of w]) (auto intro: emit_total)
  then show ?thesis by (simp add: step)
qed

lemma write_lines_total:
  "\<lbrakk>page_inv written snk base n0 k0 p0 j w done e; 0 < w; lines_ok w (done @ ls)\<rbrakk>
   \<Longrightarrow> \<exists>e'. in_order (map (\<lambda>l e. m2022_qpdl_write_line e (Some l)) ls) e = (0, e')"
proof (induction ls arbitrary: e "done")
  case (Cons l ls)
  have lens: "lines_ok w (done @ [l])" using Cons.prems(3) by (simp add: lines_ok_def)
  obtain e1 where e1: "m2022_qpdl_write_line e (Some l) = (0, e1)"
    using write_line_total [OF Cons.prems(1) lens Cons.prems(2)] by blast
  have "page_inv written snk base n0 k0 p0 j w (done @ [l]) e1"
    using write_line_inv [OF Cons.prems(1) e1] Cons.prems(2,3) by (simp add: lines_ok_def)
  from Cons.IH [OF this Cons.prems(2)] Cons.prems(3) e1 show ?case
    by (auto simp only: list.map in_order_ok append_assoc append_Cons append_Nil)
qed simp

lemma end_page_total:
  assumes inv: "page_inv written snk base n0 k0 p0 j w ls e" and lens: "lines_ok w ls"
  shows "\<exists>e'. m2022_qpdl_end_page e = (0, e')"
proof -
  have snk: "sink e = snk" and geom: "page_geom w e" and inp: "in_page e"
    and num: "band_number e = length ls div 128" "lines e = length ls"
    using inv by (simp_all add: page_inv_def Let_def)
  show ?thesis
  proof (cases "length ls mod 128 = 0")
    case True
    then show ?thesis using inp num snk by (simp add: m2022_qpdl_end_page_def Let_def emit_total)
  next
    case False
    have "length ls \<noteq> 32768" using False by (intro notI) simp
    then have "length ls < 256 * 128" using lens by (simp add: lines_ok_def)
    then have "length ls div 128 < 256" by (intro less_mult_imp_div_less)
    then have "band_number e \<le> 255" using num by simp
    then obtain e1 where e1: "flush_band e = (0, e1)"
      using flush_band_total [OF geom] emit_total snk by metis
    then have "sink e1 = snk"
      using flush_band_ok [OF e1 snk geom \<open>band_number e \<le> 255\<close>] snk by (auto simp: appends_def)
    with e1 inp num False show ?thesis by (simp add: m2022_qpdl_end_page_def Let_def emit_total)
  qed
qed

lemma page_calls_total:
  assumes "job_inv written snk base out j e" "lines_ok w ls" "0 < w" "w \<le> 65280"
    "m2022_qpdl_encoder_workspace_bytes w \<le> length ws"
  shows "\<exists>e'. in_order (page_calls w ws ls) e = (0, e')"
proof -
  have e: "sink e = snk" "in_job e" "\<not> in_page e" using assms(1) by (simp_all add: job_inv_def)
  obtain e1 where e1: "m2022_qpdl_begin_page e w (Some ws) = (0, e1)"
    using begin_page_total [OF e assms(3-5)] by blast
  note inv1 = conjunct1 [OF begin_page_inv [OF e1 e(1)]]
  obtain e2 where e2: "in_order (map (\<lambda>l e. m2022_qpdl_write_line e (Some l)) ls) e1 = (0, e2)"
    using write_lines_total [OF inv1 assms(3), of ls] assms(2) by auto
  note inv2 = write_lines_inv [OF inv1 assms(3) e2, simplified, OF assms(2)]
  obtain e3 where "m2022_qpdl_end_page e2 = (0, e3)"
    using end_page_total [OF inv2 assms(2)] by blast
  with e1 e2 show ?thesis unfolding page_calls_def by (auto simp only: in_order_ok)
qed

lemma pages_total:
  "\<lbrakk>job_inv written snk base out j e;
    \<forall>(w, ws, ls) \<in> set ps. lines_ok w ls \<and> 0 < w \<and> w \<le> 65280
      \<and> m2022_qpdl_encoder_workspace_bytes w \<le> length ws\<rbrakk>
   \<Longrightarrow> \<exists>e'. in_order (concat (map (\<lambda>(w, ws, ls). page_calls w ws ls) ps)) e = (0, e')"
proof (induction ps arbitrary: e out)
  case (Cons p ps)
  obtain w ws ls where p: "p = (w, ws, ls)" using prod_cases3 by blast
  then obtain e1 where e1: "in_order (page_calls w ws ls) e = (0, e1)"
    using page_calls_total [OF Cons.prems(1)] Cons.prems(2) by fastforce
  have "job_inv written snk base (out @ page_stream j w ls) j e1"
    using page_calls_inv(1) [OF e1 Cons.prems(1)] Cons.prems(2) p by auto
  from Cons.IH [OF this] Cons.prems(2) obtain e2 where
      "in_order (concat (map (\<lambda>(w, ws, ls). page_calls w ws ls) ps)) e1 = (0, e2)" by auto
  with e1 have "in_order (concat (map (\<lambda>(w, ws, ls). page_calls w ws ls) (p # ps))) e = (0, e2)"
    unfolding p by (simp only: list.map concat.simps split_conv in_order_append_ok) blast
  then show ?case by blast
qed simp

lemma emit_all_total:
  "\<lbrakk>\<forall>l \<in> set ls. length l < 256; sink e = snk\<rbrakk>
   \<Longrightarrow> \<exists>e'. in_order (map (\<lambda>line e. emitf e line) ls) e = (0, e')"
proof (induction ls arbitrary: e)
  case (Cons l ls)
  obtain e1 where e1: "emit e l = (0, e1)" using emit_total Cons.prems(2) by blast
  then have "sink e1 = snk" using emit_keeps Cons.prems(2) by metis
  with Cons e1 obtain e' where "in_order (map (\<lambda>line e. emitf e line) ls) e1 = (0, e')" by auto
  moreover have "emitf e l = (0, e1)" using e1 Cons.prems(1) by (simp add: emitf_def)
  ultimately have "in_order (map (\<lambda>line e. emitf e line) (l # ls)) e = (0, e')"
    by (simp only: list.map in_order_Cons_ok) blast
  then show ?case by blast
qed simp

lemma encode_job_total:
  assumes "job_valid j"
    and ps: "\<forall>(w, ws, ls) \<in> set ps. lines_ok w ls \<and> 0 < w \<and> w \<le> 65280
      \<and> m2022_qpdl_encoder_workspace_bytes w \<le> length ws"
  shows "\<exists>e. encode_job e0 j snk ctx ps = (0, e)"
proof -
  define z where "z = (encoder_zero j snk ctx)\<lparr>in_job := True\<rparr>"
  have z: "sink z = snk" by (simp add: z_def encoder_zero_def)
  obtain e1 where e1: "emit z M2022_QPDL_UEL = (0, e1)" using emit_total [OF z] by blast
  then have "sink e1 = snk" using emit_keeps z by metis
  then obtain e2 where e2: "in_order (map (\<lambda>line e. emitf e line) (pjl_calls j)) e1 = (0, e2)"
    using emit_all_total [OF pjl_calls_short [OF assms(1)]] by blast
  have started: "m2022_qpdl_begin_job e0 j snk ctx = (0, e2)"
    unfolding m2022_qpdl_begin_job_def z_def [symmetric]
    using assms(1) e1 e2 by (simp only: in_order_Cons_ok if_False simp_thms) blast
  note inv = conjunct1 [OF begin_job_inv [OF started]]
  obtain e3 where e3: "in_order (concat (map (\<lambda>(w, ws, ls). page_calls w ws ls) ps)) e2 = (0, e3)"
    using pages_total [OF inv ps] by blast
  have "\<forall>(w, ws, ls) \<in> set ps. lines_ok w ls" using ps by auto
  from pages_inv [OF e3 inv this] have e3': "sink e3 = snk" "in_job e3" "\<not> in_page e3"
    by (simp_all add: job_inv_def)
  obtain e4 where e4: "emit (e3\<lparr>in_job := False\<rparr>) [9] = (0, e4)"
    using emit_total [of "e3\<lparr>in_job := False\<rparr>"] e3' by auto
  then have "sink e4 = snk" using emit_keeps e3' by fastforce
  then obtain e5 where "emit e4 M2022_QPDL_UEL = (0, e5)" using emit_total by blast
  with e4 e3' have "m2022_qpdl_end_job e3 = (0, e5)"
    by (simp add: m2022_qpdl_end_job_def)
  with started e3 show ?thesis
    unfolding encode_job_def
    by (intro exI [of _ e5]) (simp only: in_order_Cons_ok in_order_append_ok in_order_Nil_ok, blast)
qed

end



end
