(* ===== verification/Cmd_Decode.thy ===== *)
theory Cmd_Decode
  imports Qpdl_Band Qpdl_Walk Codec11_Decode
begin

text \<open>
  Model of src/cli/cmd_decode.c without its printing: the callbacks of \<open>decode\<close>, the page they
  assemble and the exit status. The callbacks run on the walker's events in order. Buffers have the
  size they were allocated with, and a callback that would touch a byte outside its buffer is
  \<open>None\<close>: the C program has undefined behaviour there. \<open>alloc k n\<close> says whether the \<open>k\<close>-th allocation
  of the run, of \<open>n\<close> bytes, succeeds, \<open>writable\<close> whether \<open>fopen\<close> of the page's PBM does; the files
  written are the list \<open>pbms\<close>.
\<close>

abbreviation (input) MAX_BANDS :: nat where "MAX_BANDS \<equiv> 256"

record pbm_file =
  pbm_page :: nat
  pbm_width :: u16
  pbm_height :: nat
  pbm_data :: bytes

record decode_ctx =
  dc_pages :: nat
  bands_in_page :: nat
  dc_errors :: nat
  dc_band_width :: u16
  max_band :: int
  page_rows :: "bytes option"
  dc_bytes_per_row :: nat
  band_buf :: "nat option"
  distinct_tables :: nat
  last_table :: "u16 list"
  have_table :: bool
  dc_allocs :: nat
  pbms :: "pbm_file list"

definition decode_ctx_zero :: decode_ctx where
  "decode_ctx_zero =
    \<lparr>dc_pages = 0, bands_in_page = 0, dc_errors = 0, dc_band_width = 0, max_band = 0,
     page_rows = None, dc_bytes_per_row = 0, band_buf = None, distinct_tables = 0,
     last_table = replicate M2022_CODEC11_TABLE_ENTRIES 0, have_table = False, dc_allocs = 0, pbms = []\<rparr>"

definition on_page :: "decode_ctx \<Rightarrow> decode_ctx" where
  "on_page d = d\<lparr>dc_pages := dc_pages d + 1, bands_in_page := 0, max_band := -1,
                 dc_band_width := 0, have_table := False\<rparr>"

text \<open>
  The (re)allocation at a new row size: \<open>malloc\<close> of \<open>band_buf\<close> and of \<open>rows_buf\<close>, which is not used
  but must be there, and \<open>calloc\<close> of the page when bitmaps are wanted. False is the early return.
\<close>

definition band_buffers ::
  "(nat \<Rightarrow> nat \<Rightarrow> bool) \<Rightarrow> bool \<Rightarrow> nat \<Rightarrow> nat \<Rightarrow> decode_ctx \<Rightarrow> bool \<times> decode_ctx" where
  "band_buffers alloc pbm bpr expect d =
    (if band_buf d = None \<or> dc_bytes_per_row d \<noteq> bpr then
       let k = dc_allocs d
       in (alloc k expect \<and> alloc (k + 1) expect,
           d\<lparr>dc_bytes_per_row := bpr,
             dc_allocs := (if pbm then k + 3 else k + 2),
             band_buf := (if alloc k expect then Some expect else None),
             page_rows := (if pbm \<and> alloc (k + 2) (MAX_BANDS * expect)
                           then Some (replicate (MAX_BANDS * expect) 0) else None)\<rparr>)
     else (True, d))"

definition on_band ::
  "(nat \<Rightarrow> nat \<Rightarrow> bool) \<Rightarrow> bool \<Rightarrow> band_header \<Rightarrow> bytes \<Rightarrow> decode_ctx \<Rightarrow> decode_ctx option" where
  "on_band alloc pbm h payload d0 =
    (let bpr = unat (bh_width h) div 8;
         expect = bpr * unat (bh_height h);
         d1 = d0\<lparr>bands_in_page := bands_in_page d0 + 1,
                 dc_band_width := (if dc_band_width d0 = 0 then bh_width h else dc_band_width d0)\<rparr>
     in if bh_compression h \<noteq> M2022_QPDL_COMPRESSION_0X11 then Some d1
        else
          let (allocated, d2) = band_buffers alloc pbm bpr expect d1
          in if \<not> allocated then Some (d2\<lparr>dc_errors := dc_errors d2 + 1\<rparr>)
             else
               let (rc, out, info) = m2022_codec11_decode (Some payload) (Some expect);
                   buf_len = the (band_buf d2);
                   d3 = (if \<not> have_table d2 \<or> last_table d2 \<noteq> ci_table info
                         then d2\<lparr>distinct_tables := distinct_tables d2 + 1,
                                 last_table := ci_table info, have_table := True\<rparr>
                         else d2)
               in if length out > buf_len then None
                  else if rc \<noteq> None \<or> length out \<noteq> expect
                  then Some (d3\<lparr>dc_errors := dc_errors d3 + 1\<rparr>)
                  else case page_rows d3 of
                    None \<Rightarrow> Some d3
                  | Some pr \<Rightarrow>
                      let off = unat (bh_number h) * expect;
                          size = M2022_QPDL_BAND_LINES * bpr
                      in if size > buf_len \<or> off + size > length pr then None
                         else Some (d3\<lparr>
                           page_rows := Some (take off pr
                             @ m2022_qpdl_band_to_rows out bpr (part off size pr)
                             @ drop (off + size) pr),
                           max_band := max (int (unat (bh_number h))) (max_band d3)\<rparr>))"

definition write_pbm :: "(nat \<Rightarrow> bool) \<Rightarrow> decode_ctx \<Rightarrow> decode_ctx option" where
  "write_pbm writable d =
    (case page_rows d of
       None \<Rightarrow> Some d
     | Some pr \<Rightarrow>
         if max_band d < 0 then Some d
         else
           let height = nat (max_band d + 1) * M2022_QPDL_BAND_LINES
           in if \<not> writable (dc_pages d) then Some (d\<lparr>dc_errors := dc_errors d + 1\<rparr>)
              else
                let size = height * dc_bytes_per_row d;
                    clear = MAX_BANDS * M2022_QPDL_BAND_LINES * dc_bytes_per_row d
                in if size > length pr \<or> clear > length pr then None
                   else Some (d\<lparr>
                     pbms := pbms d @ [\<lparr>pbm_page = dc_pages d, pbm_width = dc_band_width d,
                                        pbm_height = height, pbm_data = take size pr\<rparr>],
                     page_rows := Some (replicate clear 0 @ drop clear pr)\<rparr>))"

fun on_event ::
  "(nat \<Rightarrow> nat \<Rightarrow> bool) \<Rightarrow> (nat \<Rightarrow> bool) \<Rightarrow> bool \<Rightarrow> walk_event \<Rightarrow> decode_ctx \<Rightarrow> decode_ctx option" where
  "on_event alloc writable pbm (PjlLine _ _) d = Some d"
| "on_event alloc writable pbm (PageEv _ _) d = Some (on_page d)"
| "on_event alloc writable pbm (BandEv _ h payload) d = on_band alloc pbm h payload d"
| "on_event alloc writable pbm (EndPageEv _ _) d = write_pbm writable d"
| "on_event alloc writable pbm (EndJobEv _) d = Some d"

primrec on_events ::
  "(nat \<Rightarrow> nat \<Rightarrow> bool) \<Rightarrow> (nat \<Rightarrow> bool) \<Rightarrow> bool \<Rightarrow> walk_event list \<Rightarrow> decode_ctx \<Rightarrow> decode_ctx option" where
  "on_events alloc writable pbm [] d = Some d"
| "on_events alloc writable pbm (ev # evs) d =
    (case on_event alloc writable pbm ev d of
       None \<Rightarrow> None
     | Some d' \<Rightarrow> on_events alloc writable pbm evs d')"

text \<open>The exit status and what was assembled, for the bytes of a file that could be read.\<close>

definition cmd_decode ::
  "(nat \<Rightarrow> nat \<Rightarrow> bool) \<Rightarrow> (nat \<Rightarrow> bool) \<Rightarrow> bool \<Rightarrow> bytes \<Rightarrow> (int \<times> decode_ctx) option" where
  "cmd_decode alloc writable pbm data =
    (let (evs, r) = m2022_qpdl_walk data
     in case on_events alloc writable pbm evs decode_ctx_zero of
          None \<Rightarrow> None
        | Some d \<Rightarrow>
            let d' = (if r \<noteq> None then d\<lparr>dc_errors := dc_errors d + 1\<rparr> else d)
            in Some (if dc_errors d' = 0 then 0 else 1, d'))"

lemma on_events_append:
  "on_events alloc writable pbm (xs @ ys) d =
     (case on_events alloc writable pbm xs d of
        None \<Rightarrow> None
      | Some d' \<Rightarrow> on_events alloc writable pbm ys d')"
  by (induction xs arbitrary: d) (auto split: option.splits)

end
