(* ===== verification/Qpdl_Reading.thy ===== *)
theory Qpdl_Reading
  imports Qpdl_Stream Cmd_Decode
begin

text \<open>
  Reading a job back: what the walker of src/qpdl/walk.c reports on the stream the encoder of
  src/qpdl/encode.c writes. The envelope is a list of text lines of which only the last enters the
  language; every page is its header, the bands with ink in them and its end record.
\<close>

section \<open>The text lines of a job\<close>

text \<open>The lines of the envelope as the walker delivers them.\<close>

definition pjl_texts :: "qpdl_job \<Rightarrow> bytes list" where
  "pjl_texts j =
    (case service_date j of None \<Rightarrow> [] | Some s \<Rightarrow> [ascii ''@PJL DEFAULT SERVICEDATE='' @ s])
    @ [ascii ''@PJL COMMENT Model Name : Samsung M2020 Series'']
    @ (case producer j of None \<Rightarrow> [] | Some s \<Rightarrow> [ascii ''@PJL COMMENT Producer : '' @ s])
    @ [ascii ''@PJL SET XIGNOREFF='' @ ascii (if skip_blank_pages j then ''ON'' else ''OFF''), []]
    @ [ascii ''@PJL SET RESOLUTION = '' @ dpi_text (dpi j)]
    @ (if dpi j = 600 then [ascii ''@PJL SET BITSPERPIXEL = 1''] else [])
    @ [ascii ''@PJL SET PAPERTYPE = '' @ the (paper_type j)]
    @ [ascii ''@PJL SET DUPLEX = '' @ ascii (if duplex j = 0 then ''OFF'' else ''MANUAL'')]
    @ (if duplex j \<noteq> 0
       then [ascii ''@PJL SET BINDING = '' @ ascii (if duplex j = 1 then ''LONGEDGE'' else ''SHORTEDGE'')]
       else [])"

definition enter_line :: bytes where
  "enter_line = ascii ''@PJL ENTER LANGUAGE=QPDL''"

text \<open>The UEL is glued to the first line.\<close>

definition job_lines :: "qpdl_job \<Rightarrow> bytes list" where
  "job_lines j = (case pjl_texts j @ [enter_line] of l # ls \<Rightarrow> (M2022_QPDL_UEL @ l) # ls | [] \<Rightarrow> [])"

definition crlf_lines :: "bytes list \<Rightarrow> bytes" where
  "crlf_lines ls = concat (map (\<lambda>l. l @ CRLF) ls)"

lemma crlf_lines_simps [simp]:
  "crlf_lines [] = []"
  "crlf_lines (l # ls) = l @ CRLF @ crlf_lines ls"
  "crlf_lines (ks @ ls) = crlf_lines ks @ crlf_lines ls"
  by (simp_all add: crlf_lines_def)

lemma pjl_calls_texts: "concat (pjl_calls j) = crlf_lines (pjl_texts j @ [enter_line])"
  by (simp add: pjl_calls_def pjl_texts_def enter_line_def split: option.split)

lemma pjl_texts_not_Nil: "pjl_texts j \<noteq> []"
  by (simp add: pjl_texts_def)

lemma envelope_lines: "envelope j = crlf_lines (job_lines j)"
  using pjl_texts_not_Nil [of j]
  by (cases "pjl_texts j") (auto simp: envelope_def pjl_calls_texts job_lines_def)

text \<open>
  No line before the last enters the language: a comment or paper type that holds the words
  \<open>ENTER LANGUAGE\<close> would make every reader of the stream, this walker included, leave the envelope
  early.
\<close>

definition quiet_job :: "qpdl_job \<Rightarrow> bool" where
  "quiet_job j \<longleftrightarrow> (\<forall>l \<in> set (butlast (job_lines j)). \<not> memmem l ENTER_LANGUAGE)"

fun line_events :: "nat \<Rightarrow> bytes list \<Rightarrow> walk_event list" where
  "line_events pos [] = []"
| "line_events pos (l # ls) = PjlLine pos l # line_events (pos + length l + 2) ls"

lemma emit_lines_quiet:
  "\<lbrakk>drop pos data = crlf_lines (ls @ [l]) @ rest; \<forall>k \<in> set (ls @ [l]). line_ok k;
    \<forall>k \<in> set ls. \<not> memmem k ENTER_LANGUAGE; 19 \<le> length l; memmem l ENTER_LANGUAGE\<rbrakk>
   \<Longrightarrow> emit_lines data pos True =
     (line_events pos (ls @ [l]), pos + length (crlf_lines (ls @ [l])), True)"
proof (induction ls arbitrary: pos)
  case Nil
  then have "drop pos data = l @ [13, 10] @ rest" by (simp add: CRLF_def)
  from emit_line [OF this, of True] Nil show ?case by (simp add: CRLF_def)
next
  case (Cons k ls)
  have split: "drop pos data = k @ [13, 10] @ crlf_lines (ls @ [l]) @ rest"
    using Cons.prems(1) by (simp add: CRLF_def)
  have next_pos: "drop (pos + length k + 2) data = crlf_lines (ls @ [l]) @ rest"
  proof -
    have "drop (pos + length k + 2) data = drop (length k + 2) (drop pos data)"
      by (simp add: add.commute add.left_commute)
    then show ?thesis unfolding split by simp
  qed
  have "emit_lines data (pos + length k + 2) True =
    (line_events (pos + length k + 2) (ls @ [l]),
     pos + length k + 2 + length (crlf_lines (ls @ [l])), True)"
    using Cons.IH [OF next_pos] Cons.prems by simp
  with emit_line [OF split, of True] Cons.prems show ?case by (simp add: CRLF_def)
qed

section \<open>Every line of a valid job is text\<close>

lemma line_ok_append: "line_ok a \<Longrightarrow> line_ok b \<Longrightarrow> length (a @ b) < 4095 \<Longrightarrow> line_ok (a @ b)"
  by (auto simp: line_ok_def)

lemma text_byte_range: "\<not> (b < 0x20 \<or> b > 0x7e) \<Longrightarrow> is_text_byte b \<and> b \<noteq> 10 \<and> b \<noteq> (13 :: u8)"
  by (auto simp: is_text_byte_def word_less_nat_alt word_le_nat_alt)

lemma plain_text_line:
  assumes "plain_text s n" "n < 4095"
  shows "line_ok s \<and> length s \<le> n"
proof -
  have len: "length s \<le> n" and range: "i < length s \<Longrightarrow> \<not> (s ! i < 0x20 \<or> s ! i > 0x7e)" for i
    using assms(1) by (auto simp: plain_text_def Let_def min_def split: if_splits)
  have "is_text_byte b \<and> b \<noteq> 10 \<and> b \<noteq> 13" if "b \<in> set s" for b
  proof -
    from that obtain i where "i < length s" "b = s ! i" by (metis in_set_conv_nth)
    with text_byte_range [OF range [of i]] show ?thesis by simp
  qed
  with len assms(2) show ?thesis by (simp add: line_ok_def)
qed

lemma ascii_lines_ok [simp]:
  "line_ok (ascii ''@PJL DEFAULT SERVICEDATE='')"
  "line_ok (ascii ''@PJL COMMENT Model Name : Samsung M2020 Series'')"
  "line_ok (ascii ''@PJL COMMENT Producer : '')" "line_ok (ascii ''@PJL SET XIGNOREFF='')"
  "line_ok (ascii ''@PJL SET RESOLUTION = '')" "line_ok (ascii ''@PJL SET BITSPERPIXEL = 1'')"
  "line_ok (ascii ''@PJL SET PAPERTYPE = '')" "line_ok (ascii ''@PJL SET DUPLEX = '')"
  "line_ok (ascii ''@PJL SET BINDING = '')" "line_ok (ascii ''ON'')" "line_ok (ascii ''OFF'')"
  "line_ok (ascii ''MANUAL'')" "line_ok (ascii ''LONGEDGE'')" "line_ok (ascii ''SHORTEDGE'')"
  "line_ok (ascii ''600'')" "line_ok (ascii ''1200'')" "line_ok enter_line" "line_ok []"
  by (simp_all add: line_ok_def ascii_def is_text_byte_def enter_line_def)

lemma pjl_texts_ok:
  assumes "job_valid j"
  shows "\<forall>l \<in> set (pjl_texts j). line_ok l \<and> length l < 256"
proof -
  have plain: "plain_text s n \<Longrightarrow> n < 4095 \<Longrightarrow> line_ok s \<and> length s \<le> n" for s n
    by (rule plain_text_line)
  have date: "line_ok s \<and> length s \<le> 8" if "service_date j = Some s" for s
    using assms that plain [of s 8] by (simp add: job_valid_def)
  have prod: "line_ok s \<and> length s \<le> 128" if "producer j = Some s" for s
    using assms that plain [of s 128] by (simp add: job_valid_def)
  obtain pt where pt: "paper_type j = Some pt" "line_ok pt \<and> length pt \<le> 32"
    using assms plain [of _ 32] by (auto simp: job_valid_def split: option.splits)
  have date': "\<forall>s. service_date j = Some s \<longrightarrow> line_ok s \<and> length s \<le> 8"
    and prod': "\<forall>s. producer j = Some s \<longrightarrow> line_ok s \<and> length s \<le> 128"
    using date prod by blast+
  show ?thesis
    unfolding pjl_texts_def dpi_text_def set_append ball_Un
    using date' prod' pt
    by (cases "service_date j"; cases "producer j") (simp_all add: line_ok_append)
qed

lemma job_lines_ok:
  assumes "job_valid j"
  shows "\<forall>l \<in> set (job_lines j). line_ok l"
proof (cases "pjl_texts j")
  case Nil
  with pjl_texts_not_Nil show ?thesis by blast
next
  case (Cons l ls)
  with pjl_texts_ok [OF assms] have "line_ok l" "length l < 256" "\<forall>k \<in> set ls. line_ok k" by auto
  then show ?thesis
    using line_ok_append [of M2022_QPDL_UEL l] by (simp add: job_lines_def Cons)
qed

lemma job_lines_enter: "job_lines j = butlast (job_lines j) @ [enter_line]"
  using pjl_texts_not_Nil [of j] by (cases "pjl_texts j") (auto simp: job_lines_def butlast_append)

lemma enter_line_facts: "19 \<le> length enter_line" "memmem enter_line ENTER_LANGUAGE"
  by (simp_all add: enter_line_def ENTER_LANGUAGE_def ascii_def)

lemma walk_envelope:
  assumes "job_valid j" "quiet_job j" "data = envelope j @ rest"
  shows "emit_lines data 0 True = (line_events 0 (job_lines j), length (envelope j), True)"
proof -
  have "drop 0 data = crlf_lines (butlast (job_lines j) @ [enter_line]) @ rest"
    using assms(3) job_lines_enter [of j] by (simp add: envelope_lines)
  from emit_lines_quiet [OF this] job_lines_ok [OF assms(1)] assms(2) job_lines_enter [of j]
    enter_line_facts
  show ?thesis by (simp add: quiet_job_def envelope_lines)
qed

section \<open>The records\<close>

function band_events :: "nat \<Rightarrow> nat \<Rightarrow> nat \<Rightarrow> bytes list \<Rightarrow> walk_event list" where
  "band_events pos w k ls =
    (if ls = [] then []
     else
       let rs = band_rows w (take 128 ls)
       in (if \<forall>b \<in> set rs. b = 0 then []
           else [BandEv pos (band_header_of w k (band_payload w rs)) (band_payload w rs)])
          @ band_events (pos + length (band_record w k rs)) w (Suc k) (drop 128 ls))"
  by pat_completeness auto
termination by (relation "measure (\<lambda>(pos, w, k, ls). length ls)") auto

declare band_events.simps [simp del]

definition page_events :: "qpdl_job \<Rightarrow> nat \<Rightarrow> nat \<Rightarrow> bytes list \<Rightarrow> walk_event list" where
  "page_events j pos w ls =
     PageEv pos (page_header_of j) # band_events (pos + 17) w 0 ls
     @ [EndPageEv (pos + 17 + length (band_records w 0 ls)) (copies j)]"

fun pages_events :: "qpdl_job \<Rightarrow> nat \<Rightarrow> (nat \<times> bytes list) list \<Rightarrow> walk_event list" where
  "pages_events j pos [] = []"
| "pages_events j pos ((w, ls) # ps) =
     page_events j pos w ls @ pages_events j (pos + length (page_stream j w ls)) ps"

text \<open>The payload length fits its 32-bit field.\<close>

lemma band_payload_length:
  assumes "w \<le> 65280"
  shows "unat (word_of_nat (length (band_payload w rs)) :: u32) = length (band_payload w rs)"
proof -
  define b where "b = m2022_qpdl_rows_to_band rs (row_bytes w) (replicate (128 * row_bytes w) 0)"
  have b: "length b = 128 * row_bytes w" by (simp add: b_def)
  obtain p where "m2022_codec11_encode (Some b) (Some (m2022_codec11_choose_table b))
      (Some (m2022_codec11_encode_bound (128 * row_bytes w))) = Inr p"
    "length p \<le> m2022_codec11_encode_bound (128 * row_bytes w)"
    using encode_fits [of b "m2022_codec11_encode_bound (128 * row_bytes w)"] b by auto
  then have "length (band_payload w rs) \<le> m2022_codec11_encode_bound (128 * row_bytes w)"
    by (simp add: band_payload_def Let_def flip: b_def)
  also have "\<dots> \<le> 140 + 128 * row_bytes w + (128 * row_bytes w + 127)"
    by (simp add: m2022_codec11_encode_bound_def)
  also have "row_bytes w \<le> 8192"
  proof -
    have "(w + 255) div 256 \<le> (65280 + 255) div 256" using assms by (intro div_le_mono) simp
    then show ?thesis by (simp add: row_bytes_def)
  qed
  finally show ?thesis by (simp add: unat_of_nat take_bit_nat_eq_self)
qed

lemma drop_past: "drop pos data = a @ rest \<Longrightarrow> drop (pos + length a) data = rest"
  by (metis append_eq_conv_conj drop_drop add.commute)

lemma walk_bands:
  "\<lbrakk>drop pos data = band_records w k ls @ rest; w \<le> 65280\<rbrakk> \<Longrightarrow>
   walk_records data pos =
     (band_events pos w k ls @ fst (walk_records data (pos + length (band_records w k ls))),
      snd (walk_records data (pos + length (band_records w k ls))))"
proof (induction pos w k ls rule: band_events.induct)
  case (1 pos w k ls)
  show ?case
  proof (cases "ls = []")
    case True
    then show ?thesis by (simp add: band_events.simps [of _ _ _ "[]"] band_records.simps [of _ _ "[]"])
  next
    case False
    define rs where "rs = band_rows w (take 128 ls)"
    define p where "p = band_payload w rs"
    define h where "h = band_header_of w k p"
    have recs: "band_records w k ls = band_record w k rs @ band_records w (Suc k) (drop 128 ls)"
      using False by (simp add: band_records.simps [of w k ls] rs_def)
    have evs: "band_events pos w k ls = (if \<forall>b \<in> set rs. b = 0 then [] else [BandEv pos h p])
        @ band_events (pos + length (band_record w k rs)) w (Suc k) (drop 128 ls)"
      using False by (simp add: band_events.simps [of pos w k ls] rs_def p_def h_def Let_def)
    define pos1 where "pos1 = pos + length (band_record w k rs)"
    have rest1: "drop pos1 data = band_records w (Suc k) (drop 128 ls) @ rest"
      unfolding pos1_def using "1.prems"(1) by (intro drop_past) (simp add: recs)
    note IH = "1.IH" [OF False rs_def, folded pos1_def, OF rest1 "1.prems"(2)]
    show ?thesis
    proof (cases "\<forall>b \<in> set rs. b = 0")
      case True
      then have "band_record w k rs = []" unfolding band_record_def by (rule if_P)
      then show ?thesis using IH by (simp add: recs evs True pos1_def)
    next
      case nonblank: False
      then have rec: "band_record w k rs = m2022_qpdl_write_band_header h @ p"
        unfolding band_record_def h_def p_def by (rule if_not_P)
      have len: "length p = unat (bh_length h)"
        using band_payload_length [OF "1.prems"(2), of rs] by (simp add: h_def p_def band_header_of_def)
      have "drop pos data = m2022_qpdl_write_band_header h @ p
          @ (band_records w (Suc k) (drop 128 ls) @ rest)"
        using "1.prems"(1) by (simp add: recs rec)
      from walk_band [OF this len] IH show ?thesis
        using nonblank by (simp add: recs evs rec pos1_def add.assoc)
    qed
  qed
qed

lemma walk_page_stream:
  assumes "drop pos data = page_stream j w ls @ rest" "w \<le> 65280"
  shows "walk_records data pos =
    (page_events j pos w ls @ fst (walk_records data (pos + length (page_stream j w ls))),
     snd (walk_records data (pos + length (page_stream j w ls))))"
proof -
  define n where "n = length (band_records w 0 ls)"
  have d0: "drop pos data = m2022_qpdl_write_page_header (page_header_of j)
      @ (band_records w 0 ls @ m2022_qpdl_write_end_page (copies j) @ rest)"
    using assms(1) by (simp add: page_stream_def)
  have d1: "drop (pos + 17) data = band_records w 0 ls @ (m2022_qpdl_write_end_page (copies j) @ rest)"
    using drop_past [OF d0] by simp
  have d2: "drop (pos + 17 + n) data = m2022_qpdl_write_end_page (copies j) @ rest"
    using drop_past [OF d1] by (simp add: n_def)
  have "pos + length (page_stream j w ls) = pos + 17 + n + 3" by (simp add: page_stream_def n_def)
  then show ?thesis
    using walk_page [OF d0] walk_bands [OF d1 assms(2)] walk_end_page [OF d2]
    by (simp only: page_events_def n_def) simp
qed

lemma walk_pages:
  "\<lbrakk>drop pos data = concat (map (\<lambda>(w, ls). page_stream j w ls) ps) @ 9 # M2022_QPDL_UEL;
    \<forall>(w, ls) \<in> set ps. w \<le> 65280\<rbrakk> \<Longrightarrow>
   \<exists>pos'. walk_records data pos =
     (pages_events j pos ps @ [EndJobEv pos', PjlLine (pos' + 1) M2022_QPDL_UEL], None)"
proof (induction ps arbitrary: pos)
  case Nil
  then have "drop pos data = 9 # M2022_QPDL_UEL" by simp
  from walk_end_job [OF this] show ?case by auto
next
  case (Cons p ps)
  obtain w ls where p: "p = (w, ls)" by force
  have d: "drop pos data = page_stream j w ls
      @ (concat (map (\<lambda>(w, ls). page_stream j w ls) ps) @ 9 # M2022_QPDL_UEL)"
    using Cons.prems(1) by (simp add: p)
  have "w \<le> 65280" using Cons.prems(2) p by auto
  from walk_page_stream [OF d this] Cons.IH [OF drop_past [OF d]] Cons.prems(2) show ?case
    by (auto simp: p)
qed

lemma walk_job_stream:
  assumes "job_valid j" "quiet_job j" "\<forall>(w, ls) \<in> set ps. w \<le> 65280"
  shows "\<exists>pos. m2022_qpdl_walk (job_stream j ps) =
    (line_events 0 (job_lines j) @ pages_events j (length (envelope j)) ps
       @ [EndJobEv pos, PjlLine (pos + 1) M2022_QPDL_UEL], None)"
proof -
  have data: "job_stream j ps = envelope j
      @ (concat (map (\<lambda>(w, ls). page_stream j w ls) ps) @ 9 # M2022_QPDL_UEL)"
    by (simp add: job_stream_def)
  have "drop (length (envelope j)) (job_stream j ps)
      = concat (map (\<lambda>(w, ls). page_stream j w ls) ps) @ 9 # M2022_QPDL_UEL"
    by (simp add: data)
  from walk_pages [OF this assms(3)] walk_envelope [OF assms(1,2) data] show ?thesis
    by (auto simp: m2022_qpdl_walk_def Let_def)
qed

end
