(* ===== verification/Qpdl_Roundtrip.thy ===== *)
theory Qpdl_Roundtrip
  imports Qpdl_Reading
begin

text \<open>
  The encoder of src/qpdl/encode.c against the reader of src/cli/cmd_decode.c: decoding a job gives
  back its pages, block of 128 rows by block, blank blocks included; and the reader stays inside its
  buffers on every file whose bands have 128 lines.
\<close>

section \<open>One band\<close>

lemma decode_band_payload:
  assumes "length rs = 128 * row_bytes w"
  shows "\<exists>info. m2022_codec11_decode (Some (band_payload w rs)) (Some (row_bytes w * 128))
    = (None, m2022_qpdl_rows_to_band rs (row_bytes w) (replicate (128 * row_bytes w) 0), info)"
proof -
  define b where "b = m2022_qpdl_rows_to_band rs (row_bytes w) (replicate (128 * row_bytes w) 0)"
  have len: "length b = 128 * row_bytes w" by (simp add: b_def)
  have "m2022_codec11_encode (Some b) (Some (m2022_codec11_choose_table b))
      (Some (m2022_codec11_encode_bound (128 * row_bytes w))) = Inr (band_payload w rs)"
    unfolding b_def by (rule band_payload_encode) simp
  from encode_payload [OF this] obtain raw ts where "raw \<le> 128" "raw \<le> length b"
    "band_payload w rs = payload_of b (m2022_codec11_choose_table b) raw ts"
    "\<forall>t \<in> set ts. wf_token t" "expand (m2022_codec11_choose_table b) ts (take raw b) = Some b"
    by metis
  then show ?thesis
    using decode_payload_of [of "m2022_codec11_choose_table b" raw b ts "row_bytes w * 128"]
      choose_table_usable [of b] len
    by (auto simp: b_def)
qed

text \<open>
  Buffers sized by full bands: the state every job of the encoder keeps the reader in. \<open>page_bits\<close>
  is the page buffer for a row size, white when it is not allocated yet or allocated for another.
\<close>

definition buffers_ok :: "decode_ctx \<Rightarrow> bool" where
  "buffers_ok d \<longleftrightarrow> (\<forall>n. band_buf d = Some n \<longrightarrow> n = 128 * dc_bytes_per_row d
     \<and> (\<exists>pr. page_rows d = Some pr \<and> length pr = 256 * n)) \<and> (band_buf d = None \<longrightarrow> page_rows d = None)"

definition page_bits :: "nat \<Rightarrow> decode_ctx \<Rightarrow> bytes" where
  "page_bits bpr d = (if band_buf d \<noteq> None \<and> dc_bytes_per_row d = bpr then the (page_rows d)
     else replicate (256 * (128 * bpr)) 0)"

abbreviation (input) always :: "nat \<Rightarrow> bool" where "always \<equiv> \<lambda>_. True"
abbreviation (input) enough :: "nat \<Rightarrow> nat \<Rightarrow> bool" where "enough \<equiv> \<lambda>_ _. True"

lemma on_band_step:
  assumes "buffers_ok d" "w \<le> 65280" "k \<le> 255" "length rs = 128 * row_bytes w" "0 < w"
  shows "\<exists>d'. on_band enough True (band_header_of w k (band_payload w rs)) (band_payload w rs) d = Some d'
    \<and> buffers_ok d' \<and> band_buf d' \<noteq> None \<and> dc_bytes_per_row d' = row_bytes w
    \<and> page_bits (row_bytes w) d' = take (k * (128 * row_bytes w)) (page_bits (row_bytes w) d) @ rs
        @ drop (Suc k * (128 * row_bytes w)) (page_bits (row_bytes w) d)
    \<and> max_band d' = max (int k) (max_band d)
    \<and> dc_band_width d' = (if dc_band_width d = 0 then word_of_nat ((w + 255) div 256 * 256)
        else dc_band_width d)
    \<and> dc_errors d' = dc_errors d \<and> dc_pages d' = dc_pages d \<and> pbms d' = pbms d"
proof -
  define bpr where "bpr = row_bytes w"
  define h where "h = band_header_of w k (band_payload w rs)"
  define b where "b = m2022_qpdl_rows_to_band rs bpr (replicate (128 * bpr) 0)"
  obtain info where dec: "m2022_codec11_decode (Some (band_payload w rs)) (Some (bpr * 128)) = (None, b, info)"
    using decode_band_payload [OF assms(4)] by (auto simp: bpr_def b_def)
  have len_b: "length b = bpr * 128" by (simp add: b_def)
  have rs: "m2022_qpdl_band_to_rows b bpr x = rs" if "length x = 128 * bpr" for x
    unfolding b_def using that assms(4) by (intro rows_band_rows) (auto simp: bpr_def)
  have "(w + 255) div 256 \<le> (65280 + 255) div 256" using assms(2) by (intro div_le_mono) simp
  moreover define bw where "bw = (w + 255) div 256 * 256"
  ultimately have "bw < 65536" by simp
  then have "unat (word_of_nat bw :: u16) = bw" by (simp add: unat_of_nat take_bit_nat_eq_self)
  moreover have "bh_width h = word_of_nat bw" by (simp only: h_def band_header_of_def band_header.select_convs bw_def)
  ultimately have width: "unat (bh_width h) div 8 = bpr"
    by (simp only: bpr_def row_bytes_def bw_def)
  have hd: "unat (bh_height h) = 128" "bh_compression h = 17" "unat (bh_number h) = k"
    "bh_width h = word_of_nat ((w + 255) div 256 * 256)"
    using assms(3) by (simp_all add: h_def band_header_of_def unat_of_nat take_bit_nat_eq_self)
  define d1 where "d1 = d\<lparr>bands_in_page := bands_in_page d + 1,
      dc_band_width := (if dc_band_width d = 0 then bh_width h else dc_band_width d)\<rparr>"
  define d2 where "d2 = snd (band_buffers enough True bpr (bpr * 128) d1)"
  have bufs: "band_buffers enough True bpr (bpr * 128) d1 = (True, d2)"
    by (simp add: d2_def band_buffers_def Let_def)
  obtain pr where pr: "page_rows d2 = Some pr" "length pr = 256 * (128 * bpr)" "pr = page_bits bpr d"
    and d2: "band_buf d2 = Some (128 * bpr)" "dc_bytes_per_row d2 = bpr" "max_band d2 = max_band d"
      "dc_band_width d2 = (if dc_band_width d = 0 then bh_width h else dc_band_width d)"
      "dc_errors d2 = dc_errors d" "dc_pages d2 = dc_pages d" "pbms d2 = pbms d"
    using assms(1)
    by (cases "band_buf d")
       (auto simp: d2_def d1_def band_buffers_def Let_def page_bits_def buffers_ok_def mult.commute)
  define d3 where "d3 = (if \<not> have_table d2 \<or> last_table d2 \<noteq> ci_table info
      then d2\<lparr>distinct_tables := distinct_tables d2 + 1, last_table := ci_table info, have_table := True\<rparr>
      else d2)"
  have d3: "page_rows d3 = Some pr" "band_buf d3 = Some (128 * bpr)" "dc_bytes_per_row d3 = bpr"
      "max_band d3 = max_band d"
      "dc_band_width d3 = (if dc_band_width d = 0 then bh_width h else dc_band_width d)"
      "dc_errors d3 = dc_errors d" "dc_pages d3 = dc_pages d" "pbms d3 = pbms d"
    using d2 pr by (simp_all add: d3_def)
  have fits: "k * (bpr * 128) + 128 * bpr \<le> 256 * (128 * bpr)"
  proof -
    have "Suc k * (128 * bpr) \<le> 256 * (128 * bpr)" using assms(3) by (intro mult_le_mono1) simp
    then show ?thesis by simp
  qed
  then have part: "length (part (k * (bpr * 128)) (128 * bpr) pr) = 128 * bpr" using pr(2) by simp
  define pr' where "pr' = take (k * (bpr * 128)) pr @ rs @ drop (k * (bpr * 128) + 128 * bpr) pr"
  have len_pr': "length pr' = 256 * (128 * bpr)"
    using fits pr(2) assms(4) by (simp add: pr'_def bpr_def)
  have "on_band enough True h (band_payload w rs) d
      = Some (d3\<lparr>page_rows := Some pr', max_band := max (int k) (max_band d3)\<rparr>)"
    unfolding on_band_def Let_def width hd(1-3) d1_def [symmetric] bufs dec
    using pr len_b fits d2 rs [OF part] assms(3)
    by (simp add: d3_def pr'_def)
  moreover have "pr' = take (k * (128 * bpr)) pr @ rs @ drop (Suc k * (128 * bpr)) pr"
    by (simp add: pr'_def mult.commute add.commute)
  ultimately show ?thesis
    using d3 len_pr' pr(3)
    by (auto simp: h_def [symmetric] bpr_def [symmetric] buffers_ok_def page_bits_def hd)
qed

section \<open>The bands of a page\<close>

text \<open>The page as blocks of 128 rows, and the number of the last block with ink in it.\<close>

function blocks :: "nat \<Rightarrow> bytes list \<Rightarrow> bytes list" where
  "blocks w ls = (if ls = [] then [] else band_rows w (take 128 ls) # blocks w (drop 128 ls))"
  by pat_completeness auto
termination by (relation "measure (\<lambda>(w, ls). length ls)") auto

declare blocks.simps [simp del]

fun last_inked :: "nat \<Rightarrow> bytes list \<Rightarrow> int \<Rightarrow> int" where
  "last_inked k [] m = m"
| "last_inked k (rs # bs) m = last_inked (Suc k) bs (if \<forall>b \<in> set rs. b = 0 then m else int k)"

lemma last_inked_less: "m < int k \<Longrightarrow> last_inked k bs m < int (k + length bs)"
proof (induction bs arbitrary: k m)
  case (Cons rs bs)
  have "(if \<forall>b \<in> set rs. b = 0 then m else int k) < int (Suc k)" using Cons.prems by auto
  from Cons.IH [OF this] show ?case by simp
qed simp

lemma length_blocks: "length (blocks w ls) = (length ls + 127) div 128"
proof (induction w ls rule: blocks.induct)
  case (1 w ls)
  show ?case
  proof (cases "length ls \<le> 128")
    case True
    show ?thesis
    proof (cases "ls = []")
      case False
      have "(length ls + 127) div 128 = 1" using True False by (intro div_nat_eqI) (auto simp: Suc_le_eq)
      then show ?thesis using True False by (simp add: blocks.simps [of w ls] blocks.simps [of w "[]"])
    qed (simp add: blocks.simps)
  next
    case False
    then obtain n where "length ls = 128 + n" using less_imp_add_positive by (metis not_le)
    then show ?thesis using 1 False by (auto simp: blocks.simps [of w ls])
  qed
qed

definition band_width_word :: "nat \<Rightarrow> u16" where
  "band_width_word w = word_of_nat ((w + 255) div 256 * 256)"

lemma band_width_word_nonzero:
  assumes "0 < w" "w \<le> 65280"
  shows "band_width_word w \<noteq> 0"
proof -
  have "(w + 255) div 256 \<le> (65280 + 255) div 256" using assms(2) by (intro div_le_mono) simp
  moreover have "0 < (w + 255) div 256" using assms(1) by (simp add: div_greater_zero_iff)
  moreover define n where "n = (w + 255) div 256"
  ultimately have n: "0 < n * 256" "n * 256 < 65536" by simp_all
  define bw where "bw = n * 256"
  have "unat (word_of_nat bw :: u16) = bw"
    using n(2) by (simp add: bw_def [symmetric] unat_of_nat take_bit_nat_eq_self)
  then have "word_of_nat bw \<noteq> (0 :: u16)" using n(1) by (intro notI) (simp add: bw_def [symmetric])
  then show ?thesis
    unfolding band_width_word_def n_def [symmetric] bw_def [symmetric] .
qed

text \<open>Nothing of the page in the buffer yet, or the buffer in use by it.\<close>

definition clean :: "decode_ctx \<Rightarrow> bool" where
  "clean d \<longleftrightarrow> (\<forall>pr. page_rows d = Some pr \<longrightarrow> pr = replicate (length pr) 0)"

definition page_live :: "nat \<Rightarrow> decode_ctx \<Rightarrow> bool" where
  "page_live w d \<longleftrightarrow> (max_band d = -1 \<and> dc_band_width d = 0 \<and> clean d)
     \<or> (0 \<le> max_band d \<and> band_buf d \<noteq> None \<and> dc_bytes_per_row d = row_bytes w
        \<and> dc_band_width d = band_width_word w)"

definition same_totals :: "decode_ctx \<Rightarrow> decode_ctx \<Rightarrow> bool" where
  "same_totals d d' \<longleftrightarrow> dc_errors d' = dc_errors d \<and> dc_pages d' = dc_pages d \<and> pbms d' = pbms d"

lemma on_bands:
  "\<lbrakk>buffers_ok d; page_live w d; 0 < w; w \<le> 65280; \<forall>l \<in> set ls. (w + 7) div 8 \<le> length l;
    k + length (blocks w ls) \<le> 256; max_band d < int k;
    page_bits (row_bytes w) d = X @ replicate ((256 - k) * (128 * row_bytes w)) 0;
    length X = k * (128 * row_bytes w)\<rbrakk> \<Longrightarrow>
   \<exists>d'. on_events enough always True (band_events pos w k ls) d = Some d'
     \<and> buffers_ok d' \<and> page_live w d' \<and> same_totals d d'
     \<and> max_band d' = last_inked k (blocks w ls) (max_band d)
     \<and> page_bits (row_bytes w) d' = X @ concat (blocks w ls)
         @ replicate ((256 - (k + length (blocks w ls))) * (128 * row_bytes w)) 0"
proof (induction pos w k ls arbitrary: d X rule: band_events.induct)
  case (1 pos w k ls)
  show ?case
  proof (cases "ls = []")
    case True
    then show ?thesis
      using "1.prems" by (auto simp: band_events.simps [of _ _ _ "[]"] blocks.simps [of _ "[]"] same_totals_def)
  next
    case False
    define rs where "rs = band_rows w (take 128 ls)"
    define N where "N = 128 * row_bytes w"
    define pos1 where "pos1 = pos + length (band_record w k rs)"
    have len_rs: "length rs = N"
      unfolding rs_def N_def using "1.prems"(5) by (intro length_band_rows) (auto dest: in_set_takeD)
    have bl: "blocks w ls = rs # blocks w (drop 128 ls)"
      using False by (simp add: blocks.simps [of w ls] rs_def)
    have lens: "\<forall>l \<in> set (drop 128 ls). (w + 7) div 8 \<le> length l"
      using "1.prems"(5) by (auto dest: in_set_dropD)
    have k: "k \<le> 255" "Suc k + length (blocks w (drop 128 ls)) \<le> 256" using "1.prems"(6) bl by simp_all
    have room: "(256 - k) * N = N + (256 - Suc k) * N"
    proof -
      have "256 - k = Suc (256 - Suc k)" using k(1) by arith
      then show ?thesis by (simp only: mult_Suc)
    qed
    have len_X: "length (X @ rs) = Suc k * N" using "1.prems"(9) len_rs by (simp add: N_def)
    note IH = "1.IH" [OF False rs_def, folded pos1_def, OF _ _ "1.prems"(3,4) lens k(2) _ _
        len_X [unfolded N_def]]
    show ?thesis
    proof (cases "\<forall>b \<in> set rs. b = 0")
      case True
      then have "rs = replicate N 0" using all_zero_replicate len_rs by metis
      then have bits: "page_bits (row_bytes w) d = (X @ rs) @ replicate ((256 - Suc k) * N) 0"
        using "1.prems"(8) room by (simp add: N_def flip: replicate_add)
      have evs: "band_events pos w k ls = band_events pos1 w (Suc k) (drop 128 ls)"
        using False True by (simp add: band_events.simps [of pos w k ls] rs_def pos1_def Let_def)
      have "max_band d < int (Suc k)" using "1.prems"(7) by simp
      from IH [OF "1.prems"(1,2) this bits [unfolded N_def]] show ?thesis
        unfolding evs bl by (simp add: True)
    next
      case nonblank: False
      define p where "p = band_payload w rs"
      have evs: "band_events pos w k ls = BandEv pos (band_header_of w k p) p
          # band_events pos1 w (Suc k) (drop 128 ls)"
        using False nonblank by (simp add: band_events.simps [of pos w k ls] rs_def p_def pos1_def Let_def)
      obtain d1 where d1: "on_band enough True (band_header_of w k p) p d = Some d1"
          "buffers_ok d1" "band_buf d1 \<noteq> None" "dc_bytes_per_row d1 = row_bytes w"
          "page_bits (row_bytes w) d1 = take (k * N) (page_bits (row_bytes w) d) @ rs
            @ drop (Suc k * N) (page_bits (row_bytes w) d)"
          "max_band d1 = max (int k) (max_band d)"
          "dc_band_width d1 = (if dc_band_width d = 0 then band_width_word w else dc_band_width d)"
          "same_totals d d1"
        using on_band_step [OF "1.prems"(1,4) k(1) len_rs [unfolded N_def] "1.prems"(3)]
        by (auto simp: p_def N_def band_width_word_def same_totals_def)
      have live: "page_live w d1"
        using "1.prems"(2) d1 by (auto simp: page_live_def)
      have mb: "max_band d1 = int k" "max_band d1 < int (Suc k)" using d1(6) "1.prems"(7) by simp_all
      have "page_bits (row_bytes w) d = X @ replicate N 0 @ replicate ((256 - Suc k) * N) 0"
        using "1.prems"(8) room by (simp add: N_def flip: replicate_add)
      then have bits: "page_bits (row_bytes w) d1 = (X @ rs) @ replicate ((256 - Suc k) * N) 0"
        using d1(5) "1.prems"(9) by (simp add: N_def)
      from IH [OF d1(2) live mb(2) bits [unfolded N_def]] d1(1,8) mb(1) show ?thesis
        unfolding evs bl using nonblank by (auto simp: same_totals_def)
    qed
  qed
qed

section \<open>Pages and jobs\<close>

text \<open>The PBM file of a page: its blocks down to the last one with ink; none for a blank page.\<close>

definition page_pbm :: "nat \<Rightarrow> nat \<Rightarrow> bytes list \<Rightarrow> pbm_file list" where
  "page_pbm n w ls =
    (let bs = blocks w ls; m = last_inked 0 bs (-1)
     in if m < 0 then []
        else [\<lparr>pbm_page = n, pbm_width = band_width_word w, pbm_height = nat (m + 1) * 128,
               pbm_data = concat (take (nat (m + 1)) bs)\<rparr>])"

fun pages_pbms :: "nat \<Rightarrow> (nat \<times> bytes list) list \<Rightarrow> pbm_file list" where
  "pages_pbms n [] = []"
| "pages_pbms n ((w, ls) # ps) = page_pbm (Suc n) w ls @ pages_pbms (Suc n) ps"

lemma concat_take_blocks:
  "\<forall>b \<in> set bs. length b = N \<Longrightarrow> n \<le> length bs \<Longrightarrow> take (n * N) (concat bs @ zs) = concat (take n bs)"
proof (induction n arbitrary: bs)
  case (Suc n)
  then obtain b bs' where "bs = b # bs'" by (cases bs) auto
  with Suc show ?case by simp
qed simp

lemma blocks_lengths:
  "\<forall>l \<in> set ls. (w + 7) div 8 \<le> length l \<Longrightarrow> \<forall>b \<in> set (blocks w ls). length b = 128 * row_bytes w"
proof (induction w ls rule: blocks.induct)
  case (1 w ls)
  show ?case
  proof (cases "ls = []")
    case False
    have "length (band_rows w (take 128 ls)) = 128 * row_bytes w"
      using "1.prems" by (intro length_band_rows) (auto dest: in_set_takeD)
    with 1 False show ?thesis by (auto simp: blocks.simps [of w ls] dest: in_set_dropD)
  qed (simp add: blocks.simps)
qed

lemma page_pbm_step:
  assumes "buffers_ok d" "clean d" "0 < w" "w \<le> 65280" "lines_ok w ls"
  shows "\<exists>d'. on_events enough always True (page_events j pos w ls) d = Some d'
    \<and> buffers_ok d' \<and> clean d' \<and> dc_errors d' = dc_errors d \<and> dc_pages d' = Suc (dc_pages d)
    \<and> pbms d' = pbms d @ page_pbm (Suc (dc_pages d)) w ls"
proof -
  define bs where "bs = blocks w ls"
  define m where "m = last_inked 0 bs (-1)"
  define N where "N = 128 * row_bytes w"
  define d0 where "d0 = on_page d"
  have lens: "\<forall>l \<in> set ls. (w + 7) div 8 \<le> length l" using assms(5) by (simp add: lines_ok_def)
  have "length bs \<le> (32768 + 127) div 128"
    unfolding bs_def length_blocks using assms(5) by (intro div_le_mono) (simp add: lines_ok_def)
  then have count: "length bs \<le> 256" by simp
  have d0: "buffers_ok d0" "clean d0" "max_band d0 = -1" "dc_band_width d0 = 0"
      "dc_errors d0 = dc_errors d" "dc_pages d0 = Suc (dc_pages d)" "pbms d0 = pbms d"
    using assms(1,2) by (auto simp: d0_def on_page_def buffers_ok_def clean_def)
  have bits0: "page_bits (row_bytes w) d0 = [] @ replicate ((256 - 0) * N) 0"
    using d0(1,2) by (auto simp: page_bits_def N_def buffers_ok_def clean_def)
  have live0: "page_live w d0" using d0 by (simp add: page_live_def)
  obtain d1 where d1: "on_events enough always True (band_events (pos + 17) w 0 ls) d0 = Some d1"
      "buffers_ok d1" "page_live w d1" "same_totals d0 d1" "max_band d1 = m"
      "page_bits (row_bytes w) d1 = concat bs @ replicate ((256 - length bs) * N) 0"
    using on_bands [OF d0(1) live0 assms(3,4) lens, of 0 "[]" "pos + 17"] count bits0 d0(3)
    by (auto simp: bs_def m_def N_def)
  have events: "on_events enough always True (page_events j pos w ls) d = write_pbm always d1"
    using d1(1) by (simp add: page_events_def on_events_append d0_def split: option.split)
  show ?thesis
  proof (cases "m < 0")
    case True
    then have "clean d1" using d1(3,5) by (auto simp: page_live_def)
    moreover have "write_pbm always d1 = Some d1"
      using True d1(5) by (simp add: write_pbm_def split: option.split)
    moreover have "page_pbm (Suc (dc_pages d)) w ls = []"
      using True by (simp add: page_pbm_def m_def bs_def Let_def)
    ultimately show ?thesis
      using events d1(2,4) d0 by (simp add: same_totals_def)
  next
    case False
    then have live: "band_buf d1 = Some N" "dc_bytes_per_row d1 = row_bytes w" "dc_band_width d1 = band_width_word w"
      using d1(2,3,5) by (auto simp: page_live_def buffers_ok_def N_def)
    then obtain pr where pr: "page_rows d1 = Some pr" "length pr = 256 * N"
      using d1(2) by (auto simp: buffers_ok_def)
    have pr_eq: "pr = concat bs @ replicate ((256 - length bs) * N) 0"
      using d1(6) live pr(1) by (simp add: page_bits_def)
    have "m < int (0 + length bs)" unfolding m_def by (rule last_inked_less) simp
    then have m: "nat (m + 1) \<le> length bs" "nat (m + 1) \<le> 256" using False count by auto
    have size: "nat (m + 1) * 128 * row_bytes w \<le> length pr"
    proof -
      have "nat (m + 1) * N \<le> 256 * N" using m(2) by (rule mult_le_mono1)
      then show ?thesis by (simp add: pr(2) N_def)
    qed
    have "take (nat (m + 1) * N) pr = concat (take (nat (m + 1)) bs)"
      unfolding pr_eq using blocks_lengths [OF lens] m(1)
      by (intro concat_take_blocks) (auto simp: bs_def N_def)
    then have data: "take (nat (m + 1) * 128 * row_bytes w) pr = concat (take (nat (m + 1)) bs)"
      by (simp add: N_def mult.assoc)
    have "write_pbm always d1 = Some (d1\<lparr>
        pbms := pbms d1 @ [\<lparr>pbm_page = dc_pages d1, pbm_width = dc_band_width d1,
           pbm_height = nat (m + 1) * 128, pbm_data = concat (take (nat (m + 1)) bs)\<rparr>],
        page_rows := Some (replicate (256 * 128 * row_bytes w) 0)\<rparr>)"
      unfolding write_pbm_def pr(1) Let_def live(2) d1(5)
      using False size pr(2) data m(2) by (simp add: N_def)
    then show ?thesis
      using events d1(2,4) d0 live pr False
      by (auto simp: same_totals_def page_pbm_def m_def bs_def Let_def buffers_ok_def clean_def N_def)
  qed
qed

lemma pages_pbm_steps:
  "\<lbrakk>buffers_ok d; clean d; \<forall>(w, ls) \<in> set ps. 0 < w \<and> w \<le> 65280 \<and> lines_ok w ls\<rbrakk> \<Longrightarrow>
   \<exists>d'. on_events enough always True (pages_events j pos ps) d = Some d'
     \<and> dc_errors d' = dc_errors d \<and> dc_pages d' = dc_pages d + length ps
     \<and> pbms d' = pbms d @ pages_pbms (dc_pages d) ps"
proof (induction ps arbitrary: d pos)
  case (Cons p ps)
  obtain w ls where p: "p = (w, ls)" by force
  have page: "0 < w" "w \<le> 65280" "lines_ok w ls" using Cons.prems(3) p by auto
  obtain d1 where d1: "on_events enough always True (page_events j pos w ls) d = Some d1"
      "buffers_ok d1" "clean d1" "dc_errors d1 = dc_errors d" "dc_pages d1 = Suc (dc_pages d)"
      "pbms d1 = pbms d @ page_pbm (Suc (dc_pages d)) w ls"
    using page_pbm_step [OF Cons.prems(1,2) page] by metis
  from Cons.IH [OF d1(2,3)] Cons.prems(3) d1 show ?case
    by (auto simp: p on_events_append)
qed simp

lemma on_line_events: "on_events enough always True (line_events pos ls) d = Some d"
  by (induction ls arbitrary: pos) auto

lemma decode_job_stream:
  assumes "job_valid j" "quiet_job j"
    "\<forall>(w, ls) \<in> set ps. 0 < w \<and> w \<le> 65280 \<and> lines_ok w ls"
  shows "\<exists>d. cmd_decode enough always True (job_stream j ps) = Some (0, d)
    \<and> dc_pages d = length ps \<and> dc_errors d = 0 \<and> pbms d = pages_pbms 0 ps"
proof -
  have "\<forall>(w, ls) \<in> set ps. w \<le> 65280" using assms(3) by auto
  from walk_job_stream [OF assms(1,2) this] obtain pos where
    walk: "m2022_qpdl_walk (job_stream j ps) =
      (line_events 0 (job_lines j) @ pages_events j (length (envelope j)) ps
         @ [EndJobEv pos, PjlLine (pos + 1) M2022_QPDL_UEL], None)" by blast
  have "buffers_ok decode_ctx_zero" "clean decode_ctx_zero"
    by (simp_all add: buffers_ok_def clean_def decode_ctx_zero_def)
  from pages_pbm_steps [OF this assms(3), of j "length (envelope j)"] obtain d where
    "on_events enough always True (pages_events j (length (envelope j)) ps) decode_ctx_zero = Some d"
    "dc_errors d = 0" "dc_pages d = length ps" "pbms d = pages_pbms 0 ps"
    by (auto simp: decode_ctx_zero_def)
  then show ?thesis
    by (simp add: cmd_decode_def walk on_events_append on_line_events Let_def)
qed

section \<open>Memory safety of the reader\<close>

text \<open>
  With bands of 128 lines no callback leaves its buffer, whatever the payloads hold, whatever
  allocation or file creation fails.
\<close>

definition reader_safe :: "decode_ctx \<Rightarrow> bool" where
  "reader_safe d \<longleftrightarrow> (\<forall>n. band_buf d = Some n \<longrightarrow> n = 128 * dc_bytes_per_row d)
     \<and> (\<forall>pr. page_rows d = Some pr \<longrightarrow> length pr = 256 * (128 * dc_bytes_per_row d))
     \<and> max_band d \<le> 255"

lemma on_band_safe:
  assumes "reader_safe d" "bh_height h = 128"
  shows "\<exists>d'. on_band alloc pbm h payload d = Some d' \<and> reader_safe d'"
proof -
  define bpr where "bpr = unat (bh_width h) div 8"
  define d1 where "d1 = d\<lparr>bands_in_page := bands_in_page d + 1,
      dc_band_width := (if dc_band_width d = 0 then bh_width h else dc_band_width d)\<rparr>"
  obtain ok d2 where bufs: "band_buffers alloc pbm bpr (bpr * 128) d1 = (ok, d2)" by force
  have safe2: "reader_safe d2" and ok: "ok \<Longrightarrow> band_buf d2 = Some (bpr * 128) \<and> dc_bytes_per_row d2 = bpr"
    using bufs assms(1)
    by (auto simp: band_buffers_def d1_def reader_safe_def mult.commute Let_def split: if_splits)
  obtain rc out info where dec: "m2022_codec11_decode (Some payload) (Some (bpr * 128)) = (rc, out, info)"
    using prod_cases3 by blast
  have len: "length out \<le> bpr * 128" using decode_bound [OF dec] .
  define d3 where "d3 = (if \<not> have_table d2 \<or> last_table d2 \<noteq> ci_table info
      then d2\<lparr>distinct_tables := distinct_tables d2 + 1, last_table := ci_table info, have_table := True\<rparr>
      else d2)"
  have d3: "reader_safe d3" "page_rows d3 = page_rows d2" "dc_bytes_per_row d3 = dc_bytes_per_row d2"
    using safe2 by (auto simp: d3_def reader_safe_def)
  have k: "unat (bh_number h) \<le> 255" using unat_u8_less [of "bh_number h"] by linarith
  then have "Suc (unat (bh_number h)) * (bpr * 128) \<le> 256 * (bpr * 128)" by (intro mult_le_mono1) simp
  then have fits: "unat (bh_number h) * (bpr * 128) + 128 * bpr \<le> 256 * (128 * bpr)" by simp
  have hh: "unat (bh_height h) = 128" using assms(2) by simp
  show ?thesis
  proof (cases "bh_compression h = 0x11 \<and> ok")
    case False
    then have "on_band alloc pbm h payload d = Some d1 \<or>
        on_band alloc pbm h payload d = Some (d2\<lparr>dc_errors := dc_errors d2 + 1\<rparr>)"
      unfolding on_band_def Let_def bpr_def [symmetric] hh d1_def [symmetric] bufs by auto
    moreover have "reader_safe d1" using assms(1) by (simp add: d1_def reader_safe_def)
    ultimately show ?thesis using safe2 by (auto simp: reader_safe_def)
  next
    case True
    with ok have buf: "band_buf d2 = Some (bpr * 128)" "dc_bytes_per_row d2 = bpr" by auto
    have whole: "on_band alloc pbm h payload d =
      (if rc \<noteq> None \<or> length out \<noteq> bpr * 128 then Some (d3\<lparr>dc_errors := dc_errors d3 + 1\<rparr>)
       else case page_rows d3 of None \<Rightarrow> Some d3
         | Some pr \<Rightarrow>
             if 128 * bpr > bpr * 128 \<or> unat (bh_number h) * (bpr * 128) + 128 * bpr > length pr then None
             else Some (d3\<lparr>page_rows := Some (take (unat (bh_number h) * (bpr * 128)) pr
                  @ m2022_qpdl_band_to_rows out bpr (part (unat (bh_number h) * (bpr * 128)) (128 * bpr) pr)
                  @ drop (unat (bh_number h) * (bpr * 128) + 128 * bpr) pr),
                max_band := max (int (unat (bh_number h))) (max_band d3)\<rparr>))"
      unfolding on_band_def Let_def bpr_def [symmetric] hh d1_def [symmetric] bufs dec split_conv
      unfolding d3_def [symmetric] buf option.sel
      using True len by simp
    show ?thesis
    proof (cases "page_rows d3")
      case None
      with whole d3(1) show ?thesis by (auto simp: reader_safe_def)
    next
      case (Some pr)
      with d3 buf have pr: "length pr = 256 * (128 * bpr)" by (simp add: reader_safe_def)
      have "int (unat (bh_number h)) \<le> int 255" using k by (simp only: of_nat_le_iff)
      then have "max (int (unat (bh_number h))) (max_band d3) \<le> 255"
        using d3(1) by (simp add: reader_safe_def)
      then show ?thesis
        using whole Some pr fits d3 buf by (auto simp: reader_safe_def)
    qed
  qed
qed

lemma write_pbm_safe:
  assumes "reader_safe d"
  shows "\<exists>d'. write_pbm writable d = Some d' \<and> reader_safe d'"
proof (cases "page_rows d")
  case None
  then show ?thesis using assms by (simp add: write_pbm_def)
next
  case (Some pr)
  then have pr: "length pr = 256 * (128 * dc_bytes_per_row d)" and mb: "max_band d \<le> 255"
    using assms by (auto simp: reader_safe_def)
  have "nat (max_band d + 1) * 128 * dc_bytes_per_row d \<le> 256 * 128 * dc_bytes_per_row d"
    using mb by (intro mult_le_mono1) auto
  then show ?thesis using assms Some pr by (auto simp: write_pbm_def Let_def reader_safe_def)
qed

definition full_bands :: "walk_event list \<Rightarrow> bool" where
  "full_bands evs \<longleftrightarrow> (\<forall>ev \<in> set evs. case ev of BandEv _ h _ \<Rightarrow> bh_height h = 128 | _ \<Rightarrow> True)"

lemma on_events_safe:
  "reader_safe d \<Longrightarrow> full_bands evs \<Longrightarrow> on_events alloc writable pbm evs d \<noteq> None"
proof (induction evs arbitrary: d)
  case (Cons ev evs)
  have "\<exists>d'. on_event alloc writable pbm ev d = Some d' \<and> reader_safe d'"
    using Cons.prems on_band_safe write_pbm_safe
    by (cases ev) (auto simp: full_bands_def on_page_def reader_safe_def)
  with Cons show ?case by (auto simp: full_bands_def)
qed simp

lemma cmd_decode_memory_safe:
  "full_bands (fst (m2022_qpdl_walk data)) \<Longrightarrow> cmd_decode alloc writable pbm data \<noteq> None"
  using on_events_safe [of decode_ctx_zero "fst (m2022_qpdl_walk data)" alloc writable pbm]
  by (auto simp: cmd_decode_def Let_def reader_safe_def decode_ctx_zero_def split: prod.splits option.splits)

text \<open>A band of fewer lines overruns: the transposition always reads and writes 128 lines.\<close>

lemma short_band_overruns:
  assumes "band_buf d = None" "bh_compression h = 0x11" "0 < unat (bh_width h) div 8"
    and "unat (bh_height h) < 128"
    and "m2022_codec11_decode (Some payload) (Some (unat (bh_width h) div 8 * unat (bh_height h)))
      = (None, out, info)"
    and "length out = unat (bh_width h) div 8 * unat (bh_height h)"
  shows "on_band (\<lambda>_ _. True) True h payload d = None"
  using assms by (auto simp: on_band_def Let_def band_buffers_def)

section \<open>Properties\<close>

text \<open>Decoding a job gives back its pages: for a valid job whose text cannot be mistaken for the
  start of the language, the reader of \<open>decode\<close> accepts what the encoder's stream is, without an
  error, and assembles for each page the rows that were encoded, blank bands included.\<close>

theorem decode_gives_back_pages:
  assumes "job_valid j" "quiet_job j" "\<forall>(w, ls) \<in> set ps. 0 < w \<and> w \<le> 65280 \<and> lines_ok w ls"
  shows "\<exists>d. cmd_decode (\<lambda>_ _. True) (\<lambda>_. True) True (job_stream j ps) = Some (0, d)
    \<and> dc_pages d = length ps \<and> dc_errors d = 0 \<and> pbms d = pages_pbms 0 ps"
  by (rule decode_job_stream [OF assms])

lemma decode_gives_back_pages_witness:
  "\<exists>d. cmd_decode (\<lambda>_ _. True) (\<lambda>_. True) True (job_stream m2022_qpdl_job_default [(8, [[0xF0], [0x0F]])]) = Some (0, d)
     \<and> dc_pages d = 1 \<and> pbms d = pages_pbms 0 [(8, [[0xF0], [0x0F]])]"
proof -
  have "job_valid m2022_qpdl_job_default" by code_simp
  moreover have "quiet_job m2022_qpdl_job_default" by code_simp
  moreover have "\<forall>(w, ls) \<in> set [(8, [[0xF0], [0x0F :: u8]])]. 0 < w \<and> w \<le> 65280 \<and> lines_ok w ls"
    by (simp add: lines_ok_def)
  ultimately show ?thesis using decode_gives_back_pages [of m2022_qpdl_job_default "[(8, [[0xF0], [0x0F]])]"]
    by (auto simp del: pages_pbms.simps)
qed

text \<open>C17: On a file whose bands all have 128 lines, the reader never leaves its buffers, whatever the
  payloads hold and whichever of its allocations or files fail.\<close>

theorem decode_memory_safe:
  assumes "full_bands (fst (m2022_qpdl_walk data))"
  shows "cmd_decode alloc writable pbm data \<noteq> None"
  by (rule cmd_decode_memory_safe [OF assms])

text \<open>A job of one band of 128 lines, read when the second allocation fails.\<close>

lemma decode_memory_safe_witness:
  "(\<exists>pos h p. BandEv pos h p \<in> set (fst (m2022_qpdl_walk (job_stream m2022_qpdl_job_default [(8, [[0xF0]])]))))
   \<and> cmd_decode (\<lambda>k n. k \<noteq> 1) (\<lambda>_. True) True (job_stream m2022_qpdl_job_default [(8, [[0xF0]])]) \<noteq> None"
proof -
  define j where "j = m2022_qpdl_job_default"
  have "job_valid j" "quiet_job j" unfolding j_def by code_simp+
  from walk_job_stream [OF this, of "[(8, [[0xF0]])]"] obtain pos where
    walk: "fst (m2022_qpdl_walk (job_stream j [(8, [[0xF0]])])) = line_events 0 (job_lines j)
      @ pages_events j (length (envelope j)) [(8, [[0xF0]])] @ [EndJobEv pos, PjlLine (pos + 1) M2022_QPDL_UEL]"
    by auto
  have "\<exists>b \<in> set (band_rows 8 [[0xF0]]). b \<noteq> 0" by (intro bexI [of _ "0xF0"]) (code_simp+)
  then have bands: "band_events k 8 0 [[0xF0]] = [BandEv k (band_header_of 8 0 (band_payload 8 (band_rows 8 [[0xF0]])))
      (band_payload 8 (band_rows 8 [[0xF0]]))]" for k
    by (simp add: band_events.simps [of k] band_events.simps [of _ _ _ "[]"] Let_def)
  have lines: "full_bands (line_events k ls)" for k ls
    by (induction ls arbitrary: k) (auto simp: full_bands_def)
  have "full_bands (pages_events j (length (envelope j)) [(8, [[0xF0]])])"
    by (simp add: page_events_def bands full_bands_def band_header_of_def)
  with lines [of 0 "job_lines j"] have full: "full_bands (fst (m2022_qpdl_walk (job_stream j [(8, [[0xF0]])])))"
    unfolding walk by (auto simp: full_bands_def)
  have "\<exists>pos h p. BandEv pos h p \<in> set (fst (m2022_qpdl_walk (job_stream j [(8, [[0xF0]])])))"
    unfolding walk by (auto simp: page_events_def bands)
  with decode_memory_safe [OF full] show ?thesis unfolding j_def by blast
qed



end
