(* ===== verification/Cmd_Encode.thy ===== *)
theory Cmd_Encode
  imports Pipeline Jobmap Qpdl_Roundtrip
begin

text \<open>
  Model of src/cli/cmd_encode.c: one page, from the command line and the input file to the job file.
  The output file is the bytes that \<open>fwrite\<close> took. A step is \<open>None\<close> where it would read behind the
  input file or write behind a line buffer. The theory also shows that the file sink obeys the contract
  of the job encoder's sink.
\<close>

section \<open>The sink\<close>

record file_ctx =
  f_contents :: bytes
  f_err :: bool

text \<open>\<open>fwrite contents data\<close> is how many bytes of the data the file takes; \<open>f_err\<close> is \<open>err = errno\<close>.\<close>

definition file_sink :: "(bytes \<Rightarrow> bytes \<Rightarrow> nat) \<Rightarrow> file_ctx sink_fn" where
  "file_sink fw s data =
    (let n = min (length data) (fw (f_contents s) data);
         s' = s\<lparr>f_contents := f_contents s @ take n data\<rparr>
     in if n \<noteq> length data then (-1, s'\<lparr>f_err := True\<rparr>) else (0, s'))"

definition find_media :: "string \<Rightarrow> media option" where
  "find_media name =
    (case m2022_media_by_pwg (Some name) of
       Some m \<Rightarrow> Some m
     | None \<Rightarrow> find (\<lambda>m. strcasecmp (vendor_name m) name) m2022_media_table)"

section \<open>The command line\<close>

record encode_args =
  ea_opts :: halftone_opts
  ea_job :: qpdl_job
  ea_in :: "string option"
  ea_out :: string
  ea_media :: "string option"

text \<open>
  The loop over \<open>argv\<close>; \<open>None\<close> is the exit status 2. An option that needs a value and is the last
  argument falls through to the test for an unknown option, as in the code.
\<close>

function encode_args_loop :: "(string \<Rightarrow> real) \<Rightarrow> string list \<Rightarrow> encode_args \<Rightarrow> encode_args option" where
  "encode_args_loop atof [] a = Some a"
| "encode_args_loop atof (arg # rest) a =
    (case cli_halftone_opt atof (ea_opts a) arg rest of
       OptError \<Rightarrow> None
     | OptUsed opts rest' \<Rightarrow> encode_args_loop atof rest' (a\<lparr>ea_opts := opts\<rparr>)
     | OptOther \<Rightarrow>
         if arg = ''--out'' \<and> rest \<noteq> [] then encode_args_loop atof (tl rest) (a\<lparr>ea_out := hd rest\<rparr>)
         else if arg = ''--media'' \<and> rest \<noteq> [] then
           encode_args_loop atof (tl rest) (a\<lparr>ea_media := Some (hd rest)\<rparr>)
         else if arg = ''--dpi'' \<and> rest \<noteq> [] then
           encode_args_loop atof (tl rest)
             (a\<lparr>ea_job := (ea_job a)\<lparr>dpi := unat (word_of_int (atoi (hd rest)) :: u32)\<rparr>\<rparr>)
         else if arg = ''--source'' \<and> rest \<noteq> [] then
           (if hd rest = ''auto'' then
              encode_args_loop atof (tl rest) (a\<lparr>ea_job := (ea_job a)\<lparr>feeder := M2022_QPDL_FEEDER_AUTO\<rparr>\<rparr>)
            else if hd rest = ''manual'' then
              encode_args_loop atof (tl rest) (a\<lparr>ea_job := (ea_job a)\<lparr>feeder := M2022_QPDL_FEEDER_MANUAL\<rparr>\<rparr>)
            else None)
         else if arg = ''--type'' \<and> rest \<noteq> [] then
           encode_args_loop atof (tl rest) (a\<lparr>ea_job := (ea_job a)\<lparr>paper_type := Some (ascii (hd rest))\<rparr>\<rparr>)
         else if arg = ''--duplex'' \<and> rest \<noteq> [] then
           (if hd rest = ''off'' then
              encode_args_loop atof (tl rest) (a\<lparr>ea_job := (ea_job a)\<lparr>duplex := M2022_QPDL_DUPLEX_OFF\<rparr>\<rparr>)
            else if hd rest = ''long'' then
              encode_args_loop atof (tl rest)
                (a\<lparr>ea_job := (ea_job a)\<lparr>duplex := M2022_QPDL_DUPLEX_MANUAL_LONG_EDGE\<rparr>\<rparr>)
            else if hd rest = ''short'' then
              encode_args_loop atof (tl rest)
                (a\<lparr>ea_job := (ea_job a)\<lparr>duplex := M2022_QPDL_DUPLEX_MANUAL_SHORT_EDGE\<rparr>\<rparr>)
            else None)
         else if arg = ''--copies'' \<and> rest \<noteq> [] then
           encode_args_loop atof (tl rest)
             (a\<lparr>ea_job := (ea_job a)\<lparr>copies := word_of_int (atoi (hd rest))\<rparr>\<rparr>)
         else if arg = ''--skip-blank'' then
           encode_args_loop atof rest (a\<lparr>ea_job := (ea_job a)\<lparr>skip_blank_pages := True\<rparr>\<rparr>)
         else if arg \<noteq> [] \<and> hd arg = CHR ''-'' then None
         else if ea_in a = None then encode_args_loop atof rest (a\<lparr>ea_in := Some arg\<rparr>)
         else None)"
  by pat_completeness auto
termination
  by (relation "measure (\<lambda>(atof, args, a). length args)")
    (auto dest: cli_halftone_opt_shorter)

definition encode_args :: "(string \<Rightarrow> real) \<Rightarrow> string list \<Rightarrow> encode_args option" where
  "encode_args atof argv =
    (case encode_args_loop atof argv
        \<lparr>ea_opts = cli_halftone_opts_init, ea_job = m2022_qpdl_job_default, ea_in = None,
         ea_out = ''job.spl'', ea_media = None\<rparr> of
       None \<Rightarrow> None
     | Some a \<Rightarrow>
         if ea_in a = None \<or> (dpi (ea_job a) \<noteq> 600 \<and> dpi (ea_job a) \<noteq> 1200) \<or> copies (ea_job a) = 0
         then None else Some a)"

section \<open>The page\<close>

text \<open>One line of the page: what the encoder is given, from line \<open>y\<close> of the output.\<close>

definition encode_line ::
  "bytes \<Rightarrow> bytes \<Rightarrow> cli_raster \<Rightarrow> bool \<Rightarrow> u32 \<Rightarrow> nat \<Rightarrow> halftoner \<Rightarrow> (halftoner \<times> bytes) option" where
  "encode_line tile lut r upscale out_width y ht =
    (let line = raster_line r (if upscale then y div 2 else y);
         w = unat (ra_width r)
     in if ra_bilevel r then
          (if (unat out_width + 7) div 8 \<le> length line then Some (ht, line) else None)
        else if length line < m2022_raster_line_bytes (ra_fmt r) w then None
        else
          let gray = m2022_raster_line_to_gray (ra_fmt r) line w
          in if upscale then
               (if 2 * w \<le> unat out_width
                then Some (m2022_halftone_line tile ht
                       (m2022_tone_apply lut (m2022_raster_upscale2x_line gray w) (unat out_width)) y)
                else None)
             else Some (m2022_halftone_line tile ht (m2022_tone_apply lut gray (unat out_width)) y))"

fun encode_lines ::
  "(nat \<Rightarrow> halftoner \<Rightarrow> (halftoner \<times> bytes) option) \<Rightarrow> nat \<Rightarrow> nat \<Rightarrow> halftoner
   \<Rightarrow> file_ctx encoder \<Rightarrow> (int \<times> file_ctx encoder) option" where
  "encode_lines line 0 y ht e = Some (0, e)"
| "encode_lines line (Suc n) y ht e =
    (case line y ht of
       None \<Rightarrow> None
     | Some (ht', bits) \<Rightarrow>
         (case m2022_qpdl_write_line e (Some bits) of
            (rc, e') \<Rightarrow> if rc \<noteq> 0 then Some (rc, e') else encode_lines line n (Suc y) ht' e'))"

text \<open>
  What surrounds the command: the file reader, the memory the page works in, the output file, the clock,
  the version and the generated mask.
\<close>

record encode_env =
  ee_read :: "string \<Rightarrow> bytes option"
  ee_atof :: "string \<Rightarrow> real"
  ee_alloc :: bool
  ee_uninit :: "nat \<Rightarrow> bytes"
  ee_create :: "string \<Rightarrow> bool"
  ee_fwrite :: "bytes \<Rightarrow> bytes \<Rightarrow> nat"
  ee_close :: bool
  ee_today :: bytes
  ee_version :: bytes
  ee_tile :: bytes

definition encode_job_of :: "encode_env \<Rightarrow> qpdl_job \<Rightarrow> media \<Rightarrow> qpdl_job" where
  "encode_job_of env j m =
     j\<lparr>paper_code := qpdl_code m, paper_width_pt := width_pt m, paper_height_pt := height_pt m,
       service_date := Some (ee_today env),
       producer := Some (take 63 (ascii ''M2022 AirBridge '' @ ee_version env))\<rparr>"

definition media_choice :: "encode_args \<Rightarrow> cli_raster \<Rightarrow> string" where
  "media_choice a r =
    (case ea_media a of
       Some name \<Rightarrow> name
     | None \<Rightarrow> if ra_page_size r \<noteq> [] then map (\<lambda>b. char_of (unat b)) (ra_page_size r)
               else m2022_media_default_pwg)"

text \<open>The calls to the encoder, from an output file that is open and empty.\<close>

definition encode_run ::
  "encode_env \<Rightarrow> qpdl_job \<Rightarrow> cli_raster \<Rightarrow> bool \<Rightarrow> u32 \<Rightarrow> u32 \<Rightarrow> bytes \<Rightarrow> halftoner
   \<Rightarrow> (int \<times> file_ctx encoder) option" where
  "encode_run env j r upscale out_width out_lines lut ht =
    (let snk = file_sink (ee_fwrite env);
         ctx = \<lparr>f_contents = [], f_err = False\<rparr>;
         ws = ee_uninit env (m2022_qpdl_encoder_workspace_bytes (unat out_width));
         (rc1, e1) = in_order [\<lambda>e. m2022_qpdl_begin_job e j snk ctx,
                               \<lambda>e. m2022_qpdl_begin_page e (unat out_width) (Some ws)] (encoder_zero j snk ctx)
     in if rc1 \<noteq> 0 then Some (rc1, e1)
        else case encode_lines (encode_line (ee_tile env) lut r upscale out_width) (unat out_lines) 0 ht e1 of
          None \<Rightarrow> None
        | Some (rc2, e2) \<Rightarrow>
            if rc2 \<noteq> 0 then Some (rc2, e2)
            else Some (in_order [m2022_qpdl_end_page, m2022_qpdl_end_job] e2))"

text \<open>The exit status, and the output file if one was created.\<close>

definition cmd_encode :: "encode_env \<Rightarrow> string list \<Rightarrow> (int \<times> bytes option) option" where
  "cmd_encode env argv =
    (case encode_args (ee_atof env) argv of
       None \<Rightarrow> Some (2, None)
     | Some a \<Rightarrow>
         let (tone, hp, name) = cli_halftone_resolve (ea_opts a)
         in case cli_raster_open (ee_read env (the (ea_in a))) of
              None \<Rightarrow> Some (2, None)
            | Some r \<Rightarrow>
                (case find_media (media_choice a r) of
                   None \<Rightarrow> Some (2, None)
                 | Some m \<Rightarrow>
                     let j = encode_job_of env (ea_job a) m;
                         upscale = (dpi j = 1200 \<and> (ra_x_dpi r = 600 \<or> ra_x_dpi r = 0))
                     in if upscale \<and> ra_bilevel r then Some (2, None)
                        else
                          let out_width = (if upscale then ra_width r * 2 else ra_width r);
                              out_lines = (if upscale then ra_height r * 2 else ra_height r);
                              state = m2022_halftoner_state_bytes (unat out_width)
                          in if \<not> ee_alloc env then Some (2, None)
                             else (case m2022_halftoner_init hp (unat out_width) (Some state) of
                               None \<Rightarrow> Some (2, None)
                             | Some ht \<Rightarrow>
                                 if \<not> ee_create env (ea_out a) then Some (2, None)
                                 else map_option (\<lambda>(rc, e).
                                       (if rc = 0 \<and> ee_close env then 0 else 2,
                                        Some (f_contents (sink_ctx e))))
                                     (encode_run env j r upscale out_width out_lines
                                       (m2022_tone_build tone) ht))))"

section \<open>The sink's contract\<close>

interpretation job_file: byte_sink "file_sink fw" f_contents for fw
  by unfold_locales (auto simp: file_sink_def Let_def split: if_splits)

text \<open>A disk that takes everything.\<close>

interpretation good_disk: reliable_sink "file_sink (\<lambda>_ data. length data)" f_contents
  by unfold_locales (auto simp: file_sink_def Let_def)

section \<open>The lines of a page\<close>

text \<open>The lines the encoder is given, when no step leaves its buffers.\<close>

fun page_lines ::
  "(nat \<Rightarrow> halftoner \<Rightarrow> (halftoner \<times> bytes) option) \<Rightarrow> nat \<Rightarrow> nat \<Rightarrow> halftoner \<Rightarrow> bytes list option" where
  "page_lines line 0 y ht = Some []"
| "page_lines line (Suc n) y ht =
    (case line y ht of
       None \<Rightarrow> None
     | Some (ht', bits) \<Rightarrow> map_option (\<lambda>ls. bits # ls) (page_lines line n (Suc y) ht'))"

abbreviation put_line :: "bytes \<Rightarrow> file_ctx encoder \<Rightarrow> int \<times> file_ctx encoder" where
  "put_line l e \<equiv> m2022_qpdl_write_line e (Some l)"

lemma encode_lines_total:
  "page_lines line n y ht = Some ls \<Longrightarrow> encode_lines line n y ht e = Some (in_order (map put_line ls) e)"
proof (induction n arbitrary: y ht ls e)
  case (Suc n)
  obtain ht' bits where l: "line y ht = Some (ht', bits)"
    using Suc.prems by (auto split: option.splits)
  then obtain ls' where ls: "page_lines line n (Suc y) ht' = Some ls'" "ls = bits # ls'"
    using Suc.prems by auto
  show ?case using Suc.IH [OF ls(1)] l ls(2) by (auto simp: Let_def split: prod.splits)
qed simp

lemma encode_lines_ok:
  "encode_lines line n y ht e = Some (0, e') \<Longrightarrow>
     \<exists>ls. page_lines line n y ht = Some ls \<and> in_order (map put_line ls) e = (0, e')"
proof (induction n arbitrary: y ht e)
  case (Suc n)
  obtain ht' bits where l: "line y ht = Some (ht', bits)"
    using Suc.prems by (auto split: option.splits)
  then obtain e1 where e1: "put_line bits e = (0, e1)" and rest: "encode_lines line n (Suc y) ht' e1 = Some (0, e')"
    using Suc.prems by (auto split: prod.splits if_splits)
  from Suc.IH [OF rest] obtain ls where ls: "page_lines line n (Suc y) ht' = Some ls"
    "in_order (map put_line ls) e1 = (0, e')" by blast
  have "in_order (map put_line (bits # ls)) e = (0, e')" using e1 ls(2) by simp
  moreover have "page_lines line (Suc n) y ht = Some (bits # ls)" using l ls(1) by simp
  ultimately show ?case by blast
qed simp

lemma page_lines_length: "page_lines line n y ht = Some ls \<Longrightarrow> length ls = n"
  by (induction n arbitrary: y ht ls) (auto split: option.splits)

lemma page_lines_all:
  "\<lbrakk>page_lines line n y ht = Some ls; \<And>y ht ht' bits. line y ht = Some (ht', bits) \<Longrightarrow> P bits\<rbrakk>
   \<Longrightarrow> \<forall>l \<in> set ls. P l"
proof (induction n arbitrary: y ht ls)
  case (Suc n)
  then show ?case by (fastforce split: option.splits)
qed simp

section \<open>The run\<close>

definition page_workspace :: "encode_env \<Rightarrow> u32 \<Rightarrow> bytes" where
  "page_workspace env w = ee_uninit env (m2022_qpdl_encoder_workspace_bytes (unat w))"

text \<open>A run is the encoder's call sequence for one page of the lines above.\<close>

lemma encode_run_job:
  assumes "page_lines (encode_line (ee_tile env) lut r up w) (unat h) 0 ht = Some ls"
  shows "encode_run env j r up w h lut ht =
    Some (encode_job (encoder_zero j (file_sink (ee_fwrite env)) \<lparr>f_contents = [], f_err = False\<rparr>) j
      (file_sink (ee_fwrite env)) \<lparr>f_contents = [], f_err = False\<rparr> [(unat w, page_workspace env w, ls)])"
  unfolding encode_run_def encode_job_def page_calls_def page_workspace_def Let_def
  using encode_lines_total [OF assms]
  by (simp add: in_order_append Let_def case_prod_unfold)

lemma encode_run_ok:
  assumes "encode_run env j r up w h lut ht = Some (0, e)"
  shows "\<exists>ls. page_lines (encode_line (ee_tile env) lut r up w) (unat h) 0 ht = Some ls
    \<and> encode_job (encoder_zero j (file_sink (ee_fwrite env)) \<lparr>f_contents = [], f_err = False\<rparr>) j
      (file_sink (ee_fwrite env)) \<lparr>f_contents = [], f_err = False\<rparr> [(unat w, page_workspace env w, ls)] = (0, e)"
proof -
  obtain e1 e2 where "encode_lines (encode_line (ee_tile env) lut r up w) (unat h) 0 ht e1 = Some (0, e2)"
    using assms unfolding encode_run_def Let_def
    by (auto simp del: in_order.simps split: prod.splits if_splits option.splits)
  from encode_lines_ok [OF this] obtain ls where
    ls: "page_lines (encode_line (ee_tile env) lut r up w) (unat h) 0 ht = Some ls" by blast
  with encode_run_job [OF ls, of j] assms show ?thesis by auto
qed

lemma encode_line_fits:
  "encode_line tile lut r up w y ht = Some (ht', bits) \<Longrightarrow> ht_width ht = unat w \<Longrightarrow>
     (unat w + 7) div 8 \<le> length bits \<and> ht_width ht' = unat w"
  using length_halftone_line halftone_line_size
  by (auto simp: encode_line_def Let_def split: if_splits) (metis fst_conv snd_conv order_refl prod.collapse)+

lemma page_lines_fit:
  "\<lbrakk>page_lines (encode_line tile lut r up w) n y ht = Some ls; ht_width ht = unat w\<rbrakk>
   \<Longrightarrow> \<forall>l \<in> set ls. (unat w + 7) div 8 \<le> length l"
proof (induction n arbitrary: y ht ls)
  case (Suc n)
  then obtain ht' bits where l: "encode_line tile lut r up w y ht = Some (ht', bits)"
    by (auto split: option.splits)
  then obtain ls' where ls: "page_lines (encode_line tile lut r up w) n (Suc y) ht' = Some ls'" "ls = bits # ls'"
    using Suc.prems by auto
  from encode_line_fits [OF l Suc.prems(2)] Suc.IH [OF ls(1)] ls(2) show ?case by auto
qed simp

lemma encode_run_total:
  assumes "page_lines (encode_line (ee_tile env) lut r up w) (unat h) 0 ht = Some ls"
    and "ee_fwrite env = (\<lambda>_ data. length data)" "\<And>n. length (ee_uninit env n) = n"
    and "job_valid j" "0 < unat w" "unat w \<le> 65280" "unat h \<le> 32768" "ht_width ht = unat w"
  shows "\<exists>e. encode_run env j r up w h lut ht = Some (0, e)"
proof -
  have "lines_ok (unat w) ls"
    using page_lines_fit [OF assms(1,8)] page_lines_length [OF assms(1)] assms(7) by (simp add: lines_ok_def)
  then show ?thesis
    using good_disk.encode_job_total [OF assms(4), of "[(unat w, page_workspace env w, ls)]"] assms(2,3,5,6)
    by (auto simp: encode_run_job [OF assms(1)] page_workspace_def)
qed

text \<open>A bitmap's lines are the rows of the file.\<close>

lemma bitmap_page_lines:
  assumes "ra_bilevel r" "lines_inside r" "y + n \<le> unat (ra_height r)"
  shows "page_lines (encode_line tile lut r False (ra_width r)) n y ht = Some (map (raster_line r) [y..<y + n])"
  using assms(3)
proof (induction n arbitrary: y)
  case (Suc n)
  have "encode_line tile lut r False (ra_width r) y ht = Some (ht, raster_line r y)"
    using assms(1,2) Suc.prems by (simp add: encode_line_def lines_inside_def line_need_def)
  moreover have "[y..<y + Suc n] = y # [Suc y..<Suc y + n]" by (simp add: upt_conv_Cons)
  ultimately show ?case using Suc by simp
qed simp

section \<open>A bitmap file\<close>

text \<open>A job depends on the used bytes of its lines only.\<close>

lemma clean_row_take: "clean_row w (take ((w + 7) div 8) l) = clean_row w l"
  by (simp add: clean_row_def store_row_def)

lemma band_rows_take: "band_rows w (map (take ((w + 7) div 8)) ls) = band_rows w ls"
  by (simp add: band_rows_def comp_def clean_row_take)

lemma take_drop_concat:
  "\<lbrakk>\<forall>l \<in> set ls. length l = n; y < length ls\<rbrakk> \<Longrightarrow> take n (drop (y * n) (concat ls)) = ls ! y"
proof (induction ls arbitrary: y)
  case (Cons l ls)
  then show ?case by (cases y) simp_all
qed simp

text \<open>The bitmap file, loaded again.\<close>

lemma rendered_bitmap_loads:
  assumes "w \<noteq> 0" "h \<noteq> 0" "unat w \<le> 2 ^ 32 - 8" "length ls = unat h"
    and "\<forall>l \<in> set ls. length l = (unat w + 7) div 8"
  shows "\<exists>r. cli_raster_open (Some (pbm_bytes w h (concat ls))) = Some r \<and> ra_bilevel r \<and> ra_width r = w
    \<and> ra_height r = h \<and> lines_inside r \<and> ra_x_dpi r = 0 \<and> ra_page_size r = []
    \<and> map (take ((unat w + 7) div 8)) (map (raster_line r) [0..<unat h]) = ls"
proof -
  define bpr where "bpr = (unat w + 7) div 8"
  define d where "d = pbm_bytes w h (concat ls)"
  have "length (concat ls) = bpr * unat h"
    using assms(4,5) by (simp add: length_concat bpr_def sum_list_triv cong: map_cong)
  from pnm_parse_pbm_bytes [OF assms(1,2), of "concat ls"] this
  obtain p where p: "m2022_pnm_parse d = Inr p" "pnm_type p = 4" "pnm_width p = w" "pnm_height p = h"
    "drop (pnm_pixels p) d = concat ls" by (auto simp: d_def bpr_def)
  have d: "2 < length d" "d ! 0 = 80"
    using p(1) by (auto simp: m2022_pnm_parse_def split: if_splits)
  then obtain r where r: "cli_raster_open (Some d) = Some r" "ra_bilevel r" "ra_width r = w" "ra_height r = h"
    "ra_line_bytes r = (w + 7) div 8" "ra_pixels r = concat ls" "ra_x_dpi r = 0" "ra_page_size r = []"
    using p by (auto simp: cli_raster_open_def raster_zero_def Let_def)
  have lb: "unat (ra_line_bytes r) = bpr" using r(5) word_add_7_div_8 [of w] assms(3) by (simp add: bpr_def)
  have inside: "lines_inside r" using pnm_lines_inside [OF r(1) d] r(3) assms(3) by simp
  have "map (take bpr) (map (raster_line r) [0..<unat h]) = ls"
    using take_drop_concat [of ls bpr] assms(4,5) lb r(6)
    by (intro nth_equalityI) (simp_all add: raster_line_def bpr_def)
  then show ?thesis using r inside by (auto simp: d_def bpr_def)
qed

section \<open>Properties\<close>

text \<open>C7: Whatever the disk does, when every call of a job succeeds the file holds exactly the job's stream:
  the envelope, each page's header, the records of its bands that are not blank, and the closing
  records; the encoder's counters of bytes, pages and bands agree with it.\<close>

theorem job_file_holds_stream:
  assumes "encode_job e0 j (file_sink fw) ctx ps = (0, e)"
    and "\<forall>(w, ws, ls) \<in> set ps. lines_ok w ls"
  shows "f_contents (sink_ctx e) = f_contents ctx @ job_stream j (map (\<lambda>(w, ws, ls). (w, ls)) ps)
    \<and> bytes_out e = length (job_stream j (map (\<lambda>(w, ws, ls). (w, ls)) ps))
    \<and> pages e = length ps
    \<and> bands_written e + bands_blank e = sum_list (map (\<lambda>(w, ws, ls). (length ls + 127) div 128) ps)
    \<and> \<not> in_job e"
  by (rule job_file.encode_job_stream [OF assms])

definition fresh :: "file_ctx encoder" where
  "fresh = encoder_zero m2022_qpdl_job_default (file_sink (\<lambda>_ data. length data))
     \<lparr>f_contents = [], f_err = False\<rparr>"

lemma job_file_holds_stream_witness:
  "\<exists>e. encode_job fresh m2022_qpdl_job_default (file_sink (\<lambda>_ data. length data)) \<lparr>f_contents = [], f_err = False\<rparr> []
       = (0, e) \<and> f_contents (sink_ctx e) = job_stream m2022_qpdl_job_default []"
proof -
  have "job_valid m2022_qpdl_job_default" by code_simp
  then obtain e where e: "encode_job fresh m2022_qpdl_job_default (file_sink (\<lambda>_ data. length data))
      \<lparr>f_contents = [], f_err = False\<rparr> [] = (0, e)"
    using good_disk.encode_job_total [of m2022_qpdl_job_default "[]" fresh] by auto
  with job_file_holds_stream [OF e] show ?thesis by auto
qed

text \<open>C11: With a disk that takes everything, a valid job never fails: its header fits the formatting buffer,
  every band fits the payload buffer of the workspace, no page of at most 32768 lines runs out of band
  numbers.\<close>

theorem valid_job_never_fails:
  assumes "job_valid j"
    and "\<forall>(w, ws, ls) \<in> set ps. lines_ok w ls \<and> 0 < w \<and> w \<le> 65280
      \<and> m2022_qpdl_encoder_workspace_bytes w \<le> length ws"
  shows "\<exists>e. encode_job e0 j (file_sink (\<lambda>_ data. length data)) ctx ps = (0, e)"
  by (rule good_disk.encode_job_total [OF assms])

lemma valid_job_never_fails_witness:
  "\<exists>e. encode_job fresh m2022_qpdl_job_default (file_sink (\<lambda>_ data. length data)) \<lparr>f_contents = [], f_err = False\<rparr>
     [(8, replicate (m2022_qpdl_encoder_workspace_bytes 8) 0, [[0xFF], [0x80]])] = (0, e)"
proof -
  have "job_valid m2022_qpdl_job_default" by code_simp
  from valid_job_never_fails [OF this, of
      "[(8, replicate (m2022_qpdl_encoder_workspace_bytes 8) 0, [[0xFF], [0x80]])]" fresh
      "\<lparr>f_contents = [], f_err = False\<rparr>"]
  show ?thesis by (simp add: lines_ok_def)
qed

text \<open>A page that \<open>encode\<close> writes is a page that \<open>decode\<close> shows: when the run succeeds, the job file is
  read back without an error and its one bitmap holds the rows that the pipeline produced (\<open>page_lines\<close>:
  the input rows for a bitmap, the toned and halftoned ones otherwise).\<close>

theorem encode_then_decode:
  assumes "encode_run env j r up w h lut ht = Some (0, e)" "quiet_job j"
    and "unat h \<le> 32768" "ht_width ht = unat w"
  shows "\<exists>ls d. page_lines (encode_line (ee_tile env) lut r up w) (unat h) 0 ht = Some ls
    \<and> cmd_decode (\<lambda>_ _. True) (\<lambda>_. True) True (f_contents (sink_ctx e)) = Some (0, d)
    \<and> dc_pages d = 1 \<and> pbms d = page_pbm 1 (unat w) ls"
proof -
  from encode_run_ok [OF assms(1)] obtain ls where
    ls: "page_lines (encode_line (ee_tile env) lut r up w) (unat h) 0 ht = Some ls"
    and job: "encode_job (encoder_zero j (file_sink (ee_fwrite env)) \<lparr>f_contents = [], f_err = False\<rparr>) j
      (file_sink (ee_fwrite env)) \<lparr>f_contents = [], f_err = False\<rparr> [(unat w, page_workspace env w, ls)] = (0, e)"
    by blast
  have ok: "lines_ok (unat w) ls"
    using page_lines_fit [OF ls assms(4)] page_lines_length [OF ls] assms(3) by (simp add: lines_ok_def)
  have "f_contents (sink_ctx e) = job_stream j [(unat w, ls)]"
    using job_file.encode_job_stream [OF job] ok by simp
  moreover have "job_valid j \<and> 0 < unat w \<and> unat w \<le> 65280"
    using job_file.encode_job_guards [OF job] ok by simp
  ultimately show ?thesis
    using decode_job_stream [of j "[(unat w, ls)]"] assms(2) ok ls by auto
qed

lemma encode_then_decode_witness:
  "let r = raster_zero\<lparr>ra_width := 8, ra_height := 1, ra_bilevel := True, ra_line_bytes := 1, ra_pixels := [0xF0]\<rparr>;
       env = \<lparr>ee_read = (\<lambda>_. None), ee_atof = (\<lambda>_. 0), ee_alloc = True, ee_uninit = (\<lambda>n. replicate n 0),
         ee_create = (\<lambda>_. True), ee_fwrite = (\<lambda>_ data. length data), ee_close = True,
         ee_today = [], ee_version = [], ee_tile = []\<rparr>;
       ht = \<lparr>ht_params = m2022_ht_default M2022_HT_THRESHOLD, ht_width = 8, matrix = [], cell = 0,
         err_cur = None, err_next = None\<rparr>
   in \<exists>e d. encode_run env m2022_qpdl_job_default r False 8 1 [] ht = Some (0, e)
        \<and> cmd_decode (\<lambda>_ _. True) (\<lambda>_. True) True (f_contents (sink_ctx e)) = Some (0, d) \<and> dc_pages d = 1"
proof -
  define r where "r = raster_zero\<lparr>ra_width := 8, ra_height := 1, ra_bilevel := True, ra_line_bytes := 1,
    ra_pixels := [0xF0]\<rparr>"
  define env where "env = \<lparr>ee_read = (\<lambda>_. None), ee_atof = (\<lambda>_. 0), ee_alloc = True,
    ee_uninit = (\<lambda>n. replicate n 0), ee_create = (\<lambda>_. True), ee_fwrite = (\<lambda>_ data. length data),
    ee_close = True, ee_today = [], ee_version = [], ee_tile = []\<rparr>"
  define ht where "ht = \<lparr>ht_params = m2022_ht_default M2022_HT_THRESHOLD, ht_width = 8, matrix = [], cell = 0,
    err_cur = None, err_next = None\<rparr>"
  have r: "ra_bilevel r" "ra_width r = 8" "unat (ra_height r) = 1" "lines_inside r"
    by (simp_all add: r_def raster_zero_def lines_inside_def line_need_def raster_line_def)
  have one: "unat (1 :: u32) = 1" by simp
  have lines: "page_lines (encode_line (ee_tile env) [] r False 8) (unat (1 :: u32)) 0 ht = Some [raster_line r 0]"
    using bitmap_page_lines [OF r(1,4), of 0 1] r(2,3) unfolding one by simp
  have "job_valid m2022_qpdl_job_default" by code_simp
  then obtain e where e: "encode_run env m2022_qpdl_job_default r False 8 1 [] ht = Some (0, e)"
    using encode_run_total [OF lines, of m2022_qpdl_job_default] by (auto simp: env_def ht_def)
  have "quiet_job m2022_qpdl_job_default" by code_simp
  from encode_then_decode [OF e this] e show ?thesis
    unfolding Let_def r_def [symmetric] env_def [symmetric] ht_def [symmetric] by (auto simp: ht_def)
qed

section \<open>The command on a bitmap\<close>

lemma bitmap_run:
  assumes "ra_bilevel r" "lines_inside r" "0 < unat (ra_width r)" "unat (ra_width r) \<le> 65280"
    and "unat (ra_height r) \<le> 32768" "ht_width ht = unat (ra_width r)" "job_valid j" "quiet_job j"
    and "ee_fwrite env = (\<lambda>_ data. length data)" "\<And>n. length (ee_uninit env n) = n"
  shows "\<exists>e d. encode_run env j r False (ra_width r) (ra_height r) lut ht = Some (0, e)
    \<and> cmd_decode (\<lambda>_ _. True) (\<lambda>_. True) True (f_contents (sink_ctx e)) = Some (0, d)
    \<and> dc_pages d = 1 \<and> pbms d = page_pbm 1 (unat (ra_width r)) (map (raster_line r) [0..<unat (ra_height r)])"
proof -
  define ls where "ls = map (raster_line r) [0..<unat (ra_height r)]"
  have lines: "page_lines (encode_line (ee_tile env) lut r False (ra_width r)) (unat (ra_height r)) 0 ht = Some ls"
    using bitmap_page_lines [OF assms(1,2), of 0] by (simp add: ls_def)
  obtain e where e: "encode_run env j r False (ra_width r) (ra_height r) lut ht = Some (0, e)"
    using encode_run_total [OF lines assms(9,10,7,3,4,5,6)] by blast
  obtain ls' where ls': "page_lines (encode_line (ee_tile env) lut r False (ra_width r)) (unat (ra_height r)) 0 ht
      = Some ls'" and job: "encode_job (encoder_zero j (file_sink (ee_fwrite env)) \<lparr>f_contents = [], f_err = False\<rparr>) j
      (file_sink (ee_fwrite env)) \<lparr>f_contents = [], f_err = False\<rparr>
      [(unat (ra_width r), page_workspace env (ra_width r), ls')] = (0, e)"
    using encode_run_ok [OF e] by blast
  have same: "ls' = ls" using ls' lines by simp
  have ok: "lines_ok (unat (ra_width r)) ls"
    using page_lines_fit [OF lines assms(6)] page_lines_length [OF lines] assms(5) by (simp add: lines_ok_def)
  have "f_contents (sink_ctx e) = job_stream j [(unat (ra_width r), ls)]"
    using job_file.encode_job_stream [OF job] ok same by simp
  then show ?thesis
    using decode_job_stream [of j "[(unat (ra_width r), ls)]"] assms(3,4,7,8) ok e by (auto simp: ls_def)
qed

text \<open>The command behind its checks.\<close>

lemma cmd_encode_run:
  assumes "encode_args (ee_atof env) argv = Some a" "cli_halftone_resolve (ea_opts a) = (tone, hp, name)"
    and "cli_raster_open (ee_read env (the (ea_in a))) = Some r" "find_media (media_choice a r) = Some m"
    and "\<not> (dpi (ea_job a) = 1200 \<and> (ra_x_dpi r = 600 \<or> ra_x_dpi r = 0))"
    and "m2022_halftoner_init hp (unat (ra_width r)) (Some (m2022_halftoner_state_bytes (unat (ra_width r)))) = Some ht"
    and "ee_alloc env" "ee_create env (ea_out a)" "ee_close env"
    and "encode_run env (encode_job_of env (ea_job a) m) r False (ra_width r) (ra_height r)
      (m2022_tone_build tone) ht = Some (0, e)"
  shows "cmd_encode env argv = Some (0, Some (f_contents (sink_ctx e)))"
proof -
  have dpi: "dpi (encode_job_of env (ea_job a) m) = dpi (ea_job a)" by (simp add: encode_job_of_def)
  have flag: "(dpi (ea_job a) = 1200 \<and> (ra_x_dpi r = 600 \<or> ra_x_dpi r = 0)) = False" using assms(5) by blast
  show ?thesis
    unfolding cmd_encode_def assms(1) option.case assms(2) Let_def prod.case assms(3,4) dpi flag if_False
    using assms(6-10) by simp
qed

text \<open>C1: A bitmap survives the way through the printer's language. The encode command on a bitmap file of 1 to
  65280 pixels by at most 32768 rows that lie inside the file, with a known paper, a valid job none of whose
  text lines before the last contains ENTER LANGUAGE, memory, and an output file that takes everything: for a
  job of 1200 dpi it refuses a bitmap whose file gives 600 dpi or no resolution (exit status 2, no output
  file); otherwise it succeeds, and decode of the job file, with memory and bitmap files that can be created,
  succeeds and gives one page with the bitmap's rows again, down to the last band of 128 rows with ink in it.\<close>

theorem bitmap_survives:
  assumes "encode_args (ee_atof env) argv = Some a" "cli_raster_open (ee_read env (the (ea_in a))) = Some r"
    and "find_media (media_choice a r) = Some m" "ra_bilevel r" "lines_inside r"
    and "0 < unat (ra_width r)" "unat (ra_width r) \<le> 65280" "unat (ra_height r) \<le> 32768"
    and "job_valid (encode_job_of env (ea_job a) m)" "quiet_job (encode_job_of env (ea_job a) m)"
    and "ee_alloc env" "ee_create env (ea_out a)" "ee_close env"
    and "ee_fwrite env = (\<lambda>_ data. length data)" "\<And>n. length (ee_uninit env n) = n"
  shows "if dpi (ea_job a) = 1200 \<and> (ra_x_dpi r = 600 \<or> ra_x_dpi r = 0) then cmd_encode env argv = Some (2, None)
    else \<exists>out d. cmd_encode env argv = Some (0, Some out)
      \<and> cmd_decode (\<lambda>_ _. True) (\<lambda>_. True) True out = Some (0, d) \<and> dc_pages d = 1
      \<and> pbms d = page_pbm 1 (unat (ra_width r)) (map (raster_line r) [0..<unat (ra_height r)])"
proof -
  obtain tone hp name where res: "cli_halftone_resolve (ea_opts a) = (tone, hp, name)" by (metis prod_cases3)
  obtain ht where ht: "m2022_halftoner_init hp (unat (ra_width r))
      (Some (m2022_halftoner_state_bytes (unat (ra_width r)))) = Some ht"
    using halftoner_init_total by blast
  show ?thesis
  proof (cases "dpi (ea_job a) = 1200 \<and> (ra_x_dpi r = 600 \<or> ra_x_dpi r = 0)")
    case True
    then show ?thesis
      unfolding cmd_encode_def assms(1) option.case res Let_def prod.case assms(2,3)
      using assms(4) by (simp add: encode_job_of_def)
  next
    case False
    have wd: "ht_width ht = unat (ra_width r)" using halftoner_init_width [OF ht] by simp
    obtain e d where e: "encode_run env (encode_job_of env (ea_job a) m) r False (ra_width r) (ra_height r)
        (m2022_tone_build tone) ht = Some (0, e)"
      and d: "cmd_decode (\<lambda>_ _. True) (\<lambda>_. True) True (f_contents (sink_ctx e)) = Some (0, d)" "dc_pages d = 1"
        "pbms d = page_pbm 1 (unat (ra_width r)) (map (raster_line r) [0..<unat (ra_height r)])"
      using bitmap_run [OF assms(4-8) wd assms(9,10,14,15)] by blast
    from cmd_encode_run [OF assms(1) res assms(2,3) False ht assms(11-13) e] d False show ?thesis by auto
  qed
qed

text \<open>A bitmap of eight dots in one row.\<close>

definition bitmap_sample :: encode_env where
  "bitmap_sample = \<lparr>ee_read = (\<lambda>_. Some (pbm_bytes 8 1 [0xF0])), ee_atof = (\<lambda>_. 0), ee_alloc = True,
     ee_uninit = (\<lambda>n. replicate n 0), ee_create = (\<lambda>_. True), ee_fwrite = (\<lambda>_ data. length data),
     ee_close = True, ee_today = ascii ''20260101'', ee_version = ascii ''1.0'', ee_tile = []\<rparr>"

lemma bitmap_sample_loads:
  obtains r where "cli_raster_open (Some (pbm_bytes 8 1 [0xF0])) = Some r" "ra_bilevel r" "ra_width r = 8"
    "ra_height r = 1" "lines_inside r" "ra_x_dpi r = 0" "ra_page_size r = []"
    "take 1 (raster_line r 0) = [0xF0]"
proof -
  have one: "unat (1 :: u32) = 1" by simp
  from rendered_bitmap_loads [of 8 1 "[[0xF0]]"] that show thesis by (auto simp: one)
qed

lemma bitmap_sample_job:
  "job_valid (encode_job_of bitmap_sample m2022_qpdl_job_default (MEDIA ! 0))"
  "quiet_job (encode_job_of bitmap_sample m2022_qpdl_job_default (MEDIA ! 0))"
proof -
  have "encode_job_of bitmap_sample m2022_qpdl_job_default (MEDIA ! 0) =
      m2022_qpdl_job_default\<lparr>service_date := Some (ascii ''20260101''), producer := Some (ascii ''M2022 AirBridge 1.0'')\<rparr>"
    by (simp add: encode_job_of_def bitmap_sample_def m2022_qpdl_job_default_def MEDIA_def medium_def ascii_def)
  moreover have "job_valid (m2022_qpdl_job_default\<lparr>service_date := Some (ascii ''20260101''),
        producer := Some (ascii ''M2022 AirBridge 1.0'')\<rparr>)"
    "quiet_job (m2022_qpdl_job_default\<lparr>service_date := Some (ascii ''20260101''),
        producer := Some (ascii ''M2022 AirBridge 1.0'')\<rparr>)" by code_simp+
  ultimately show "job_valid (encode_job_of bitmap_sample m2022_qpdl_job_default (MEDIA ! 0))"
    "quiet_job (encode_job_of bitmap_sample m2022_qpdl_job_default (MEDIA ! 0))" by simp_all
qed

lemma bitmap_survives_witness:
  "\<exists>out d. cmd_encode bitmap_sample [''page.pbm''] = Some (0, Some out)
     \<and> cmd_decode (\<lambda>_ _. True) (\<lambda>_. True) True out = Some (0, d) \<and> dc_pages d = 1
     \<and> length (pbms d) = 1"
proof -
  define a where "a = \<lparr>ea_opts = cli_halftone_opts_init, ea_job = m2022_qpdl_job_default, ea_in = Some ''page.pbm'',
    ea_out = ''job.spl'', ea_media = None\<rparr>"
  have a: "encode_args (ee_atof bitmap_sample) [''page.pbm''] = Some a"
    by (simp add: encode_args_def cli_halftone_opt_def a_def m2022_qpdl_job_default_def)
  obtain r where r: "cli_raster_open (Some (pbm_bytes 8 1 [0xF0])) = Some r" "ra_bilevel r" "ra_width r = 8"
    "ra_height r = 1" "lines_inside r" "ra_x_dpi r = 0" "ra_page_size r = []"
    "take 1 (raster_line r 0) = [0xF0]" by (rule bitmap_sample_loads)
  have loaded: "cli_raster_open (ee_read bitmap_sample (the (ea_in a))) = Some r"
    by (simp add: bitmap_sample_def r(1))
  have media: "find_media (media_choice a r) = Some (MEDIA ! 0)"
    by (simp add: media_choice_def a_def r(7) find_media_def m2022_media_by_pwg_def m2022_media_default_pwg_def MEDIA_def)
  have ok: "job_valid (encode_job_of bitmap_sample (ea_job a) (MEDIA ! 0))"
    "quiet_job (encode_job_of bitmap_sample (ea_job a) (MEDIA ! 0))"
    using bitmap_sample_job by (simp_all add: a_def)
  have size: "0 < unat (ra_width r)" "unat (ra_width r) \<le> 65280" "unat (ra_height r) \<le> 32768" "dpi (ea_job a) = 600"
    by (simp_all add: r a_def m2022_qpdl_job_default_def)
  have env: "ee_alloc bitmap_sample" "ee_create bitmap_sample (ea_out a)" "ee_close bitmap_sample"
    "ee_fwrite bitmap_sample = (\<lambda>_ data. length data)" "length (ee_uninit bitmap_sample n) = n" for n
    by (simp_all add: bitmap_sample_def)
  have row: "[0..<unat (ra_height r)] = [0]" using r(4) by simp
  have "blocks 8 [raster_line r 0] = blocks 8 [[0xF0]]"
    using band_rows_take [of 8 "[raster_line r 0]"] r(8) by (simp add: blocks.simps [of 8 "_ # _"] blocks.simps [of 8 "[]"])
  moreover have "last_inked 0 (blocks 8 [[0xF0]]) (-1) = 0" by code_simp
  moreover have "length (blocks 8 [[0xF0 :: u8]]) = 1" by code_simp
  ultimately have "length (page_pbm 1 8 [raster_line r 0]) = 1" by (simp add: page_pbm_def)
  then show ?thesis
    using bitmap_survives [OF a loaded media r(2,5) size(1-3) ok env] size(4) r(3)
    unfolding row by auto
qed

end
