(* ===== verification/Files.thy ===== *)
theory Files
  imports Fileio
begin

text \<open>
  Model of the file operations of src/common/fileio.c: reading a whole file through zlib into a buffer
  that grows, and writing a file or a bitmap. What zlib, \<open>malloc\<close> and the stdio calls answer is the
  environment.
\<close>

section \<open>Reading\<close>

text \<open>
  An open gzip stream: its uncompressed content, and what \<open>gzread\<close> answers at a position when it is
  asked for some bytes. A negative answer is an error; otherwise it is a number of bytes, never more than
  were asked for or are left.
\<close>

record gz_file =
  gz_data :: bytes
  gz_answer :: "nat \<Rightarrow> nat \<Rightarrow> int"

definition gzread :: "gz_file \<Rightarrow> nat \<Rightarrow> nat \<Rightarrow> bytes option" where
  "gzread f pos n =
    (let got = gz_answer f pos n
     in if got < 0 then None else Some (take (min (nat got) n) (drop pos (gz_data f))))"

lemma gzread_shrinks:
  "gzread f pos n = Some data \<Longrightarrow> data \<noteq> [] \<Longrightarrow>
     length (gz_data f) - (pos + length data) < length (gz_data f) - pos"
  by (auto simp: gzread_def Let_def min_def split: if_splits)

text \<open>
  The loop of \<open>m2022_read_file\<close> with the bytes read so far and the capacity of the buffer;
  \<open>alloc n\<close> is whether a block of \<open>n\<close> bytes can be had. \<open>None\<close> is the NULL pointer.
\<close>

function read_file_loop :: "(nat \<Rightarrow> bool) \<Rightarrow> gz_file \<Rightarrow> nat \<Rightarrow> bytes \<Rightarrow> bytes option" where
  "read_file_loop alloc f cap buf =
    (let n = length buf
     in if n = cap \<and> \<not> alloc (cap * 2) then None
        else
          let cap' = (if n = cap then cap * 2 else cap)
          in (case gzread f n ((cap' - n) mod 2 ^ 32) of
                None \<Rightarrow> None
              | Some data \<Rightarrow> if data = [] then Some buf else read_file_loop alloc f cap' (buf @ data)))"
  by pat_completeness auto
termination
  by (relation "measure (\<lambda>(alloc, f, cap, buf). length (gz_data f) - length buf)")
    (auto dest!: gzread_shrinks)

declare read_file_loop.simps [simp del]

definition m2022_read_file :: "(nat \<Rightarrow> bool) \<Rightarrow> (string \<Rightarrow> gz_file option) \<Rightarrow> string \<Rightarrow> bytes option" where
  "m2022_read_file alloc gzopen p =
    (case gzopen p of
       None \<Rightarrow> None
     | Some f \<Rightarrow> if alloc (2 ^ 20) then read_file_loop alloc f (2 ^ 20) [] else None)"

section \<open>Writing\<close>

text \<open>
  A stream that \<open>fopen\<close> created empty: \<open>ws_take contents data\<close> is how many bytes of the data it
  accepts, \<open>ws_close\<close> whether \<open>fclose\<close> succeeds.
\<close>

record write_stream =
  ws_take :: "bytes \<Rightarrow> bytes \<Rightarrow> nat"
  ws_close :: bool

definition fwrite :: "write_stream \<Rightarrow> bytes \<Rightarrow> bytes \<Rightarrow> nat \<times> bytes" where
  "fwrite s contents data =
    (let n = min (length data) (ws_take s contents data) in (n, contents @ take n data))"

text \<open>The return code, and the file that is there afterwards when it could be opened.\<close>

definition m2022_write_file :: "write_stream option \<Rightarrow> bytes \<Rightarrow> int \<times> bytes option" where
  "m2022_write_file s data =
    (case s of
       None \<Rightarrow> (-1, None)
     | Some s \<Rightarrow> (let (n, f) = fwrite s [] data
                   in (if ws_close s \<and> n = length data then 0 else -1, Some f)))"

text \<open>The header's \<open>fprintf\<close> is not checked. \<open>rows\<close> is what can be read behind the pointer.\<close>

definition m2022_pbm_write :: "write_stream option \<Rightarrow> u32 \<Rightarrow> u32 \<Rightarrow> bytes \<Rightarrow> int \<times> bytes option" where
  "m2022_pbm_write s w h rows =
    (case s of
       None \<Rightarrow> (-1, None)
     | Some s \<Rightarrow>
         let bpr = (unat w + 7) div 8;
             header = ascii (''P4'' @ [CHR 0x0A] @ decimal (unat w) @ '' '' @ decimal (unat h) @ [CHR 0x0A]);
             (_, f) = fwrite s [] header;
             (n, f') = fwrite s f (take (bpr * unat h) rows)
         in (if ws_close s \<and> n = bpr * unat h then 0 else -1, Some f'))"

section \<open>The whole file\<close>

text \<open>
  What zlib documents: asked for 1 to 2^31 - 1 bytes, \<open>gzread\<close> returns at least one while there are
  some left. It may return fewer than were asked for.
\<close>

definition gz_reads :: "gz_file \<Rightarrow> bool" where
  "gz_reads f \<longleftrightarrow>
    (\<forall>pos n. pos < length (gz_data f) \<and> 0 < n \<and> n < 2 ^ 31 \<longrightarrow> 0 < gz_answer f pos n)
    \<and> (\<forall>n. n < 2 ^ 31 \<longrightarrow> 0 \<le> gz_answer f (length (gz_data f)) n)"

lemma gzread_some:
  assumes "gz_reads f" "pos \<le> length (gz_data f)" "0 < n" "n < 2 ^ 31"
  shows "\<exists>k. gzread f pos n = Some (take k (drop pos (gz_data f))) \<and> k \<le> n
    \<and> (pos < length (gz_data f) \<longrightarrow> 0 < k)"
proof -
  define a where "a = gz_answer f pos n"
  have "0 \<le> a \<and> (pos < length (gz_data f) \<longrightarrow> 0 < a)"
    using assms unfolding a_def gz_reads_def by (metis order.strict_implies_order le_neq_implies_less)
  then show ?thesis
    using assms(3) by (intro exI [of _ "min (nat a) n"]) (auto simp: gzread_def a_def Let_def)
qed

text \<open>The capacity is never more than twice what has been read, so the requests stay small.\<close>

lemma read_file_loop_whole:
  assumes "gz_reads f" "length (gz_data f) < 2 ^ 31" "\<And>n. alloc n"
    and "buf = take n (gz_data f)" "n \<le> length (gz_data f)" "n \<le> cap" "0 < cap" "cap \<le> max (2 ^ 20) (2 * n)"
  shows "read_file_loop alloc f cap buf = Some (gz_data f)"
  using assms(4-8)
proof (induction "length (gz_data f) - n" arbitrary: n cap buf rule: less_induct)
  case less
  define cap' where "cap' = (if n = cap then cap * 2 else cap)"
  have len: "length buf = n" using less.prems(1,2) by simp
  have room: "0 < cap' - n" "cap' - n < 2 ^ 31" "cap' \<le> max (2 ^ 20) (2 * n)"
    using less.prems(2-5) assms(2) by (auto simp: cap'_def)
  then have req: "(cap' - n) mod 2 ^ 32 = cap' - n" by (intro mod_less) simp
  obtain k where k: "gzread f n (cap' - n) = Some (take k (drop n (gz_data f)))" "k \<le> cap' - n"
    "n < length (gz_data f) \<longrightarrow> 0 < k"
    using gzread_some [OF assms(1) less.prems(2) room(1,2)] by blast
  have step: "read_file_loop alloc f cap buf =
    (if take k (drop n (gz_data f)) = [] then Some buf
     else read_file_loop alloc f cap' (buf @ take k (drop n (gz_data f))))"
    by (subst read_file_loop.simps) (simp only: Let_def len assms(3) cap'_def [symmetric] req k(1)
        option.case simp_thms if_False not_True_eq_False)
  show ?case
  proof (cases "n = length (gz_data f)")
    case True
    then show ?thesis using step less.prems(1) by simp
  next
    case False
    define n' where "n' = n + min k (length (gz_data f) - n)"
    have part: "take k (drop n (gz_data f)) = take (min k (length (gz_data f) - n)) (drop n (gz_data f))"
      by (simp add: min_def)
    have more: "buf @ take k (drop n (gz_data f)) = take n' (gz_data f)"
      using less.prems(1) take_add [of n "min k (length (gz_data f) - n)" "gz_data f"] part
      by (simp add: n'_def)
    have n': "n < n'" "n' \<le> length (gz_data f)" "n' \<le> cap'"
      using k(2,3) False less.prems(2) room(1) by (auto simp: n'_def)
    have "cap' \<le> max (2 ^ 20) (2 * n')" using room(3) n'(1) by linarith
    then have "read_file_loop alloc f cap' (buf @ take k (drop n (gz_data f))) = Some (gz_data f)"
      using less.hyps [of n' "buf @ take k (drop n (gz_data f))" cap'] more n' room(1) by simp
    moreover have "take k (drop n (gz_data f)) \<noteq> []" using False k(3) less.prems(2) by simp
    ultimately show ?thesis using step by simp
  qed
qed

text \<open>When the disk took the header whole, success means that the file is the bitmap.\<close>

lemma pbm_write_bytes:
  assumes "m2022_pbm_write (Some s) w h rows = (0, Some f)"
    and "length (pbm_bytes w h []) \<le> ws_take s [] (pbm_bytes w h [])"
  shows "f = pbm_bytes w h rows \<and> length (take ((unat w + 7) div 8 * unat h) rows) = (unat w + 7) div 8 * unat h"
proof -
  have "fwrite s [] (pbm_bytes w h []) = (length (pbm_bytes w h []), pbm_bytes w h [])"
    using assms(2) by (simp add: fwrite_def Let_def min_absorb1)
  then show ?thesis
    using assms(1) by (auto simp: m2022_pbm_write_def pbm_bytes_def fwrite_def Let_def min_def split: if_splits)
qed

text \<open>Success alone does not mean that: a header that is lost goes unnoticed.\<close>

lemma lost_header_unnoticed:
  "m2022_pbm_write (Some \<lparr>ws_take = (\<lambda>c d. if length d = 1 then 1 else 0), ws_close = True\<rparr>) 8 1 [0xF0]
    = (0, Some [0xF0])"
  by (simp add: m2022_pbm_write_def fwrite_def ascii_def)

section \<open>Properties\<close>

text \<open>Reading a file gives its whole content, however the reads are cut: with enough memory and a stream
  that reads as zlib documents, m2022_read_file returns exactly the uncompressed bytes of any file below 2 GiB.\<close>

theorem read_file_whole:
  assumes "gzopen p = Some f" "gz_reads f" "length (gz_data f) < 2 ^ 31" "\<And>n. alloc n"
  shows "m2022_read_file alloc gzopen p = Some (gz_data f)"
  using read_file_loop_whole [OF assms(2,3), of alloc "[]" 0 "2 ^ 20"] assms(1,4)
  by (simp add: m2022_read_file_def)

text \<open>A stream that gives one byte at a time.\<close>

definition slow_gz :: "bytes \<Rightarrow> gz_file" where
  "slow_gz d = \<lparr>gz_data = d, gz_answer = (\<lambda>_ _. 1)\<rparr>"

lemma read_file_whole_witness:
  "m2022_read_file (\<lambda>_. True) (\<lambda>_. Some (slow_gz [1, 2, 3])) ''page.pbm'' = Some [1, 2, 3]"
proof -
  have "gz_reads (slow_gz [1, 2, 3])" by (simp add: gz_reads_def slow_gz_def)
  from read_file_whole [OF refl this, of "\<lambda>_. True" "''page.pbm''"] show ?thesis
    by (simp add: slow_gz_def)
qed

text \<open>C30: A bitmap that m2022_pbm_write wrote with status 0 reads back as itself when the disk took the
  header's bytes, whose fprintf the code does not check: the file, below 2 GiB and of a page that is not empty,
  read with enough memory by a zlib that reads as it documents, is read whole, its header gives type, width and
  height, and behind it are exactly the pixel rows.\<close>

theorem pbm_file_reads_back:
  assumes "m2022_pbm_write (Some s) w h rows = (0, Some out)"
    and "length (pbm_bytes w h []) \<le> ws_take s [] (pbm_bytes w h [])"
    and "gzopen p = Some g" "gz_data g = out" "gz_reads g" "length out < 2 ^ 31" "\<And>n. alloc n"
    and "w \<noteq> 0" "h \<noteq> 0"
  shows "\<exists>d r. m2022_read_file alloc gzopen p = Some d \<and> m2022_pnm_parse d = Inr r
    \<and> pnm_type r = 4 \<and> pnm_width r = w \<and> pnm_height r = h
    \<and> drop (pnm_pixels r) d = take ((unat w + 7) div 8 * unat h) rows"
proof -
  define ps where "ps = take ((unat w + 7) div 8 * unat h) rows"
  have n: "length ps = (unat w + 7) div 8 * unat h" and bytes: "out = pbm_bytes w h ps"
    using pbm_write_bytes [OF assms(1,2)] by (simp_all add: pbm_bytes_def ps_def)
  have "m2022_read_file alloc gzopen p = Some out"
    using read_file_loop_whole [OF assms(5), of alloc "[]" 0 "2 ^ 20"] assms(3,4,6,7)
    by (simp add: m2022_read_file_def)
  then show ?thesis
    using pnm_parse_pbm_bytes [OF assms(8,9) n] bytes by (auto simp: ps_def)
qed

lemma pbm_file_reads_back_witness:
  "\<exists>d r. m2022_read_file (\<lambda>_. True) (\<lambda>_. Some (slow_gz (pbm_bytes 9 2 [1, 128, 2, 0]))) ''x.pbm'' = Some d
     \<and> m2022_pnm_parse d = Inr r \<and> pnm_width r = 9 \<and> drop (pnm_pixels r) d = [1, 128, 2, 0]"
proof -
  define g where "g = slow_gz (pbm_bytes 9 2 [1, 128, 2, 0])"
  have d: "gz_data g = pbm_bytes 9 2 [1, 128, 2, 0]" by (simp add: g_def slow_gz_def)
  have reads: "gz_reads g" by (simp add: gz_reads_def slow_gz_def g_def)
  have w: "m2022_pbm_write (Some \<lparr>ws_take = (\<lambda>c d. length d), ws_close = True\<rparr>) 9 2 [1, 128, 2, 0]
      = (0, Some (pbm_bytes 9 2 [1, 128, 2, 0]))"
    by (simp add: m2022_pbm_write_def fwrite_def pbm_bytes_def Let_def)
  have len: "length (pbm_bytes 9 2 [1, 128, 2, 0]) < 2 ^ 31"
    by (simp add: pbm_bytes_def decimal.simps)
  have header: "length (pbm_bytes 9 2 []) \<le> ws_take \<lparr>ws_take = (\<lambda>c d. length d), ws_close = True\<rparr> [] (pbm_bytes 9 2 [])"
    by simp
  show ?thesis
    using pbm_file_reads_back [OF w header _ d reads len, where p = "''x.pbm''" and gzopen = "\<lambda>_. Some g" and alloc = "\<lambda>_. True"]
    by (auto simp: g_def)
qed

end
