(* ===== verification/Cmd_Render.thy ===== *)
theory Cmd_Render
  imports Cmd_Encode Files
begin

text \<open>
  Model of src/cli/cmd_render.c: a page halftoned into a bitmap file, through the same options and page
  loader as \<open>encode\<close>, and the proof that \<open>encode\<close> of that bitmap gives the job that \<open>encode\<close> of the page
  itself gives. The messages on the terminal are not modelled.
\<close>

section \<open>The command line\<close>

record render_choices =
  rn_opts :: halftone_opts
  rn_in :: "string option"
  rn_out :: string

text \<open>The loop over \<open>argv\<close>; \<open>None\<close> is the exit status 2.\<close>

function render_args_loop :: "(string \<Rightarrow> real) \<Rightarrow> string list \<Rightarrow> render_choices \<Rightarrow> render_choices option" where
  "render_args_loop atof [] a = Some a"
| "render_args_loop atof (arg # rest) a =
    (case cli_halftone_opt atof (rn_opts a) arg rest of
       OptError \<Rightarrow> None
     | OptUsed opts rest' \<Rightarrow> render_args_loop atof rest' (a\<lparr>rn_opts := opts\<rparr>)
     | OptOther \<Rightarrow>
         if arg = ''--out'' \<and> rest \<noteq> [] then render_args_loop atof (tl rest) (a\<lparr>rn_out := hd rest\<rparr>)
         else if arg \<noteq> [] \<and> hd arg = CHR ''-'' then None
         else if rn_in a = None then render_args_loop atof rest (a\<lparr>rn_in := Some arg\<rparr>)
         else None)"
  by pat_completeness auto
termination
  by (relation "measure (\<lambda>(atof, args, a). length args)")
    (auto dest: cli_halftone_opt_shorter)

definition render_args :: "(string \<Rightarrow> real) \<Rightarrow> string list \<Rightarrow> render_choices option" where
  "render_args atof argv =
    (case render_args_loop atof argv
        \<lparr>rn_opts = cli_halftone_opts_init, rn_in = None, rn_out = ''page.pbm''\<rparr> of
       None \<Rightarrow> None
     | Some a \<Rightarrow> if rn_in a = None then None else Some a)"

section \<open>The page\<close>

text \<open>One row of the bitmap; \<open>None\<close> where the row's input does not lie inside the file.\<close>

definition render_line :: "bytes \<Rightarrow> bytes \<Rightarrow> cli_raster \<Rightarrow> nat \<Rightarrow> halftoner \<Rightarrow> (halftoner \<times> bytes) option" where
  "render_line tile lut r y ht =
    (let px = raster_line r y;
         w = unat (ra_width r);
         bpr = (w + 7) div 8
     in if ra_bilevel r then (if bpr \<le> length px then Some (ht, take bpr px) else None)
        else if length px < m2022_raster_line_bytes (ra_fmt r) w then None
        else
          let gray = m2022_raster_line_to_gray (ra_fmt r) px w;
              ink = m2022_tone_apply lut gray w
          in Some (m2022_halftone_line tile ht ink y))"

definition popcount :: "u8 \<Rightarrow> nat" where
  "popcount b = length (filter (bit b) [0..<8])"

text \<open>The loop over the page: the rows so far and the black dots in them.\<close>

fun render_lines ::
  "(nat \<Rightarrow> halftoner \<Rightarrow> (halftoner \<times> bytes) option) \<Rightarrow> nat \<Rightarrow> nat \<Rightarrow> halftoner \<Rightarrow> bytes \<Rightarrow> nat
   \<Rightarrow> (bytes \<times> nat) option" where
  "render_lines line 0 y ht bits black = Some (bits, black)"
| "render_lines line (Suc n) y ht bits black =
    (case line y ht of
       None \<Rightarrow> None
     | Some (ht', row) \<Rightarrow>
         render_lines line n (Suc y) ht' (bits @ row) (black + sum_list (map popcount row)))"

text \<open>The exit status, and the bitmap file if one was created.\<close>

definition cmd_render :: "encode_env \<Rightarrow> string list \<Rightarrow> (int \<times> bytes option) option" where
  "cmd_render env argv =
    (case render_args (ee_atof env) argv of
       None \<Rightarrow> Some (2, None)
     | Some a \<Rightarrow>
         let (tone, hp, name) = cli_halftone_resolve (rn_opts a)
         in case cli_raster_open (ee_read env (the (rn_in a))) of
              None \<Rightarrow> Some (2, None)
            | Some r \<Rightarrow>
                let state = m2022_halftoner_state_bytes (unat (ra_width r))
                in if \<not> ee_alloc env then Some (2, None)
                   else (case m2022_halftoner_init hp (unat (ra_width r)) (Some state) of
                     None \<Rightarrow> Some (2, None)
                   | Some ht \<Rightarrow>
                       (case render_lines (render_line (ee_tile env) (m2022_tone_build tone) r)
                               (unat (ra_height r)) 0 ht [] 0 of
                          None \<Rightarrow> None
                        | Some (bits, black) \<Rightarrow>
                            let (rc, out) = m2022_pbm_write
                                  (if ee_create env (rn_out a)
                                   then Some \<lparr>ws_take = ee_fwrite env, ws_close = ee_close env\<rparr> else None)
                                  (ra_width r) (ra_height r) bits
                            in Some (if rc \<noteq> 0 then 2 else 0, out))))"

section \<open>The rows are those that encode sends\<close>

lemma render_line_encode_line:
  "encode_line tile lut r False (ra_width r) y ht =
     (if ra_bilevel r
      then map_option (\<lambda>(ht', row). (ht', raster_line r y)) (render_line tile lut r y ht)
      else render_line tile lut r y ht)"
  by (simp add: encode_line_def render_line_def Let_def)

text \<open>A row of the bitmap: what the encoder is given, cut to the bytes of the row.\<close>

lemma render_line_row:
  assumes "encode_line tile lut r False (ra_width r) y ht = Some (ht', bits)" "ht_width ht = unat (ra_width r)"
  shows "render_line tile lut r y ht = Some (ht', take ((unat (ra_width r) + 7) div 8) bits)
    \<and> ht_width ht' = unat (ra_width r)"
proof (cases "ra_bilevel r")
  case True
  then show ?thesis
    using assms by (auto simp: encode_line_def render_line_def Let_def split: if_splits)
next
  case False
  then have "render_line tile lut r y ht = Some (ht', bits)"
    using assms(1) by (simp add: render_line_encode_line)
  moreover have "length bits = (unat (ra_width r) + 7) div 8"
    using assms False length_halftone_line
    by (auto simp: encode_line_def Let_def split: if_splits) (metis snd_conv)
  ultimately show ?thesis using encode_line_fits [OF assms] by simp
qed

lemma render_lines_page:
  assumes "page_lines (encode_line tile lut r False (ra_width r)) n y ht = Some ls" "ht_width ht = unat (ra_width r)"
  shows "render_lines (render_line tile lut r) n y ht bits black =
    (let new = concat (map (take ((unat (ra_width r) + 7) div 8)) ls)
     in Some (bits @ new, black + sum_list (map popcount new)))"
  using assms
proof (induction n arbitrary: y ht ls bits black)
  case (Suc n)
  obtain ht' b where l: "encode_line tile lut r False (ra_width r) y ht = Some (ht', b)"
    using Suc.prems(1) by (auto split: option.splits)
  then obtain ls' where ls: "page_lines (encode_line tile lut r False (ra_width r)) n (Suc y) ht' = Some ls'"
    "ls = b # ls'" using Suc.prems(1) by auto
  note row = render_line_row [OF l Suc.prems(2)]
  show ?case
    using Suc.IH [OF ls(1), of "bits @ take ((unat (ra_width r) + 7) div 8) b"] row ls(2)
    by (simp add: Let_def add.assoc)
qed simp

lemma render_lines_none:
  "page_lines (encode_line tile lut r False (ra_width r)) n y ht = None
   \<Longrightarrow> render_lines (render_line tile lut r) n y ht bits black = None"
proof (induction n arbitrary: y ht bits black)
  case (Suc n)
  show ?case
  proof (cases "render_line tile lut r y ht")
    case (Some p)
    obtain ht' row where p: "p = (ht', row)" by force
    then have "\<exists>b. encode_line tile lut r False (ra_width r) y ht = Some (ht', b)"
      using Some by (auto simp: render_line_encode_line)
    then have "page_lines (encode_line tile lut r False (ra_width r)) n (Suc y) ht' = None"
      using Suc.prems by auto
    with Suc.IH Some p show ?thesis by simp
  qed simp
qed simp

section \<open>Encoding the bitmap\<close>

lemma band_records_take: "band_records w k (map (take ((w + 7) div 8)) ls) = band_records w k ls"
proof (induction w k ls rule: band_records.induct)
  case (1 w k ls)
  show ?case
  proof (cases "ls = []")
    case False
    then show ?thesis
      using 1 band_rows_take [of w "take 128 ls"]
      by (subst (1 2) band_records.simps) (simp add: take_map drop_map)
  qed simp
qed

lemma job_stream_take: "job_stream j [(w, map (take ((w + 7) div 8)) ls)] = job_stream j [(w, ls)]"
  by (simp add: job_stream_def page_stream_def band_records_take)

lemma job_stream_cong:
  assumes "map (take ((w + 7) div 8)) ls = map (take ((w + 7) div 8)) ls'"
  shows "job_stream j [(w, ls)] = job_stream j [(w, ls')]"
  using assms job_stream_take [of j w ls] job_stream_take [of j w ls'] by simp

section \<open>Properties\<close>

text \<open>What a successful run did.\<close>

lemma cmd_render_ok:
  assumes "cmd_render env argv = Some (0, out)" "render_args (ee_atof env) argv = Some a"
    and "cli_halftone_resolve (rn_opts a) = (tone, hp, name)"
    and "cli_raster_open (ee_read env (the (rn_in a))) = Some r"
  shows "\<exists>ht bits black. m2022_halftoner_init hp (unat (ra_width r))
        (Some (m2022_halftoner_state_bytes (unat (ra_width r)))) = Some ht
    \<and> render_lines (render_line (ee_tile env) (m2022_tone_build tone) r) (unat (ra_height r)) 0 ht [] 0
      = Some (bits, black)
    \<and> m2022_pbm_write (Some \<lparr>ws_take = ee_fwrite env, ws_close = ee_close env\<rparr>) (ra_width r) (ra_height r) bits
      = (0, out)"
  using assms(1) unfolding cmd_render_def assms(2) option.case assms(3) Let_def prod.case assms(4)
  by (auto simp: m2022_pbm_write_def split: if_splits option.splits prod.splits)

text \<open>The runs behind the two commands: of the page's lines, and of the bitmap's.\<close>

lemma render_run:
  assumes "cmd_render env argv = Some (0, Some out)" "render_args (ee_atof env) argv = Some a"
    and "cli_halftone_resolve (rn_opts a) = (tone, hp, name)"
    and "cli_raster_open (ee_read env (the (rn_in a))) = Some r"
    and "ra_width r \<noteq> 0" "unat (ra_width r) \<le> 65280" "ra_height r \<noteq> 0" "unat (ra_height r) \<le> 32768"
    and "ee_fwrite env = (\<lambda>_ data. length data)" "\<And>n. length (ee_uninit env n) = n" "job_valid j"
    and "ht_width ht' = unat (ra_width r)"
  shows "\<exists>ht r' e e'. m2022_halftoner_init hp (unat (ra_width r))
        (Some (m2022_halftoner_state_bytes (unat (ra_width r)))) = Some ht
    \<and> encode_run env j r False (ra_width r) (ra_height r) (m2022_tone_build tone) ht = Some (0, e)
    \<and> cli_raster_open (Some out) = Some r' \<and> ra_width r' = ra_width r \<and> ra_height r' = ra_height r
    \<and> encode_run env j r' False (ra_width r') (ra_height r') lut' ht' = Some (0, e')
    \<and> f_contents (sink_ctx e') = f_contents (sink_ctx e)"
proof -
  define w h bpr where "w = ra_width r" and "h = ra_height r" and "bpr = (unat (ra_width r) + 7) div 8"
  define line where "line = encode_line (ee_tile env) (m2022_tone_build tone) r False w"
  obtain ht bits black where ht: "m2022_halftoner_init hp (unat w) (Some (m2022_halftoner_state_bytes (unat w))) = Some ht"
    and bits: "render_lines (render_line (ee_tile env) (m2022_tone_build tone) r) (unat h) 0 ht [] 0 = Some (bits, black)"
    and wr: "m2022_pbm_write (Some \<lparr>ws_take = ee_fwrite env, ws_close = ee_close env\<rparr>) w h bits = (0, Some out)"
    using cmd_render_ok [OF assms(1-4)] by (auto simp: w_def h_def)
  have wd: "ht_width ht = unat w" using halftoner_init_width [OF ht] by simp
  obtain ls where ls: "page_lines line (unat h) 0 ht = Some ls"
    using bits render_lines_none unfolding line_def w_def by (metis not_Some_eq)
  have fit: "\<forall>l \<in> set ls. bpr \<le> length l"
    using page_lines_fit [OF ls [unfolded line_def] wd] by (simp add: bpr_def w_def)
  define rs where "rs = map (take bpr) ls"
  have rows: "bits = concat rs"
    using render_lines_page [OF ls [unfolded line_def w_def] wd [unfolded w_def]] bits
    by (simp add: rs_def bpr_def Let_def w_def h_def)
  have out: "out = pbm_bytes w h (concat rs)"
    using pbm_write_bytes [OF wr] rows assms(9) by simp
  have len: "length rs = unat h" "\<forall>l \<in> set rs. length l = (unat w + 7) div 8"
    using page_lines_length [OF ls] fit by (auto simp: rs_def bpr_def w_def)
  have "unat w \<le> 2 ^ 32 - 8" using assms(6) by (simp add: w_def)
  from rendered_bitmap_loads [OF _ _ this len] assms(5,7) obtain r' where r': "cli_raster_open (Some out) = Some r'"
    "ra_bilevel r'" "ra_width r' = w" "ra_height r' = h" "lines_inside r'"
    "map (take bpr) (map (raster_line r') [0..<unat h]) = rs"
    by (auto simp: out w_def h_def bpr_def)
  define ls' where "ls' = map (raster_line r') [0..<unat h]"
  have lines': "page_lines (encode_line (ee_tile env) lut' r' False w) (unat h) 0 ht' = Some ls'"
    using bitmap_page_lines [OF r'(2,5), of 0 "unat h"] r'(3,4) by (simp add: ls'_def)
  have pos: "0 < unat w" "unat w \<le> 65280" "unat h \<le> 32768" "ht_width ht' = unat w"
    using assms(5,6,8,12) by (simp_all add: w_def h_def unat_gt_0)
  have ok: "lines_ok (unat w) ls" "lines_ok (unat w) ls'"
    using page_lines_fit [OF ls [unfolded line_def] wd] page_lines_length [OF ls]
      page_lines_fit [OF lines' pos(4)] page_lines_length [OF lines'] pos(3) by (simp_all add: lines_ok_def)
  obtain e where e: "encode_run env j r False w h (m2022_tone_build tone) ht = Some (0, e)"
    using encode_run_total [OF ls [unfolded line_def] assms(9,10,11) pos(1-3) wd] by blast
  obtain e' where e': "encode_run env j r' False w h lut' ht' = Some (0, e')"
    using encode_run_total [OF lines' assms(9,10,11) pos] by blast
  have "f_contents (sink_ctx e) = job_stream j [(unat w, ls)]"
    using encode_run_ok [OF e] ls ok(1) job_file.encode_job_stream by (fastforce simp: line_def)
  moreover have "f_contents (sink_ctx e') = job_stream j [(unat w, ls')]"
    using encode_run_ok [OF e'] lines' ok(2) job_file.encode_job_stream by fastforce
  moreover have "map (take bpr) ls' = map (take bpr) ls" using r'(6) by (simp add: ls'_def rs_def)
  ultimately have "f_contents (sink_ctx e') = f_contents (sink_ctx e)"
    using job_stream_cong [of "unat w" ls' ls j] by (simp add: bpr_def w_def)
  with ht e r' e' show ?thesis by (auto simp: w_def h_def)
qed

text \<open>C2: A page that \<open>render\<close> halftones into a bitmap prints as the page itself, at 600 dpi: when render succeeded,
  the encode command on the page with the same halftone options and the encode command on the bitmap file with
  the same job options (and any halftone options, which a bitmap does not use) both succeed and write the same
  job file, byte for byte. This is for pages that are not empty and at most 65280 x 32768, the same paper named
  in both commands, job texts that the encoder accepts, memory, and files that take everything.\<close>

theorem render_then_encode:
  assumes "cmd_render env argv = Some (0, Some out)" "render_args (ee_atof env) argv = Some rn"
    and "cli_raster_open (ee_read env (the (rn_in rn))) = Some r"
    and "encode_args (ee_atof env) argv1 = Some a1" "ea_opts a1 = rn_opts rn" "ea_in a1 = rn_in rn"
    and "encode_args (ee_atof env) argv2 = Some a2" "ea_job a2 = ea_job a1" "ee_read env (the (ea_in a2)) = Some out"
    and "ea_media a1 = Some paper" "ea_media a2 = Some paper" "find_media paper = Some m" "dpi (ea_job a1) = 600"
    and "ra_width r \<noteq> 0" "unat (ra_width r) \<le> 65280" "ra_height r \<noteq> 0" "unat (ra_height r) \<le> 32768"
    and "job_valid (encode_job_of env (ea_job a1) m)"
    and "ee_alloc env" "ee_create env (ea_out a1)" "ee_create env (ea_out a2)" "ee_close env"
    and "ee_fwrite env = (\<lambda>_ data. length data)" "\<And>n. length (ee_uninit env n) = n"
  shows "\<exists>job. cmd_encode env argv1 = Some (0, Some job) \<and> cmd_encode env argv2 = Some (0, Some job)"
proof -
  obtain tone hp name where res: "cli_halftone_resolve (rn_opts rn) = (tone, hp, name)" by (metis prod_cases3)
  obtain tone2 hp2 name2 where res2: "cli_halftone_resolve (ea_opts a2) = (tone2, hp2, name2)" by (metis prod_cases3)
  obtain ht2 where ht2: "m2022_halftoner_init hp2 (unat (ra_width r))
      (Some (m2022_halftoner_state_bytes (unat (ra_width r)))) = Some ht2"
    using halftoner_init_total by blast
  have wd: "ht_width ht2 = unat (ra_width r)" using halftoner_init_width [OF ht2] by simp
  obtain ht r' e e' where ht: "m2022_halftoner_init hp (unat (ra_width r))
        (Some (m2022_halftoner_state_bytes (unat (ra_width r)))) = Some ht"
    and e: "encode_run env (encode_job_of env (ea_job a1) m) r False (ra_width r) (ra_height r)
      (m2022_tone_build tone) ht = Some (0, e)"
    and r': "cli_raster_open (Some out) = Some r'" "ra_width r' = ra_width r" "ra_height r' = ra_height r"
    and e': "encode_run env (encode_job_of env (ea_job a1) m) r' False (ra_width r') (ra_height r')
      (m2022_tone_build tone2) ht2 = Some (0, e')"
    and same: "f_contents (sink_ctx e') = f_contents (sink_ctx e)"
    using render_run [OF assms(1,2) res assms(3,14-17,23,24,18) wd, of "m2022_tone_build tone2"] by blast
  have media: "find_media (media_choice a1 r) = Some m" "find_media (media_choice a2 r') = Some m"
    using assms(10-12) by (simp_all add: media_choice_def)
  have "cmd_encode env argv1 = Some (0, Some (f_contents (sink_ctx e)))"
    using cmd_encode_run [OF assms(4) _ _ media(1) _ ht assms(19,20,22) e] res assms(3,5,6,13) by simp
  moreover have "cmd_encode env argv2 = Some (0, Some (f_contents (sink_ctx e')))"
    using cmd_encode_run [OF assms(7) res2 _ media(2), of ht2 e'] r' assms(8,9,13,19,21,22) ht2 e' by simp
  ultimately show ?thesis using same by simp
qed

text \<open>A bitmap of eight dots, rendered and encoded.\<close>

lemma render_sample_args:
  "render_args (ee_atof bitmap_sample) [''page.pbm'']
    = Some \<lparr>rn_opts = cli_halftone_opts_init, rn_in = Some ''page.pbm'', rn_out = ''page.pbm''\<rparr>"
  by (simp add: render_args_def cli_halftone_opt_def)

lemma encode_sample_args:
  "encode_args (ee_atof bitmap_sample) [''--media'', ''iso_a4_210x297mm'', ''page.pbm''] =
    Some \<lparr>ea_opts = cli_halftone_opts_init, ea_job = m2022_qpdl_job_default, ea_in = Some ''page.pbm'',
      ea_out = ''job.spl'', ea_media = Some ''iso_a4_210x297mm''\<rparr>"
  by (simp add: encode_args_def cli_halftone_opt_def m2022_qpdl_job_default_def)

text \<open>Rendered, it is the same file.\<close>

lemma render_sample_run: "cmd_render bitmap_sample [''page.pbm''] = Some (0, Some (pbm_bytes 8 1 [0xF0]))"
proof -
  obtain r where r: "cli_raster_open (Some (pbm_bytes 8 1 [0xF0])) = Some r" "ra_bilevel r" "ra_width r = 8"
    "ra_height r = 1" "lines_inside r" "ra_x_dpi r = 0" "ra_page_size r = []"
    "take 1 (raster_line r 0) = [0xF0]" by (rule bitmap_sample_loads)
  obtain tone hp name where res: "cli_halftone_resolve cli_halftone_opts_init = (tone, hp, name)" by (metis prod_cases3)
  have loaded: "cli_raster_open (ee_read bitmap_sample ''page.pbm'') = Some r" by (simp add: bitmap_sample_def r(1))
  obtain ht where ht: "m2022_halftoner_init hp 8 (Some (m2022_halftoner_state_bytes 8)) = Some ht"
    using halftoner_init_total by blast
  have "length (take 1 (raster_line r 0)) = 1" using r(8) by simp
  then have long: "1 \<le> length (raster_line r 0)" by simp
  have one: "unat (ra_height r) = Suc 0" using r(4) by simp
  have line: "render_line tile lut r 0 ht = Some (ht, [0xF0])" for tile lut
    using r(2,3,8) long by (simp add: render_line_def)
  have lines: "\<exists>n. render_lines (render_line tile lut r) (unat (ra_height r)) 0 ht [] 0 = Some ([0xF0], n)" for tile lut
    unfolding one by (simp add: line)
  then obtain n where n: "render_lines (render_line (ee_tile bitmap_sample) (m2022_tone_build tone) r)
      (unat (ra_height r)) 0 ht [] 0 = Some ([0xF0], n)" by blast
  show ?thesis
    unfolding cmd_render_def render_sample_args option.case Let_def
    using ht n r(3,4) loaded res
    by (simp add: bitmap_sample_def m2022_pbm_write_def fwrite_def pbm_bytes_def)
qed

lemma render_then_encode_witness:
  "\<exists>job. cmd_render bitmap_sample [''page.pbm''] = Some (0, Some (pbm_bytes 8 1 [0xF0]))
    \<and> cmd_encode bitmap_sample [''--media'', ''iso_a4_210x297mm'', ''page.pbm''] = Some (0, Some job)"
proof -
  obtain r where r: "cli_raster_open (Some (pbm_bytes 8 1 [0xF0])) = Some r" "ra_bilevel r" "ra_width r = 8"
    "ra_height r = 1" "lines_inside r" "ra_x_dpi r = 0" "ra_page_size r = []"
    "take 1 (raster_line r 0) = [0xF0]" by (rule bitmap_sample_loads)
  have loaded: "cli_raster_open (ee_read bitmap_sample p) = Some r" "ee_read bitmap_sample p = Some (pbm_bytes 8 1 [0xF0])" for p
    by (simp_all add: bitmap_sample_def r(1))
  have media: "find_media ''iso_a4_210x297mm'' = Some (MEDIA ! 0)"
    by (simp add: find_media_def m2022_media_by_pwg_def MEDIA_def medium_def)
  have ok: "job_valid (encode_job_of bitmap_sample m2022_qpdl_job_default (MEDIA ! 0))"
    by (rule bitmap_sample_job)
  have env: "ee_alloc bitmap_sample" "ee_create bitmap_sample p" "ee_close bitmap_sample"
    "ee_fwrite bitmap_sample = (\<lambda>_ data. length data)" "length (ee_uninit bitmap_sample n) = n" for n p
    by (simp_all add: bitmap_sample_def)
  have dpi: "dpi m2022_qpdl_job_default = 600" by (simp add: m2022_qpdl_job_default_def)
  show ?thesis
    using render_then_encode [OF render_sample_run render_sample_args _ encode_sample_args _ _ encode_sample_args]
      loaded media ok env dpi r(3,4) render_sample_run by simp
qed

section \<open>Where the lines are read\<close>

lemma render_line_none:
  "render_line tile lut r y ht = None \<longleftrightarrow> length (raster_line r y) < line_need r"
  by (auto simp: render_line_def line_need_def Let_def)

lemma render_lines_none_iff:
  "render_lines (render_line tile lut r) n y ht bits black = None
    \<longleftrightarrow> (\<exists>k < n. length (raster_line r (y + k)) < line_need r)"
proof (induction n arbitrary: y ht bits black)
  case (Suc n)
  show ?case
  proof (cases "render_line tile lut r y ht")
    case None
    then show ?thesis using render_line_none [of tile lut r y ht] by (simp add: Ex_less_Suc2)
  next
    case (Some p)
    then have "\<not> length (raster_line r y) < line_need r" using render_line_none [of tile lut r y ht] by simp
    then show ?thesis using Some Suc.IH by (simp add: Ex_less_Suc2 case_prod_unfold)
  qed
qed simp

lemma render_lines_inside:
  "render_lines (render_line tile lut r) (unat (ra_height r)) 0 ht bits black = None \<longleftrightarrow> \<not> lines_inside r"
  unfolding render_lines_none_iff lines_inside_def by (auto simp: not_le)

text \<open>C14: render never reads outside the file it loaded, with one exception: with memory for the page, the run
  leaves the file exactly when a line does not lie inside it, and that cannot be for a bitmap or graymap, nor
  for a CUPS raster whose line size covers its width; a smaller line size is not refused.\<close>

theorem render_reads_inside:
  assumes "render_args (ee_atof env) argv = Some a" "cli_halftone_resolve (rn_opts a) = (tone, hp, name)"
    and "ee_read env (the (rn_in a)) = Some d" "cli_raster_open (Some d) = Some r"
  shows "(cmd_render env argv = None \<longleftrightarrow>
      ee_alloc env \<and> m2022_halftoner_init hp (unat (ra_width r))
        (Some (m2022_halftoner_state_bytes (unat (ra_width r)))) \<noteq> None \<and> \<not> lines_inside r)
    \<and> (2 < length d \<and> d ! 0 = 80 \<and> unat (ra_width r) \<le> 2 ^ 32 - 8
        \<or> d ! 0 \<noteq> 80 \<and> line_need r \<le> unat (ra_line_bytes r) \<longrightarrow> lines_inside r)"
proof (intro conjI impI)
  define page where "page ht = render_lines (render_line (ee_tile env) (m2022_tone_build tone) r)
    (unat (ra_height r)) 0 ht [] 0" for ht
  have page: "page ht = None \<longleftrightarrow> \<not> lines_inside r" for ht
    unfolding page_def by (rule render_lines_inside)
  show "cmd_render env argv = None \<longleftrightarrow>
      ee_alloc env \<and> m2022_halftoner_init hp (unat (ra_width r))
        (Some (m2022_halftoner_state_bytes (unat (ra_width r)))) \<noteq> None \<and> \<not> lines_inside r"
    unfolding cmd_render_def assms(1) option.case assms(2) Let_def prod.case assms(3,4) page_def [symmetric]
    using page by (auto split: option.splits prod.splits) (metis option.distinct(1))+
  show "lines_inside r"
    if "2 < length d \<and> d ! 0 = 80 \<and> unat (ra_width r) \<le> 2 ^ 32 - 8
        \<or> d ! 0 \<noteq> 80 \<and> line_need r \<le> unat (ra_line_bytes r)"
    using that pnm_lines_inside [OF assms(4)] cups_lines_inside [OF assms(4)] by blast
qed

lemma render_reads_inside_witness:
  "cmd_render bitmap_sample [''page.pbm''] \<noteq> None"
proof -
  define a where "a = \<lparr>rn_opts = cli_halftone_opts_init, rn_in = Some ''page.pbm'', rn_out = ''page.pbm''\<rparr>"
  define d where "d = pbm_bytes 8 1 [0xF0]"
  have a: "render_args (ee_atof bitmap_sample) [''page.pbm''] = Some a"
    using render_sample_args by (simp add: a_def)
  obtain tone hp name where res: "cli_halftone_resolve (rn_opts a) = (tone, hp, name)" by (metis prod_cases3)
  have d: "ee_read bitmap_sample (the (rn_in a)) = Some d" by (simp add: bitmap_sample_def d_def)
  obtain r where r: "cli_raster_open (Some d) = Some r" "lines_inside r"
    using rendered_bitmap_loads [of 8 1 "[[0xF0]]"] by (auto simp: d_def)
  from render_reads_inside [OF a res d r(1)] r(2) show ?thesis by blast
qed

text \<open>A CUPS raster of two gray pixels whose one line has one byte: it is accepted.\<close>

definition short_raster :: bytes where
  "short_raster = map (\<lambda>k. if k = 0 then 82 else if k = 1 then 97 else if k = 2 then 83 else if k = 3 then 51
     else if k = 379 then 2 else if k = 383 \<or> k = 399 then 1 else if k = 391 \<or> k = 395 then 8
     else if k = 407 then 18 else 0) [0..<1801]"

lemma short_raster_header:
  "\<exists>h. m2022_cupsraster_parse_header short_raster = Inr h \<and> cr_width h = 2 \<and> cr_height h = 1
    \<and> bits_per_pixel h = 8 \<and> color_space h = 18 \<and> bytes_per_line h = 1 \<and> \<not> compressed h"
proof -
  have len: "length short_raster = 1801" by (simp add: short_raster_def)
  have "[0..<4] = [0, 1, 2, 3 :: nat]" by (simp add: upt_rec)
  then have sync: "take 4 short_raster = [82, 97, 83, 51]" by (simp add: short_raster_def take_map)
  have nth: "k < 1801 \<Longrightarrow> short_raster ! k = (if k = 0 then 82 else if k = 1 then 97 else if k = 2 then 83 else if k = 3 then 51
     else if k = 379 then 2 else if k = 383 \<or> k = 399 then 1 else if k = 391 \<or> k = 395 then 8
     else if k = 407 then 18 else 0)" for k
    by (simp add: short_raster_def)
  have read: "cr_rd32 (drop 376 short_raster) False = 2" "cr_rd32 (drop 380 short_raster) False = 1"
    "cr_rd32 (drop 392 short_raster) False = 8" "cr_rd32 (drop 396 short_raster) False = 1"
    "cr_rd32 (drop 404 short_raster) False = 18"
    by (simp_all add: cr_rd32_def len nth)
  show ?thesis
    by (simp add: m2022_cupsraster_parse_header_def len sync nth read ascii_def Let_def)
qed

lemma short_raster_leaves_file:
  "\<exists>r. cli_raster_open (Some short_raster) = Some r \<and> \<not> lines_inside r"
proof -
  obtain h where h: "m2022_cupsraster_parse_header short_raster = Inr h" "cr_width h = 2" "cr_height h = 1"
    "bits_per_pixel h = 8" "color_space h = 18" "bytes_per_line h = 1" "\<not> compressed h"
    using short_raster_header by blast
  have first: "short_raster ! 0 = 82" "length short_raster = 1801" by (simp_all add: short_raster_def)
  have "m2022_cupsraster_pixel_format h = Some M2022_PIX_SGRAY_8" using h by (simp add: m2022_cupsraster_pixel_format_def)
  then obtain r where r: "cli_raster_open (Some short_raster) = Some r" "\<not> ra_bilevel r" "ra_fmt r = M2022_PIX_SGRAY_8"
    "ra_width r = 2" "ra_height r = 1" "length (ra_pixels r) = 1"
    using h first by (simp add: cli_raster_open_def)
  then have "\<not> lines_inside r"
    by (auto simp: lines_inside_def line_need_def raster_line_def m2022_raster_line_bytes_def)
  with r show ?thesis by blast
qed

end
