(* ===== verification/Ieee1284.thy ===== *)
theory Ieee1284
  imports Prelude
begin

text \<open>
  Model of src/usb/ieee1284.c and src/usb/status.c: the fields of an IEEE 1284 device ID, the lookup
  of a key with its aliases, and the port status byte as IPP reasons.

  C strings are character lists without NUL. A field's pointers into the ID are the substrings they
  stand for, and an array of \<open>max\<close> fields with a count that may exceed it is the list of the stored
  fields and the count.
\<close>

section \<open>Parsing\<close>

definition blank :: "char \<Rightarrow> bool" where
  "blank c \<longleftrightarrow> c = CHR '' '' \<or> c = CHR 0x09"

definition trim :: "string \<Rightarrow> string" where
  "trim s = rev (dropWhile blank (rev (dropWhile blank s)))"

text \<open>The body of the loop: the field of a segment, if it has a colon and a key.\<close>

definition segment_field :: "string \<Rightarrow> (string \<times> string) list" where
  "segment_field seg =
    (if CHR '':'' \<notin> set seg then []
     else
       let k = takeWhile (\<lambda>c. c \<noteq> CHR '':'') seg;
           v = drop (length k + 1) seg
       in if trim k \<noteq> [] then [(trim k, trim v)] else [])"

function fields_from :: "string \<Rightarrow> (string \<times> string) list" where
  "fields_from p =
    (if p = [] then []
     else
       let seg = takeWhile (\<lambda>c. c \<noteq> CHR '';'') p
       in segment_field seg @ fields_from (drop (length seg + 1) p))"
  by pat_completeness auto
termination by (relation "measure length") auto

declare fields_from.simps [simp del]

definition m2022_ieee1284_parse :: "string option \<Rightarrow> nat \<Rightarrow> (string \<times> string) list \<times> nat" where
  "m2022_ieee1284_parse p cap =
    (let fs = (case p of None \<Rightarrow> [] | Some s \<Rightarrow> fields_from s) in (take cap fs, length fs))"

section \<open>Looking up a key\<close>

definition ALIASES :: "string list list" where
  "ALIASES =
    [[''MFG'', ''MANUFACTURER''], [''MDL'', ''MODEL''], [''CMD'', ''COMMAND SET''],
     [''SN'', ''SERN'', ''SERIALNUMBER''], [''CLS'', ''CLASS''], [''DES'', ''DESCRIPTION'']]"

text \<open>\<open>key_equal\<close>: of the same length, and equal up to case.\<close>

definition key_equal :: "string \<Rightarrow> string \<Rightarrow> bool" where
  "key_equal key name \<longleftrightarrow> length name = length key \<and> strcasecmp key name"

definition key_matches :: "string \<Rightarrow> string \<Rightarrow> bool" where
  "key_matches key wanted \<longleftrightarrow>
     key_equal key wanted
     \<or> list_ex (\<lambda>g. list_ex (\<lambda>a. strcasecmp a wanted) g \<and> list_ex (key_equal key) g) ALIASES"

text \<open>The result, and what is in the caller's buffer of \<open>outlen\<close> bytes (\<open>None\<close>: not written).\<close>

definition m2022_ieee1284_get :: "string option \<Rightarrow> string \<Rightarrow> nat \<Rightarrow> bool \<times> string option" where
  "m2022_ieee1284_get p key outlen =
    (let (fs, n) = m2022_ieee1284_parse p 32
     in if outlen = 0 then (False, None)
        else case find (\<lambda>(k, v). key_matches k key) (take (min n 32) fs) of
          None \<Rightarrow> (False, Some [])
        | Some (k, v) \<Rightarrow> (True, Some (take (min (length v) (outlen - 1)) v)))"

section \<open>The port status\<close>

abbreviation (input) M2022_USB_STATUS_PAPER_EMPTY :: u8 where "M2022_USB_STATUS_PAPER_EMPTY \<equiv> 0x20"
abbreviation (input) M2022_USB_STATUS_SELECTED :: u8 where "M2022_USB_STATUS_SELECTED \<equiv> 0x10"
abbreviation (input) M2022_USB_STATUS_NO_ERROR :: u8 where "M2022_USB_STATUS_NO_ERROR \<equiv> 0x08"

definition m2022_usb_status_reasons :: "u8 \<Rightarrow> nat \<Rightarrow> string list \<times> nat" where
  "m2022_usb_status_reasons status cap =
    (let r = (if status AND M2022_USB_STATUS_PAPER_EMPTY \<noteq> 0 then [''media-empty''] else [])
           @ (if status AND M2022_USB_STATUS_SELECTED = 0 then [''offline''] else [])
           @ (if status AND M2022_USB_STATUS_NO_ERROR = 0 then [''other''] else [])
     in (take cap r, length r))"

section \<open>Trimming\<close>

definition trimmed :: "string \<Rightarrow> bool" where
  "trimmed s \<longleftrightarrow> s = [] \<or> \<not> blank (hd s) \<and> \<not> blank (last s)"

lemma dropWhile_hd: "s \<noteq> [] \<Longrightarrow> \<not> P (hd s) \<Longrightarrow> dropWhile P s = s"
  by (cases s) auto

lemma trim_trimmed [simp]: "trimmed s \<Longrightarrow> trim s = s"
  by (cases "s = []") (auto simp: trim_def trimmed_def dropWhile_hd hd_rev)

lemma trimmed_trim: "trimmed (trim s)"
proof -
  define t where "t = dropWhile blank s"
  have t: "t \<noteq> [] \<Longrightarrow> \<not> blank (hd t)" unfolding t_def by (rule hd_dropWhile)
  show ?thesis
  proof (cases "dropWhile blank (rev t) = []")
    case True
    then show ?thesis by (simp add: trim_def t_def trimmed_def)
  next
    case False
    have last: "\<not> blank (last (rev (dropWhile blank (rev t))))"
      using hd_dropWhile [OF False] False by (metis last_rev)
    have "rev t = takeWhile blank (rev t) @ dropWhile blank (rev t)" by simp
    then have "t = rev (dropWhile blank (rev t)) @ rev (takeWhile blank (rev t))"
      by (metis rev_append rev_rev_ident)
    then have "hd t = hd (rev (dropWhile blank (rev t)))" using False by (metis hd_append2 rev_is_Nil_conv)
    moreover have "t \<noteq> []" using False by auto
    ultimately show ?thesis using t last by (simp add: trim_def t_def trimmed_def)
  qed
qed

section \<open>Parsing what was printed\<close>

text \<open>The text of a field, and the fields that can be told apart again.\<close>

definition field_text :: "string \<times> string \<Rightarrow> string" where
  "field_text = (\<lambda>(k, v). k @ '':'' @ v @ '';'')"

definition field_ok :: "string \<times> string \<Rightarrow> bool" where
  "field_ok = (\<lambda>(k, v). k \<noteq> [] \<and> trimmed k \<and> trimmed v
     \<and> CHR '':'' \<notin> set k \<and> CHR '';'' \<notin> set k \<and> CHR '';'' \<notin> set v)"

lemma takeWhile_stop: "x \<notin> set xs \<Longrightarrow> takeWhile (\<lambda>c. c \<noteq> x) (xs @ x # ys) = xs"
  by (induction xs) auto

lemma segment_field_ok: "field_ok (k, v) \<Longrightarrow> segment_field (k @ '':'' @ v) = [(k, v)]"
  using takeWhile_stop [of "CHR '':''" k v] by (simp add: segment_field_def field_ok_def)

lemma fields_from_field:
  assumes "field_ok f"
  shows "fields_from (field_text f @ rest) = f # fields_from rest"
proof -
  obtain k v where f: "f = (k, v)" by force
  have "CHR '';'' \<notin> set (k @ '':'' @ v)" using assms by (simp add: f field_ok_def)
  from takeWhile_stop [OF this, of rest]
  have "takeWhile (\<lambda>c. c \<noteq> CHR '';'') (field_text f @ rest) = k @ '':'' @ v"
    by (simp add: field_text_def f)
  then show ?thesis
    using segment_field_ok [of k v] assms
    by (subst fields_from.simps) (simp add: Let_def f field_text_def)
qed

lemma fields_from_Nil [simp]: "fields_from [] = []"
  by (simp add: fields_from.simps)

lemma fields_from_texts:
  "list_all field_ok fs \<Longrightarrow> fields_from (concat (map field_text fs)) = fs"
  by (induction fs) (simp_all add: fields_from_field)

text \<open>Every field that is found has a key, and no blanks around its parts.\<close>

lemma segment_field_trimmed:
  "(k, v) \<in> set (segment_field seg) \<Longrightarrow> k \<noteq> [] \<and> trimmed k \<and> trimmed v"
  by (auto simp: segment_field_def Let_def trimmed_trim split: if_splits)

lemma fields_from_trimmed:
  "(k, v) \<in> set (fields_from p) \<Longrightarrow> k \<noteq> [] \<and> trimmed k \<and> trimmed v"
proof (induction p rule: fields_from.induct)
  case (1 p)
  then show ?case
    using segment_field_trimmed by (subst (asm) (2) fields_from.simps) (auto simp: Let_def split: if_splits)
qed

section \<open>Keys\<close>

lemma key_equal_iff: "key_equal k w \<longleftrightarrow> map lower k = map lower w"
  by (auto simp: key_equal_def strcasecmp_def dest: map_eq_imp_length_eq)

text \<open>Matching is an equivalence of keys: the alias groups do not overlap.\<close>

lemma alias_groups_disjoint:
  assumes "g \<in> set ALIASES" "h \<in> set ALIASES" "a \<in> set g" "b \<in> set h" "map lower a = map lower b"
  shows "g = h"
proof -
  define ls where "ls = map (map (map lower)) ALIASES"
  have distinct: "distinct (concat ls)" "distinct ls"
    by (simp_all add: ls_def ALIASES_def lower_def Let_def)
  then have inj: "inj_on (map (map lower)) (set ALIASES)" by (simp add: ls_def distinct_map)
  have "map (map lower) g \<in> set ls" "map (map lower) h \<in> set ls" using assms(1,2) by (simp_all add: ls_def)
  moreover have "map lower a \<in> set (map (map lower) g) \<inter> set (map (map lower) h)" using assms(3-5) by (metis IntI image_eqI list.set_map)
  ultimately have "map (map lower) g = map (map lower) h" using distinct(1) unfolding distinct_concat_iff by blast
  with inj assms(1,2) show ?thesis by (simp add: inj_on_def)
qed

lemma key_matches_iff:
  "key_matches k w \<longleftrightarrow> map lower k = map lower w
     \<or> (\<exists>g \<in> set ALIASES. map lower w \<in> map lower ` set g \<and> map lower k \<in> map lower ` set g)"
  by (auto simp: key_matches_def key_equal_iff list_ex_iff strcasecmp_def) (metis image_eqI)+

lemma key_matches_sym: "key_matches k w = key_matches w k"
  unfolding key_matches_iff by metis

lemma key_matches_trans: "\<lbrakk>key_matches k w; key_matches w z\<rbrakk> \<Longrightarrow> key_matches k z"
  unfolding key_matches_iff
proof (elim disjE bexE conjE)
  fix g h
  assume g: "g \<in> set ALIASES" "map lower w \<in> map lower ` set g" "map lower k \<in> map lower ` set g"
    and h: "h \<in> set ALIASES" "map lower z \<in> map lower ` set h" "map lower w \<in> map lower ` set h"
  obtain a b where "a \<in> set g" "map lower a = map lower w" "b \<in> set h" "map lower b = map lower w"
    using g(2) h(3) by force
  with alias_groups_disjoint [OF g(1) h(1)] have "g = h" by simp
  with g h show "map lower k = map lower z
      \<or> (\<exists>g \<in> set ALIASES. map lower z \<in> map lower ` set g \<and> map lower k \<in> map lower ` set g)" by blast
qed (simp_all, blast+)

section \<open>The properties\<close>

text \<open>C34: A device ID of at most 32 fields whose parts have no separators and no blanks around them is
  parsed back to its fields, and looking up a key gives the value of the first field with that key or an
  alias of it, cut to the caller's buffer.\<close>

theorem device_id_reads_back:
  assumes "list_all field_ok fs" "length fs \<le> 32" "0 < outlen"
  shows "m2022_ieee1284_parse (Some (concat (map field_text fs))) 32 = (fs, length fs)
    \<and> m2022_ieee1284_get (Some (concat (map field_text fs))) key outlen =
      (case find (\<lambda>(k, v). key_matches k key) fs of
         None \<Rightarrow> (False, Some [])
       | Some (k, v) \<Rightarrow> (True, Some (take (outlen - 1) v)))"
  using assms(2,3)
  by (auto simp: m2022_ieee1284_parse_def m2022_ieee1284_get_def fields_from_texts [OF assms(1)] Let_def
      min_def split: option.splits)

lemma device_id_reads_back_witness:
  "snd (m2022_ieee1284_get (Some ''MFG:Samsung;MDL:M2020 Series;SN:ZF45B8GF;CLS:PRINTER;'') ''serialnumber'' 5)
    = Some ''ZF45''"
proof -
  have "m2022_ieee1284_get (Some (concat (map field_text [(''MFG'', ''Samsung''), (''MDL'', ''M2020 Series''),
      (''SN'', ''ZF45B8GF''), (''CLS'', ''PRINTER'')]))) ''serialnumber'' 5 = (True, Some ''ZF45'')"
    by (subst device_id_reads_back [THEN conjunct2]) code_simp+
  then show ?thesis by (simp add: field_text_def)
qed

text \<open>Keys match like names of one thing: matching is reflexive, symmetric and transitive, whatever
  the case of the letters, so that the alias groups of the table never run into each other.\<close>

theorem key_aliases_equivalence: "equivp key_matches"
proof (rule equivpI)
  show "reflp key_matches" by (rule reflpI) (simp add: key_matches_iff)
  show "symp key_matches" by (rule sympI) (simp add: key_matches_sym)
  show "transp key_matches" by (rule transpI) (rule key_matches_trans)
qed

end
