(* ===== verification/Usb.thy ===== *)
theory Usb
  imports Ieee1284
begin

text \<open>
  Model of src/usb/usb.c: which devices are printers, the selection and opening of one, transfers in
  chunks, and the class requests. libusb and the devices on the bus are the environment: what a call
  returns is a field of the records below or a parameter.
\<close>

section \<open>What libusb shows\<close>

record endpoint =
  bEndpointAddress :: u8
  bmAttributes :: u8
  wMaxPacketSize :: u16

record altsetting =
  bInterfaceNumber :: u8
  bAlternateSetting :: u8
  bInterfaceClass :: u8
  bInterfaceSubClass :: u8
  bInterfaceProtocol :: u8
  endpoints :: "endpoint list"

record device_descriptor =
  idVendor :: u16
  idProduct :: u16
  bcdDevice :: u16
  iManufacturer :: u8
  iProduct :: u8
  iSerialNumber :: u8

text \<open>
  A configuration is a list of interfaces, each a list of its alternate settings; a failed call is the
  error on the left. \<open>open_rc\<close> is what \<open>libusb_open\<close> returns, \<open>string_desc\<close> what
  \<open>libusb_get_string_descriptor_ascii\<close> leaves in the buffer.
\<close>

record usb_dev =
  dev_desc :: "device_descriptor option"
  active_config :: "int + altsetting list list"
  first_config :: "int + altsetting list list"
  bus_number :: u8
  device_address :: u8
  open_rc :: int
  string_desc :: "u8 \<Rightarrow> int + string"
  claim_rc :: "u8 \<Rightarrow> int"
  alt_rc :: "u8 \<Rightarrow> u8 \<Rightarrow> int"

record usb_env =
  init_rc :: int
  device_list :: "int + usb_dev list"
  usb_alloc :: bool

text \<open>The handles that are open, by the position of their device, and the contexts.\<close>

record usb_sys =
  open_handles :: "nat list"
  contexts :: nat

section \<open>Data\<close>

abbreviation (input) CHUNK_BYTES :: nat where "CHUNK_BYTES \<equiv> 65536"
abbreviation (input) M2022_USB_STR_MAX :: nat where "M2022_USB_STR_MAX \<equiv> 128"
abbreviation (input) M2022_USB_ENOTFOUND :: int where "M2022_USB_ENOTFOUND \<equiv> -1000"
abbreviation (input) M2022_USB_EAMBIGUOUS :: int where "M2022_USB_EAMBIGUOUS \<equiv> -1001"
abbreviation (input) M2022_USB_ENOENDPOINT :: int where "M2022_USB_ENOENDPOINT \<equiv> -1002"
abbreviation (input) M2022_USB_EINVAL :: int where "M2022_USB_EINVAL \<equiv> -1003"
abbreviation (input) M2022_USB_ETIMEOUT :: int where "M2022_USB_ETIMEOUT \<equiv> -7"
abbreviation (input) LIBUSB_ERROR_IO :: int where "LIBUSB_ERROR_IO \<equiv> -1"
abbreviation (input) LIBUSB_ERROR_ACCESS :: int where "LIBUSB_ERROR_ACCESS \<equiv> -3"
abbreviation (input) LIBUSB_ERROR_NO_MEM :: int where "LIBUSB_ERROR_NO_MEM \<equiv> -11"

record usb_info =
  vid :: u16
  pid :: u16
  bcd_device :: u16
  bus :: u8
  address :: u8
  interface_number :: u8
  alt_setting :: u8
  protocol :: u8
  ep_out :: u8
  ep_in :: u8
  ep_out_max_packet :: u16
  manufacturer :: string
  product_name :: string
  serial :: string

record usb_match =
  match_vid :: u16
  match_pid :: u16
  match_serial :: "string option"

text \<open>An open device: its handle and what describes it.\<close>

record usb_device =
  handle :: nat
  info :: usb_info

section \<open>Describing a device\<close>

text \<open>\<open>copy_string\<close>: the string that is in the buffer of \<open>dstlen\<close> bytes afterwards.\<close>

definition copy_string :: "usb_dev option \<Rightarrow> u8 \<Rightarrow> nat \<Rightarrow> string" where
  "copy_string h index dstlen =
    (case h of None \<Rightarrow> []
     | Some d \<Rightarrow>
         if index = 0 then []
         else case string_desc d index of
           Inl n \<Rightarrow> []
         | Inr tmp \<Rightarrow> takeWhile (\<lambda>c. c \<noteq> CHR 0x00) (take (dstlen - 1) tmp))"

fun scan_endpoints :: "endpoint list \<Rightarrow> usb_info \<Rightarrow> usb_info" where
  "scan_endpoints [] i = i"
| "scan_endpoints (ep # eps) i =
    (if bmAttributes ep AND 3 \<noteq> 2 then scan_endpoints eps i
     else if bEndpointAddress ep AND 0x80 = 0 then
       scan_endpoints eps
         (if ep_out i = 0
          then i\<lparr>ep_out := bEndpointAddress ep, ep_out_max_packet := wMaxPacketSize ep\<rparr> else i)
     else scan_endpoints eps (if ep_in i = 0 then i\<lparr>ep_in := bEndpointAddress ep\<rparr> else i))"

definition alt_info :: "usb_dev \<Rightarrow> device_descriptor \<Rightarrow> altsetting \<Rightarrow> usb_info" where
  "alt_info d dd a =
    scan_endpoints (endpoints a)
      \<lparr>vid = idVendor dd, pid = idProduct dd, bcd_device = bcdDevice dd, bus = bus_number d,
       address = device_address d, interface_number = bInterfaceNumber a,
       alt_setting = bAlternateSetting a, protocol = bInterfaceProtocol a, ep_out = 0, ep_in = 0,
       ep_out_max_packet = 0, manufacturer = [], product_name = [], serial = []\<rparr>"

fun describe_alts :: "usb_dev \<Rightarrow> device_descriptor \<Rightarrow> altsetting list \<Rightarrow> usb_info option" where
  "describe_alts d dd [] = None"
| "describe_alts d dd (a # as) =
    (if bInterfaceClass a \<noteq> 7 \<or> bInterfaceSubClass a \<noteq> 1 then describe_alts d dd as
     else let i = alt_info d dd a in if ep_out i \<noteq> 0 then Some i else describe_alts d dd as)"

fun describe_interfaces :: "usb_dev \<Rightarrow> device_descriptor \<Rightarrow> altsetting list list \<Rightarrow> usb_info option" where
  "describe_interfaces d dd [] = None"
| "describe_interfaces d dd (itf # itfs) =
    (case describe_alts d dd itf of Some i \<Rightarrow> Some i | None \<Rightarrow> describe_interfaces d dd itfs)"

definition describe :: "usb_dev \<Rightarrow> device_descriptor \<Rightarrow> int + usb_info" where
  "describe d dd =
    (let cfg = (case active_config d of Inl rc \<Rightarrow> first_config d | Inr c \<Rightarrow> Inr c)
     in case cfg of
          Inl rc \<Rightarrow> Inl rc
        | Inr c \<Rightarrow> (case describe_interfaces d dd c of
              None \<Rightarrow> Inl M2022_USB_ENOENDPOINT
            | Some i \<Rightarrow> Inr i))"

definition matches :: "usb_match option \<Rightarrow> usb_info \<Rightarrow> bool" where
  "matches m i =
    (case m of None \<Rightarrow> True
     | Some m \<Rightarrow>
         if match_vid m \<noteq> 0 \<and> match_vid m \<noteq> vid i then False
         else if match_pid m \<noteq> 0 \<and> match_pid m \<noteq> pid i then False
         else (case match_serial m of None \<Rightarrow> True | Some s \<Rightarrow> \<not> (s \<noteq> [] \<and> s \<noteq> serial i)))"

section \<open>Walking the bus\<close>

text \<open>What \<open>enumerate\<close> knows of a device: nothing, or its info and whether it could be opened.\<close>

definition probe :: "usb_dev \<Rightarrow> (usb_info \<times> bool) option" where
  "probe d =
    (case dev_desc d of None \<Rightarrow> None
     | Some dd \<Rightarrow> (case describe d dd of
           Inl rc \<Rightarrow> None
         | Inr i \<Rightarrow>
             if open_rc d = 0
             then Some (i\<lparr>manufacturer := copy_string (Some d) (iManufacturer dd) M2022_USB_STR_MAX,
                          product_name := copy_string (Some d) (iProduct dd) M2022_USB_STR_MAX,
                          serial := copy_string (Some d) (iSerialNumber dd) M2022_USB_STR_MAX\<rparr>, True)
             else Some (i, False)))"

text \<open>
  The loop of \<open>enumerate\<close> from the \<open>i\<close>-th device: the matches so far, the device that is kept open
  (when the caller wants one), and the open handles.
\<close>

fun enumerate_loop ::
  "usb_match option \<Rightarrow> bool \<Rightarrow> nat \<Rightarrow> usb_dev list \<Rightarrow> usb_info list \<Rightarrow> (nat \<times> usb_info) option \<Rightarrow> nat list
    \<Rightarrow> usb_info list \<times> (nat \<times> usb_info) option \<times> nat list"
where
  "enumerate_loop m want i [] found opened hs = (found, opened, hs)"
| "enumerate_loop m want i (d # ds) found opened hs =
    (case probe d of
       None \<Rightarrow> enumerate_loop m want (i + 1) ds found opened hs
     | Some (ui, h) \<Rightarrow>
         let hs1 = (if h then i # hs else hs)
         in if \<not> matches m ui then
              enumerate_loop m want (i + 1) ds found opened (if h then remove1 i hs1 else hs1)
            else if want \<and> opened = None \<and> h then
              enumerate_loop m want (i + 1) ds (found @ [ui]) (Some (i, ui)) hs1
            else
              enumerate_loop m want (i + 1) ds (found @ [ui]) opened (if h then remove1 i hs1 else hs1))"

definition m2022_usb_list :: "usb_env \<Rightarrow> nat \<Rightarrow> usb_sys \<Rightarrow> int \<times> usb_info list \<times> nat option \<times> usb_sys" where
  "m2022_usb_list env cap sys =
    (if init_rc env \<noteq> 0 then (init_rc env, [], None, sys)
     else
       let sys1 = sys\<lparr>contexts := contexts sys + 1\<rparr>
       in case device_list env of
            Inl rc \<Rightarrow> (rc, [], None, sys1\<lparr>contexts := contexts sys1 - 1\<rparr>)
          | Inr ds \<Rightarrow>
              let (found, opened, hs) = enumerate_loop None False 0 ds [] None (open_handles sys1)
              in (0, take cap found, Some (length found),
                  sys1\<lparr>open_handles := hs, contexts := contexts sys1 - 1\<rparr>))"

text \<open>
  Opening: after the walk each call is made only when all before it succeeded; on failure the handle
  is closed and the context given up.
\<close>

definition m2022_usb_open :: "usb_env \<Rightarrow> usb_match option \<Rightarrow> usb_sys \<Rightarrow> int \<times> usb_device option \<times> usb_sys" where
  "m2022_usb_open env m sys =
    (if init_rc env \<noteq> 0 then (init_rc env, None, sys)
     else
       let sys1 = sys\<lparr>contexts := contexts sys + 1\<rparr>
       in case device_list env of
            Inl rc \<Rightarrow> (rc, None, sys1\<lparr>contexts := contexts sys1 - 1\<rparr>)
          | Inr ds \<Rightarrow>
              let (found, opened, hs) = enumerate_loop m True 0 ds [] None (open_handles sys1);
                  count = length found;
                  rc1 = (if count = 0 then M2022_USB_ENOTFOUND
                         else if count > 1 then M2022_USB_EAMBIGUOUS
                         else if opened = None then LIBUSB_ERROR_ACCESS else 0);
                  (rc2, dev) = (case opened of
                      None \<Rightarrow> (rc1, None)
                    | Some (h, ui) \<Rightarrow>
                        let d = ds ! h;
                            ra = (if rc1 = 0 then claim_rc d (interface_number ui) else rc1);
                            rb = (if ra = 0 \<and> alt_setting ui \<noteq> 0
                                  then alt_rc d (interface_number ui) (alt_setting ui) else ra)
                        in if rb \<noteq> 0 then (rb, None)
                           else if \<not> usb_alloc env then (LIBUSB_ERROR_NO_MEM, None)
                           else (0, Some \<lparr>handle = h, info = ui\<rparr>))
              in case dev of
                   Some d \<Rightarrow> (0, Some d, sys1\<lparr>open_handles := hs\<rparr>)
                 | None \<Rightarrow>
                     (rc2, None,
                      sys1\<lparr>open_handles := (case opened of None \<Rightarrow> hs | Some (h, _) \<Rightarrow> remove1 h hs),
                           contexts := contexts sys1 - 1\<rparr>))"

definition m2022_usb_close :: "usb_device option \<Rightarrow> usb_sys \<Rightarrow> usb_sys" where
  "m2022_usb_close dev sys =
    (case dev of None \<Rightarrow> sys
     | Some d \<Rightarrow> sys\<lparr>open_handles := remove1 (handle d) (open_handles sys), contexts := contexts sys - 1\<rparr>)"

section \<open>Transfers\<close>

text \<open>
  The printer's end of the bulk pipe: what it has received and how many transfers were made.
  \<open>out t received chunk\<close> is what \<open>libusb_bulk_transfer\<close> returns and reports as transferred; libusb
  never reports more than it was given.
\<close>

type_synonym bulk_out = "nat \<Rightarrow> bytes \<Rightarrow> bytes \<Rightarrow> int \<times> nat"

record pipe =
  received :: bytes
  transfers :: nat

definition bulk_write :: "bulk_out \<Rightarrow> pipe \<Rightarrow> bytes \<Rightarrow> int \<times> nat \<times> pipe" where
  "bulk_write out p chunk =
    (let (rc, n) = out (transfers p) (received p) chunk;
         k = min n (length chunk)
     in (rc, k, p\<lparr>received := received p @ take k chunk, transfers := transfers p + 1\<rparr>))"

text \<open>The loop of \<open>m2022_usb_write\<close> has no bound of its own: None is not returning.\<close>

partial_function (option) usb_write_loop ::
  "bulk_out \<Rightarrow> bytes \<Rightarrow> nat \<Rightarrow> pipe \<Rightarrow> (int \<times> nat \<times> pipe) option"
where
  "usb_write_loop out buf n p =
    (if n < length buf then
       let chunk = take (min (length buf - n) CHUNK_BYTES) (drop n buf);
           (rc, transferred, p') = bulk_write out p chunk;
           n' = n + transferred
       in if rc \<noteq> 0 then Some (rc, n', p') else usb_write_loop out buf n' p'
     else Some (0, n, p))"

definition m2022_usb_write :: "bulk_out \<Rightarrow> bytes \<Rightarrow> pipe \<Rightarrow> (int \<times> nat \<times> pipe) option" where
  "m2022_usb_write out buf p = usb_write_loop out buf 0 p"

text \<open>\<open>inp len\<close> is what the IN transfer returns and leaves in the buffer.\<close>

definition m2022_usb_read :: "(nat \<Rightarrow> int \<times> bytes) \<Rightarrow> usb_device \<Rightarrow> nat \<Rightarrow> int \<times> bytes" where
  "m2022_usb_read inp dev len =
    (if ep_in (info dev) = 0 then (M2022_USB_ENOENDPOINT, [])
     else
       let n = (if len > CHUNK_BYTES then CHUNK_BYTES else len); (rc, data) = inp n
       in (rc, take n data))"

section \<open>Class requests\<close>

text \<open>\<open>ctrl request windex length\<close> is the class request's result, an error or the data.\<close>

type_synonym control = "nat \<Rightarrow> u16 \<Rightarrow> nat \<Rightarrow> int + bytes"

definition m2022_usb_get_device_id :: "control \<Rightarrow> usb_device \<Rightarrow> nat \<Rightarrow> int \<times> bytes option" where
  "m2022_usb_get_device_id ctrl dev buflen =
    (let windex = push_bit 8 (ucast (interface_number (info dev))) OR ucast (alt_setting (info dev));
         reply = ctrl 0 windex 1024
     in if buflen = 0 then (M2022_USB_EINVAL, None)
        else case reply of
          Inl n \<Rightarrow> (n, Some [])
        | Inr d \<Rightarrow>
            let data = take 1024 d; n = length data
            in if n < 2 then (0, Some [])
               else
                 let len = unat (data ! 0) * 256 + unat (data ! 1);
                     len1 = (if len < 2 \<or> len > n then n else len) - 2;
                     len2 = (if len1 > buflen - 1 then buflen - 1 else len1)
                 in (0, Some (take len2 (drop 2 data))))"

definition m2022_usb_get_port_status :: "control \<Rightarrow> usb_device \<Rightarrow> int \<times> u8 option" where
  "m2022_usb_get_port_status ctrl dev =
    (case ctrl 1 (ucast (interface_number (info dev))) 1 of
       Inl n \<Rightarrow> (n, None)
     | Inr data \<Rightarrow> (case take 1 data of [] \<Rightarrow> (LIBUSB_ERROR_IO, None) | b # _ \<Rightarrow> (0, Some b)))"

definition m2022_usb_soft_reset :: "control \<Rightarrow> usb_device \<Rightarrow> int" where
  "m2022_usb_soft_reset ctrl dev =
    (case ctrl 2 (ucast (interface_number (info dev))) 0 of Inl n \<Rightarrow> n | Inr _ \<Rightarrow> 0)"

definition m2022_usb_strerror :: "(int \<Rightarrow> string) \<Rightarrow> int \<Rightarrow> string" where
  "m2022_usb_strerror libusb_strerror err =
    (if err = 0 then ''success''
     else if err = M2022_USB_ENOTFOUND then ''no matching USB printer found''
     else if err = M2022_USB_EAMBIGUOUS then ''more than one USB printer matches; select one with --serial''
     else if err = M2022_USB_ENOENDPOINT then ''device has no bulk endpoint in that direction''
     else if err = M2022_USB_EINVAL then ''invalid argument''
     else libusb_strerror err)"

section \<open>The devices that match\<close>

definition candidate :: "usb_match option \<Rightarrow> usb_dev \<Rightarrow> bool" where
  "candidate m d \<longleftrightarrow> (case probe d of None \<Rightarrow> False | Some (ui, h) \<Rightarrow> matches m ui)"

text \<open>The positions of the printers on the bus that match.\<close>

definition candidates :: "usb_match option \<Rightarrow> usb_dev list \<Rightarrow> nat list" where
  "candidates m ds = filter (\<lambda>k. candidate m (ds ! k)) [0 ..< length ds]"

text \<open>The same while walking, with the info of each and whether it could be opened.\<close>

fun found_from :: "usb_match option \<Rightarrow> nat \<Rightarrow> usb_dev list \<Rightarrow> (nat \<times> usb_info \<times> bool) list" where
  "found_from m i [] = []"
| "found_from m i (d # ds) =
    (case probe d of None \<Rightarrow> [] | Some (ui, h) \<Rightarrow> if matches m ui then [(i, ui, h)] else [])
      @ found_from m (i + 1) ds"

definition first_open :: "(nat \<times> usb_info \<times> bool) list \<Rightarrow> (nat \<times> usb_info) option" where
  "first_open cs = (case filter (\<lambda>(k, ui, h). h) cs of [] \<Rightarrow> None | (k, ui, h) # _ \<Rightarrow> Some (k, ui))"

lemma first_open_simps [simp]:
  "first_open [] = None"
  "first_open ((k, ui, h) # cs) = (if h then Some (k, ui) else first_open cs)"
  by (simp_all add: first_open_def)

text \<open>The walk collects the matches, keeps the first that opens and closes every other handle.\<close>

lemma enumerate_loop_eq:
  "enumerate_loop m want i ds found opened hs =
    (found @ map (\<lambda>(k, ui, h). ui) (found_from m i ds),
     if want \<and> opened = None then first_open (found_from m i ds) else opened,
     case (if want \<and> opened = None then first_open (found_from m i ds) else None) of
       None \<Rightarrow> hs | Some (k, ui) \<Rightarrow> k # hs)"
proof (induction ds arbitrary: i found opened hs)
  case Nil
  then show ?case by auto
next
  case (Cons d ds)
  then show ?case
    by (cases "probe d") (auto simp: Let_def split: prod.split)
qed

lemma found_from_candidates:
  "map fst (found_from m i ds) = map (\<lambda>k. i + k) (candidates m ds)"
proof (induction ds arbitrary: i)
  case Nil
  then show ?case by (simp add: candidates_def)
next
  case (Cons d ds)
  have "[0 ..< length (d # ds)] = 0 # map Suc [0 ..< length ds]" by (simp add: upt_conv_Cons map_Suc_upt del: upt_Suc)
  then have "candidates m (d # ds) = (if candidate m d then [0] else []) @ map Suc (candidates m ds)"
    by (simp add: candidates_def filter_map comp_def del: upt_Suc)
  then show ?case
    using Cons.IH [of "i + 1"] by (auto simp: candidate_def comp_def split: option.splits)
qed

lemma found_from_probe:
  "(k, ui, h) \<in> set (found_from m i ds) \<Longrightarrow> i \<le> k \<and> k < i + length ds \<and> probe (ds ! (k - i)) = Some (ui, h)"
proof (induction ds arbitrary: i)
  case Nil
  then show ?case by simp
next
  case (Cons d ds)
  consider "k = i" "probe d = Some (ui, h)" | "(k, ui, h) \<in> set (found_from m (i + 1) ds)"
    using Cons.prems by (auto split: option.splits if_splits)
  then show ?case
  proof cases
    case 2
    note k = Cons.IH [OF 2]
    then have "k - i = Suc (k - (i + 1))" by linarith
    with k show ?thesis by simp
  qed simp
qed

text \<open>A printer that is described has an endpoint to write to.\<close>

lemma describe_alts_ep: "describe_alts d dd as = Some i \<Longrightarrow> ep_out i \<noteq> 0"
  by (induction as) (auto simp: Let_def split: if_splits)

lemma describe_interfaces_ep: "describe_interfaces d dd c = Some i \<Longrightarrow> ep_out i \<noteq> 0"
  by (induction c) (auto dest: describe_alts_ep split: option.splits)

lemma probe_ep: "probe d = Some (ui, h) \<Longrightarrow> ep_out ui \<noteq> 0"
  by (auto simp: probe_def describe_def Let_def dest: describe_interfaces_ep split: option.splits sum.splits if_splits)

section \<open>Opening a printer\<close>

text \<open>Everything \<open>m2022_usb_open\<close> does once the bus is listed, by the matches it found.\<close>

lemma usb_open_cases:
  assumes "init_rc env = 0" "device_list env = Inr ds"
  shows "m2022_usb_open env m sys =
    (case found_from m 0 ds of
       [] \<Rightarrow> (M2022_USB_ENOTFOUND, None, sys)
     | [(k, ui, h)] \<Rightarrow>
         if \<not> h then (LIBUSB_ERROR_ACCESS, None, sys)
         else
           let ra = claim_rc (ds ! k) (interface_number ui);
               rb = (if ra = 0 \<and> alt_setting ui \<noteq> 0
                     then alt_rc (ds ! k) (interface_number ui) (alt_setting ui) else ra)
           in if rb \<noteq> 0 then (rb, None, sys)
              else if \<not> usb_alloc env then (LIBUSB_ERROR_NO_MEM, None, sys)
              else (0, Some \<lparr>handle = k, info = ui\<rparr>,
                    sys\<lparr>open_handles := k # open_handles sys, contexts := contexts sys + 1\<rparr>)
     | _ \<Rightarrow> (M2022_USB_EAMBIGUOUS, None, sys))"
proof -
  consider (none) "found_from m 0 ds = []" | (one) k ui h where "found_from m 0 ds = [(k, ui, h)]"
    | (more) k ui h c rest where "found_from m 0 ds = (k, ui, h) # c # rest"
    by (metis list.exhaust prod_cases3)
  then show ?thesis
  proof cases
    case none
    then show ?thesis by (simp add: m2022_usb_open_def assms enumerate_loop_eq)
  next
    case one
    then show ?thesis by (simp add: m2022_usb_open_def assms enumerate_loop_eq Let_def)
  next
    case more
    then show ?thesis
      by (cases "first_open ((k, ui, h) # c # rest)")
        (simp_all add: m2022_usb_open_def assms enumerate_loop_eq Let_def case_prod_unfold split: if_splits)
  qed
qed

lemma found_single:
  "found_from m 0 ds = [(k, ui, h)] \<Longrightarrow> candidates m ds = [k] \<and> probe (ds ! k) = Some (ui, h)"
  using found_from_candidates [of m 0 ds] found_from_probe [of k ui h m 0 ds] by simp

lemma found_length: "length (found_from m 0 ds) = length (candidates m ds)"
  using arg_cong [OF found_from_candidates [of m 0 ds], of length] by simp

text \<open>C27: m2022_usb_open opens the one printer-class device on the bus that matches, with an endpoint to
  write to, and closing it gives back the handle and the context; when it fails nothing stays open, and it
  says so when there is no such printer or more than one.\<close>

theorem usb_open_selects:
  assumes "init_rc env = 0" "device_list env = Inr ds"
  shows "case m2022_usb_open env m sys of
      (rc, Some d, sys') \<Rightarrow> rc = 0 \<and> candidates m ds = [handle d]
        \<and> probe (ds ! handle d) = Some (info d, True) \<and> ep_out (info d) \<noteq> 0
        \<and> open_handles sys' = handle d # open_handles sys \<and> m2022_usb_close (Some d) sys' = sys
    | (rc, None, sys') \<Rightarrow> rc \<noteq> 0 \<and> sys' = sys
        \<and> (candidates m ds = [] \<longrightarrow> rc = M2022_USB_ENOTFOUND)
        \<and> (1 < length (candidates m ds) \<longrightarrow> rc = M2022_USB_EAMBIGUOUS)"
proof -
  consider (none) "found_from m 0 ds = []" | (one) k ui h where "found_from m 0 ds = [(k, ui, h)]"
    | (more) c c' rest where "found_from m 0 ds = c # c' # rest"
    by (metis list.exhaust prod_cases3)
  then show ?thesis
  proof cases
    case none
    then show ?thesis using found_length [of m ds] by (simp add: usb_open_cases [OF assms])
  next
    case one
    note k = found_single [OF one]
    then show ?thesis
      using probe_ep [of "ds ! k"] by (auto simp: usb_open_cases [OF assms] one Let_def m2022_usb_close_def)
  next
    case more
    have "1 < length (candidates m ds)" unfolding found_length [symmetric] more by simp
    moreover have "m2022_usb_open env m sys = (M2022_USB_EAMBIGUOUS, None, sys)"
      by (cases c) (simp add: usb_open_cases [OF assms] more)
    ultimately show ?thesis by auto
  qed
qed

text \<open>A bus with one printer.\<close>

definition sample_printer :: usb_dev where
  "sample_printer =
    \<lparr>dev_desc = Some \<lparr>idVendor = 0x04e8, idProduct = 0x3321, bcdDevice = 0x100, iManufacturer = 1,
                      iProduct = 2, iSerialNumber = 3\<rparr>,
     active_config = Inr [[\<lparr>bInterfaceNumber = 0, bAlternateSetting = 0, bInterfaceClass = 7,
       bInterfaceSubClass = 1, bInterfaceProtocol = 2,
       endpoints = [\<lparr>bEndpointAddress = 0x81, bmAttributes = 2, wMaxPacketSize = 512\<rparr>,
                    \<lparr>bEndpointAddress = 0x02, bmAttributes = 2, wMaxPacketSize = 512\<rparr>]\<rparr>]],
     first_config = Inl (-5), bus_number = 1, device_address = 4, open_rc = 0,
     string_desc = (\<lambda>i. Inr (if i = 1 then ''Samsung'' else if i = 2 then ''M2020'' else ''ZF45'')),
     claim_rc = (\<lambda>_. 0), alt_rc = (\<lambda>_ _. 0)\<rparr>"

definition sample_bus :: usb_env where
  "sample_bus = \<lparr>init_rc = 0, device_list = Inr [sample_printer\<lparr>dev_desc := None\<rparr>, sample_printer],
                 usb_alloc = True\<rparr>"

definition no_usb :: usb_sys where
  "no_usb = \<lparr>open_handles = [], contexts = 0\<rparr>"

lemma usb_open_selects_witness:
  "\<exists>d sys. m2022_usb_open sample_bus None no_usb = (0, Some d, sys) \<and> handle d = 1 \<and> ep_out (info d) = 2
    \<and> m2022_usb_close (Some d) sys = no_usb"
proof -
  have bus: "init_rc sample_bus = 0" "device_list sample_bus = Inr [sample_printer\<lparr>dev_desc := None\<rparr>, sample_printer]"
    by (simp_all add: sample_bus_def)
  have none: "probe (sample_printer\<lparr>dev_desc := None\<rparr>) = None" by (simp add: probe_def)
  have some: "\<exists>ui. probe sample_printer = Some (ui, True) \<and> ep_out ui = 2 \<and> alt_setting ui = 0"
    by (simp add: probe_def sample_printer_def describe_def alt_info_def)
  have all: "candidates None [sample_printer\<lparr>dev_desc := None\<rparr>, sample_printer] = [1]"
    using none some by (auto simp: candidates_def candidate_def matches_def)
  obtain rc dev sys where o: "m2022_usb_open sample_bus None no_usb = (rc, dev, sys)" by (metis prod_cases3)
  obtain ui where ui: "probe sample_printer = Some (ui, True)" "ep_out ui = 2" "alt_setting ui = 0"
    using some by blast
  have "claim_rc sample_printer (interface_number ui) = 0" by (simp add: sample_printer_def)
  then have "dev \<noteq> None"
    using o ui none usb_open_cases [OF bus, of None no_usb]
    by (auto simp: matches_def Let_def) (simp add: sample_bus_def, blast)
  then show ?thesis
    using usb_open_selects [OF bus, where m = None and sys = no_usb] o all ui by auto
qed

section \<open>Writing\<close>

text \<open>What \<open>written\<close> bytes of the data have reached the printer.\<close>

definition wrote :: "bytes \<Rightarrow> nat \<Rightarrow> pipe \<Rightarrow> pipe \<Rightarrow> bool" where
  "wrote buf n p p' \<longleftrightarrow> n \<le> length buf \<and> received p' = received p @ take n buf"

lemma bulk_write_received:
  assumes "bulk_write out p chunk = (rc, n, p')"
  shows "n \<le> length chunk \<and> received p' = received p @ take n chunk"
  using assms by (auto simp: bulk_write_def Let_def split: prod.splits)

lemma usb_write_loop_wrote:
  assumes "usb_write_loop out buf n p = Some r" "n \<le> length buf"
  shows "case r of (rc, n', p') \<Rightarrow> n \<le> n' \<and> n' \<le> length buf
    \<and> received p' = received p @ take (n' - n) (drop n buf) \<and> (rc = 0 \<longrightarrow> n' = length buf)"
  using assms
proof (induction rule: usb_write_loop.raw_induct [rotated 1, consumes 1])
  case (1 loop out buf n p r)
  show ?case
  proof (cases "n < length buf")
    case False
    then show ?thesis using 1(2,3) by auto
  next
    case True
    define chunk where "chunk = take (min (length buf - n) CHUNK_BYTES) (drop n buf)"
    obtain rc1 k p1 where w: "bulk_write out p chunk = (rc1, k, p1)" by (metis prod_cases3)
    note got = bulk_write_received [OF w]
    have le: "k \<le> length buf - n" "k \<le> CHUNK_BYTES" using got by (simp_all add: chunk_def)
    then have k: "n + k \<le> length buf" using True by linarith
    have part: "take k chunk = take k (drop n buf)" using le by (simp add: chunk_def min_absorb1)
    show ?thesis
    proof (cases "rc1 = 0")
      case False
      then have "r = (rc1, n + k, p1)"
        using 1(2) True w by (simp add: chunk_def [symmetric])
      then show ?thesis using got k part False by simp
    next
      case rc: True
      then have "loop out buf (n + k) p1 = Some r"
        using 1(2) True w by (simp add: chunk_def [symmetric])
      from 1(1) [OF this k(1)]
      obtain rc n' p' where r: "r = (rc, n', p')" and more: "n + k \<le> n'" "n' \<le> length buf"
        "received p' = received p1 @ take (n' - (n + k)) (drop (n + k) buf)" "rc = 0 \<longrightarrow> n' = length buf"
        by (cases r) auto
      have "take (n' - n) (drop n buf) = take k (drop n buf) @ take (n' - n - k) (drop k (drop n buf))"
        using take_add [of k "n' - n - k" "drop n buf"] more(1) by simp
      then show ?thesis using more got k part r by (simp add: add.commute)
    qed
  qed
qed

text \<open>A transfer that fails or moves something: with it the loop ends.\<close>

definition makes_progress :: "bulk_out \<Rightarrow> bool" where
  "makes_progress out \<longleftrightarrow> (\<forall>t r c. c \<noteq> [] \<longrightarrow> fst (out t r c) \<noteq> 0 \<or> 0 < snd (out t r c))"

lemma usb_write_loop_returns:
  "makes_progress out \<Longrightarrow> \<exists>r. usb_write_loop out buf n p = Some r"
proof (induction "length buf - n" arbitrary: n p rule: less_induct)
  case less
  show ?case
  proof (cases "n < length buf")
    case False
    then show ?thesis by (subst usb_write_loop.simps) simp
  next
    case True
    define chunk where "chunk = take (min (length buf - n) CHUNK_BYTES) (drop n buf)"
    obtain rc k p1 where w: "bulk_write out p chunk = (rc, k, p1)" by (metis prod_cases3)
    have "chunk \<noteq> []" using True by (simp add: chunk_def)
    then have "fst (out (transfers p) (received p) chunk) \<noteq> 0 \<or> 0 < snd (out (transfers p) (received p) chunk)"
      using less.prems by (simp add: makes_progress_def)
    then have k: "rc \<noteq> 0 \<or> 0 < k"
      using w \<open>chunk \<noteq> []\<close> by (auto simp: bulk_write_def Let_def case_prod_unfold)
    have step: "usb_write_loop out buf n p =
        (if rc \<noteq> 0 then Some (rc, n + k, p1) else usb_write_loop out buf (n + k) p1)"
      by (subst usb_write_loop.simps) (simp add: True chunk_def [symmetric] w)
    show ?thesis
    proof (cases "rc = 0")
      case True
      then have "length buf - (n + k) < length buf - n" using k \<open>n < length buf\<close> by simp
      from less.hyps [OF this less.prems] step True show ?thesis by simp
    qed (simp add: step)
  qed
qed

lemma usb_write_wrote:
  "m2022_usb_write out buf p = Some (rc, n, p') \<Longrightarrow> wrote buf n p p' \<and> (rc = 0 \<longrightarrow> n = length buf)"
  using usb_write_loop_wrote [of out buf 0 p "(rc, n, p')"] by (simp add: m2022_usb_write_def wrote_def)

text \<open>C28: When no transfer succeeds without moving a byte, m2022_usb_write returns; *written bytes from the
  start of the data, and nothing else, have reached the printer, and success means all of them.\<close>

theorem usb_write_delivers:
  assumes "makes_progress out"
  shows "\<exists>rc n p'. m2022_usb_write out buf p = Some (rc, n, p')
    \<and> n \<le> length buf \<and> received p' = received p @ take n buf \<and> (rc = 0 \<longrightarrow> n = length buf)"
proof -
  obtain rc n p' where r: "m2022_usb_write out buf p = Some (rc, n, p')"
    using usb_write_loop_returns [OF assms] unfolding m2022_usb_write_def by (metis prod_cases3)
  with usb_write_wrote [OF r] show ?thesis by (auto simp: wrote_def)
qed

text \<open>Three bytes, one at a time.\<close>

lemma usb_write_delivers_witness:
  "\<exists>n p'. m2022_usb_write (\<lambda>_ _ _. (0, 1)) [1, 2, 3] \<lparr>received = [9], transfers = 0\<rparr> = Some (0, n, p')
    \<and> received p' = [9, 1, 2, 3]"
proof -
  have p: "makes_progress (\<lambda>_ _ _. (0, 1))" by (simp add: makes_progress_def)
  have never: "fst r = 0" if "usb_write_loop (\<lambda>_ _ _. (0, 1)) buf n p = Some r" for r buf n p
  proof -
    have "out = (\<lambda>_ _ _. (0, 1)) \<Longrightarrow> fst r = 0" if "usb_write_loop out buf n p = Some r" for out
      using that
      by (induction rule: usb_write_loop.raw_induct [rotated 1, consumes 1])
        (auto simp: bulk_write_def Let_def split: if_splits)
    then show ?thesis using that by blast
  qed
  from usb_write_delivers [OF p, of "[1, 2, 3]" "\<lparr>received = [9], transfers = 0\<rparr>"]
  obtain rc n p' where r: "m2022_usb_write (\<lambda>_ _ _. (0, 1)) [1, 2, 3] \<lparr>received = [9], transfers = 0\<rparr> = Some (rc, n, p')"
    "received p' = [9] @ take n [1, 2, 3]" "rc = 0 \<longrightarrow> n = length [1, 2, 3 :: u8]" by auto
  then have "rc = 0" using never [of _ 0] unfolding m2022_usb_write_def by fastforce
  with r show ?thesis by auto
qed

lemma usb_write_loop_hangs:
  assumes "usb_write_loop out buf n p = Some r" "\<forall>t r c. out t r c = (0, 0)"
  shows "length buf \<le> n"
  using assms
proof (induction rule: usb_write_loop.raw_induct [rotated 1, consumes 1])
  case (1 loop out buf n p r)
  then show ?case by (auto simp: bulk_write_def Let_def not_less split: if_splits)
qed

text \<open>A transfer that reports success but moves nothing keeps m2022_usb_write in its loop for ever: its
  timeout does not bound the call.\<close>

theorem usb_write_hangs:
  assumes "buf \<noteq> []" "\<forall>t r c. out t r c = (0, 0)"
  shows "m2022_usb_write out buf p = None"
proof (rule ccontr)
  assume "m2022_usb_write out buf p \<noteq> None"
  then obtain r where "usb_write_loop out buf 0 p = Some r" unfolding m2022_usb_write_def by blast
  from usb_write_loop_hangs [OF this assms(2)] assms(1) show False by simp
qed

lemma usb_write_hangs_witness:
  "m2022_usb_write (\<lambda>_ _ _. (0, 0)) [1, 2] \<lparr>received = [], transfers = 0\<rparr> = None"
  by (rule usb_write_hangs) simp_all

end
