(* ===== verification/Cprint.thy ===== *)
theory Cprint
  imports Cstring
begin

text \<open>
  More of the C library that the commands use: conversions of \<open>printf\<close>, \<open>strtoul\<close>, and lists written
  with separators.
\<close>

section \<open>Printing\<close>

text \<open>\<open>"%02x"\<close> of a byte, \<open>"%u"\<close> of an unsigned value, \<open>"%04o"\<close> of a file mode.\<close>

definition hex2 :: "u8 \<Rightarrow> string" where
  "hex2 v = [hexdigit (unat v div 16), hexdigit (unat v mod 16)]"

definition octal4 :: "nat \<Rightarrow> string" where
  "octal4 n = map (\<lambda>k. hexdigit (n div k mod 8)) [512, 64, 8, 1]"

text \<open>\<open>"%x"\<close>, padding to a width, and bytes put out one by one.\<close>

fun hex_nat :: "nat \<Rightarrow> string" where
  "hex_nat n = (if n < 16 then [hexdigit n] else hex_nat (n div 16) @ [hexdigit (n mod 16)])"

declare hex_nat.simps [simp del]

definition pad_left :: "nat \<Rightarrow> char \<Rightarrow> string \<Rightarrow> string" where
  "pad_left n c s = replicate (n - length s) c @ s"

definition pad_right :: "nat \<Rightarrow> string \<Rightarrow> string" where
  "pad_right n s = s @ replicate (n - length s) (CHR '' '')"

definition byte_chars :: "bytes \<Rightarrow> string" where
  "byte_chars s = map (\<lambda>b. char_of (unat b)) s"

text \<open>A loop that prints \<open>sep\<close> before every element but the first.\<close>

fun separated :: "string \<Rightarrow> string list \<Rightarrow> string" where
  "separated sep [] = []"
| "separated sep [s] = s"
| "separated sep (s # t # ss) = s @ sep @ separated sep (t # ss)"

abbreviation (input) newline :: string where "newline \<equiv> [CHR 0x0A]"
abbreviation (input) dquote :: string where "dquote \<equiv> [CHR 0x22]"

section \<open>Scanning\<close>

text \<open>\<open>strtoul(s, NULL, 0)\<close> with a 64-bit \<open>unsigned long\<close>: the base comes from the prefix.\<close>

definition strtoul :: "string \<Rightarrow> nat" where
  "strtoul s =
    (let s1 = dropWhile isspace s;
         neg = (s1 \<noteq> [] \<and> hd s1 = CHR ''-'');
         s2 = (if s1 \<noteq> [] \<and> hd s1 \<in> {CHR ''+'', CHR ''-''} then tl s1 else s1);
         hex = (take 2 s2 \<in> {''0x'', ''0X''} \<and> drop 2 s2 \<noteq> [] \<and> is_digit 16 (hd (drop 2 s2)));
         (base, digits) =
           (if hex then (16, takeWhile (is_digit 16) (drop 2 s2))
            else if s2 \<noteq> [] \<and> hd s2 = CHR ''0'' then (8, takeWhile (is_digit 8) s2)
            else (10, takeWhile (is_digit 10) s2));
         v = digits_value base 0 digits
     in if v \<ge> 2 ^ 64 then 2 ^ 64 - 1 else if neg then (2 ^ 64 - v) mod 2 ^ 64 else v)"

lemma strtoul_hex4: "strtoul (''0x'' @ hex4 v) = unat v"
proof -
  have digit: "\<forall>c \<in> set ''0123456789abcdef''. is_digit 16 c"
    by (simp add: is_digit_def digit_value_def Let_def)
  then have all: "\<forall>c \<in> set (hex4 v). is_digit 16 c" using hex4_chars by blast
  obtain c cs where h: "hex4 v = c # cs" by (cases "hex4 v") (auto simp: hex4_def Let_def)
  have "unat v < 2 ^ 64" by (rule less_trans [OF unat_u16_less]) simp
  moreover have "dropWhile isspace (''0x'' @ hex4 v) = ''0x'' @ hex4 v" by (simp add: isspace_def)
  moreover have "takeWhile (is_digit 16) (hex4 v) = hex4 v" using all by (simp add: takeWhile_eq_all_conv)
  moreover have tw: "takeWhile (is_digit 16) cs = cs" using all h by (simp add: takeWhile_eq_all_conv)
  ultimately show ?thesis using all h hex4_value [of v] by (simp add: strtoul_def Let_def tw)
qed

end
