(* ===== verification/Cmd_Send.thy ===== *)
theory Cmd_Send
  imports Usb Cprint
begin

text \<open>
  Model of src/cli/cmd_send.c: a file written to the USB printer as it is. libusb, the device and the
  file are the environment; clock and error texts are parameters.
\<close>

section \<open>Reading the file\<close>

text \<open>What the stdio calls answer for a file that can be opened: \<open>ftell\<close> is -1 when it fails.\<close>

record stdio_file =
  sf_data :: bytes
  sf_seek_end :: bool
  sf_ftell :: int
  sf_rewind :: bool
  sf_alloc :: bool
  sf_fread :: "nat \<Rightarrow> nat"

definition read_file :: "(string \<Rightarrow> stdio_file option) \<Rightarrow> string \<Rightarrow> bytes option" where
  "read_file fopen p =
    (case fopen p of
       None \<Rightarrow> None
     | Some f \<Rightarrow>
         if \<not> sf_seek_end f \<or> sf_ftell f < 0 \<or> \<not> sf_rewind f then None
         else
           let n = nat (sf_ftell f);
               buf = take (min n (sf_fread f n)) (sf_data f)
           in if \<not> sf_alloc f \<or> length buf \<noteq> n then None else Some buf)"

section \<open>The command line\<close>

record send_choices =
  sa_path :: "string option"
  sa_match :: usb_match
  sa_timeout :: u32
  sa_dry_run :: bool

text \<open>The loop over \<open>argv\<close>; \<open>None\<close> is the exit status 2.\<close>

function send_args_loop :: "string list \<Rightarrow> send_choices \<Rightarrow> send_choices option" where
  "send_args_loop [] a = Some a"
| "send_args_loop (arg # rest) a =
    (if arg = ''--vid'' \<and> rest \<noteq> [] then
       send_args_loop (tl rest) (a\<lparr>sa_match := (sa_match a)\<lparr>match_vid := word_of_nat (strtoul (hd rest))\<rparr>\<rparr>)
     else if arg = ''--pid'' \<and> rest \<noteq> [] then
       send_args_loop (tl rest) (a\<lparr>sa_match := (sa_match a)\<lparr>match_pid := word_of_nat (strtoul (hd rest))\<rparr>\<rparr>)
     else if arg = ''--serial'' \<and> rest \<noteq> [] then
       send_args_loop (tl rest) (a\<lparr>sa_match := (sa_match a)\<lparr>match_serial := Some (hd rest)\<rparr>\<rparr>)
     else if arg = ''--timeout'' \<and> rest \<noteq> [] then
       send_args_loop (tl rest) (a\<lparr>sa_timeout := word_of_nat (strtoul (hd rest))\<rparr>)
     else if arg = ''--dry-run'' then send_args_loop rest (a\<lparr>sa_dry_run := True\<rparr>)
     else if arg \<noteq> [] \<and> hd arg = CHR ''-'' then None
     else if sa_path a = None then send_args_loop rest (a\<lparr>sa_path := Some arg\<rparr>)
     else None)"
  by pat_completeness auto
termination by (relation "measure (\<lambda>(args, a). length args)") auto

definition send_args :: "string list \<Rightarrow> send_choices option" where
  "send_args argv =
    (case send_args_loop argv
        \<lparr>sa_path = None, sa_match = \<lparr>match_vid = 0, match_pid = 0, match_serial = None\<rparr>,
         sa_timeout = 30000, sa_dry_run = False\<rparr> of
       None \<Rightarrow> None
     | Some a \<Rightarrow> if sa_path a = None then None else Some a)"

section \<open>The command\<close>

record send_env =
  sn_fopen :: "string \<Rightarrow> stdio_file option"
  sn_usb :: usb_env
  sn_ctrl :: control
  sn_bulk :: "u32 \<Rightarrow> bulk_out"
  sn_strerror :: "int \<Rightarrow> string"
  sn_errno :: string
  sn_speed :: "nat \<Rightarrow> string"

definition report_status :: "send_env \<Rightarrow> usb_device \<Rightarrow> string \<Rightarrow> string" where
  "report_status env dev when =
    (let (rc, reply) = m2022_usb_get_port_status (sn_ctrl env) dev
     in if rc \<noteq> 0 then
          ''send: port status '' @ when @ '': '' @ m2022_usb_strerror (sn_strerror env) rc @ newline
        else
          let st = (case reply of None \<Rightarrow> 0 | Some b \<Rightarrow> b);
              (reasons, nr) = m2022_usb_status_reasons st 4
          in ''send: port status '' @ when @ '': 0x'' @ hex2 st @ (if nr \<noteq> 0 then '' ('' else '' (ready'')
             @ separated '', '' (take nr reasons) @ '')'' @ newline)"

text \<open>The lines about the printer that was opened.\<close>

definition opened_text :: "send_env \<Rightarrow> usb_device \<Rightarrow> string" where
  "opened_text env d =
    (let i = info d; (idrc, reply) = m2022_usb_get_device_id (sn_ctrl env) d 1024;
         device_id = takeWhile (\<lambda>b. b \<noteq> 0) (case reply of None \<Rightarrow> [] | Some b \<Rightarrow> b)
     in ''send: '' @ hex4 (vid i) @ '':'' @ hex4 (pid i) @ '' '' @ dquote @ product_name i @ dquote @ '' serial ''
        @ serial i @ '', bulk out 0x'' @ hex2 (ep_out i) @ newline
        @ (if idrc = 0 \<and> device_id \<noteq> [] then ''send: device id: '' @ byte_chars device_id @ newline else []))"

text \<open>The line about the transfer; \<open>sn_speed\<close> is the time and the rate of so many bytes, in floating point.\<close>

definition written_text :: "send_env \<Rightarrow> int \<Rightarrow> nat \<Rightarrow> nat \<Rightarrow> string" where
  "written_text env rc written len =
    (if rc \<noteq> 0
     then ''send: write failed after '' @ decimal written @ '' of '' @ decimal len @ '' bytes: ''
          @ m2022_usb_strerror (sn_strerror env) rc @ newline
     else ''send: wrote '' @ decimal written @ '' bytes in '' @ sn_speed env written @ newline)"

text \<open>
  The exit status, the printer's end of the pipe, libusb's handles and what is printed (but for the usage);
  \<open>None\<close> when the command does not return, or goes on without a device.
\<close>

definition cmd_send ::
  "send_env \<Rightarrow> string list \<Rightarrow> pipe \<Rightarrow> usb_sys \<Rightarrow> (int \<times> pipe \<times> usb_sys \<times> string) option" where
  "cmd_send env argv p sys =
    (case send_args argv of
       None \<Rightarrow> Some (2, p, sys, [])
     | Some a \<Rightarrow>
         (case read_file (sn_fopen env) (the (sa_path a)) of
            None \<Rightarrow>
              Some (2, p, sys, ''send: cannot read '' @ the (sa_path a) @ '': '' @ sn_errno env @ newline)
          | Some data \<Rightarrow>
              let (rc, dev, sys1) = m2022_usb_open (sn_usb env) (Some (sa_match a)) sys
              in if rc \<noteq> 0 then
                   Some (3, p, sys1,
                     ''send: cannot open printer: '' @ m2022_usb_strerror (sn_strerror env) rc @ newline)
                 else (case dev of
                   None \<Rightarrow> None
                 | Some d \<Rightarrow>
                     let before = opened_text env d @ report_status env d ''before''
                     in if sa_dry_run a
                        then Some (0, p, m2022_usb_close dev sys1,
                               before @ ''send: dry run, '' @ decimal (length data) @ '' bytes not written'' @ newline)
                        else (case m2022_usb_write (sn_bulk env (sa_timeout a)) data p of
                          None \<Rightarrow> None
                        | Some (rc, written, p1) \<Rightarrow>
                            let after = written_text env rc written (length data) @ report_status env d ''after''
                            in Some (if rc = 0 then 0 else 4, p1, m2022_usb_close dev sys1, before @ after)))))"

section \<open>Handles\<close>

text \<open>Opening and closing leaves libusb as it was.\<close>

lemma usb_open_handles:
  assumes "m2022_usb_open env m sys = (rc, dev, sys')"
  shows "case dev of None \<Rightarrow> sys' = sys | Some d \<Rightarrow> rc = 0 \<and> m2022_usb_close (Some d) sys' = sys"
proof (cases "init_rc env = 0")
  case False
  then show ?thesis using assms by (auto simp: m2022_usb_open_def)
next
  case init: True
  show ?thesis
  proof (cases "device_list env")
    case (Inl n)
    then show ?thesis using assms init by (auto simp: m2022_usb_open_def)
  next
    case (Inr ds)
    consider (none) "found_from m 0 ds = []" | (one) k ui h where "found_from m 0 ds = [(k, ui, h)]"
      | (more) k ui h c rest where "found_from m 0 ds = (k, ui, h) # c # rest"
      by (metis list.exhaust prod_cases3)
    then show ?thesis
      by cases (use assms in \<open>auto simp: usb_open_cases [OF init Inr] Let_def m2022_usb_close_def split: if_splits\<close>)
  qed
qed

text \<open>An error of \<open>libusb_get_device_list\<close> is not 0; then an open without a device reports an error.\<close>

lemma usb_open_error:
  assumes "m2022_usb_open env m sys = (rc, None, sys')" "\<And>n. device_list env = Inl n \<Longrightarrow> n \<noteq> 0"
  shows "rc \<noteq> 0"
proof (cases "init_rc env = 0")
  case False
  then show ?thesis using assms(1) by (auto simp: m2022_usb_open_def)
next
  case init: True
  show ?thesis
  proof (cases "device_list env")
    case (Inl n)
    then show ?thesis using assms init by (auto simp: m2022_usb_open_def)
  next
    case (Inr ds)
    consider (none) "found_from m 0 ds = []" | (one) k ui h where "found_from m 0 ds = [(k, ui, h)]"
      | (more) k ui h c rest where "found_from m 0 ds = (k, ui, h) # c # rest"
      by (metis list.exhaust prod_cases3)
    then show ?thesis
      by cases (use assms in \<open>auto simp: usb_open_cases [OF init Inr] Let_def split: if_splits\<close>)
  qed
qed

section \<open>Properties\<close>


text \<open>A job of three bytes for the printer with USB ID 04e8.\<close>

definition send_sample :: send_env where
  "send_sample =
    \<lparr>sn_fopen = (\<lambda>_. Some \<lparr>sf_data = [1, 2, 3], sf_seek_end = True, sf_ftell = 3, sf_rewind = True,
                        sf_alloc = True, sf_fread = (\<lambda>n. n)\<rparr>),
     sn_usb = sample_bus, sn_ctrl = (\<lambda>_ _ _. Inr [0x18]), sn_bulk = (\<lambda>_ _ _ c. (0, length c)),
     sn_strerror = (\<lambda>_. []), sn_errno = [], sn_speed = (\<lambda>_. [])\<rparr>"

lemma send_sample_opens:
  "\<exists>d sys. m2022_usb_open sample_bus (Some \<lparr>match_vid = 0x04e8, match_pid = 0, match_serial = None\<rparr>) no_usb
     = (0, Some d, sys)"
proof -
  have bus: "init_rc sample_bus = 0" "device_list sample_bus = Inr [sample_printer\<lparr>dev_desc := None\<rparr>, sample_printer]"
    by (simp_all add: sample_bus_def)
  have none: "probe (sample_printer\<lparr>dev_desc := None\<rparr>) = None" by (simp add: probe_def)
  obtain ui where ui: "probe sample_printer = Some (ui, True)" "alt_setting ui = 0" "vid ui = 0x04e8"
    by (simp add: probe_def sample_printer_def describe_def alt_info_def)
  then have "found_from (Some \<lparr>match_vid = 0x04e8, match_pid = 0, match_serial = None\<rparr>) 0
      [sample_printer\<lparr>dev_desc := None\<rparr>, sample_printer] = [(1, ui, True)]"
    using none by (simp add: matches_def)
  moreover have "claim_rc sample_printer i = 0" "usb_alloc sample_bus" for i
    by (simp_all add: sample_printer_def sample_bus_def)
  ultimately show ?thesis using ui(2) by (simp add: usb_open_cases [OF bus])
qed


end
