(* ===== verification/Decode_Text.thy ===== *)
theory Decode_Text
  imports Qpdl_Roundtrip Cmd_Send
begin

text \<open>
  Model of the rest of src/cli/cmd_decode.c: the command line, reading the job file, and what the callbacks
  print about each record, from the state that the theory \<open>Cmd_Decode\<close> keeps.
\<close>

section \<open>What the callbacks print\<close>

definition hex8 :: "nat \<Rightarrow> string" where
  "hex8 n = pad_left 8 (CHR ''0'') (hex_nat n)"

definition pjl_text :: "bool \<Rightarrow> nat \<Rightarrow> bytes \<Rightarrow> string" where
  "pjl_text quiet offset l =
    (if quiet then []
     else hex8 offset @ ''  PJL   '' @ concat (map (\<lambda>b. if b = 0x1b then ''<ESC>'' else byte_chars [b]) l) @ newline)"

text \<open>\<open>d\<close> is the state after the page was counted.\<close>

definition page_text :: "nat \<Rightarrow> page_header \<Rightarrow> decode_ctx \<Rightarrow> string" where
  "page_text offset h d =
    (let u = (\<lambda>b. decimal (unat (b :: u8)))
     in hex8 offset @ ''  PAGE  '' @ decimal (dc_pages d) @ '': '' @ u (y_res_100 h) @ ''00x'' @ u (x_res_100 h)
      @ ''00 dpi, copies '' @ decimal (unat (ph_copies h)) @ '', paper 0x'' @ hex2 (ph_paper_code h) @ '' (''
      @ m2022_qpdl_paper_name (ph_paper_code h) @ '') '' @ decimal (unat (paper_width h)) @ ''x''
      @ decimal (unat (paper_height h)) @ ''/300in, feeder '' @ u (ph_feeder h) @ '' (''
      @ m2022_qpdl_feeder_name (ph_feeder h) @ ''), duplex '' @ u (ph_duplex h) @ '' tumble '' @ u (tumble h)
      @ '', qpdl v'' @ u (qpdl_version h) @ '', reserved '' @ u (reserved_a h) @ ''/'' @ u (reserved_d h) @ ''/''
      @ u (reserved_f h) @ newline)"

text \<open>\<open>d0\<close> is the state before the band.\<close>

definition band_text ::
  "(nat \<Rightarrow> nat \<Rightarrow> bool) \<Rightarrow> bool \<Rightarrow> bool \<Rightarrow> nat \<Rightarrow> band_header \<Rightarrow> bytes \<Rightarrow> decode_ctx \<Rightarrow> string" where
  "band_text alloc pbm quiet offset h payload d0 =
    (let bpr = unat (bh_width h) div 8;
         expect = bpr * unat (bh_height h);
         sizes = decimal (unat (bh_width h)) @ ''x'' @ decimal (unat (bh_height h))
     in if bh_compression h \<noteq> M2022_QPDL_COMPRESSION_0X11 then
          hex8 offset @ ''  BAND  #'' @ decimal (unat (bh_number h)) @ '' '' @ sizes @ '' compression 0x''
          @ hex2 (bh_compression h) @ '' (not decoded), '' @ decimal (unat (bh_length h)) @ '' bytes'' @ newline
        else if \<not> fst (band_buffers alloc pbm bpr expect d0) then []
        else
          let (rc, out, ci) = m2022_codec11_decode (Some payload) (Some expect)
          in if \<not> quiet \<or> rc \<noteq> None \<or> length out \<noteq> expect then
               hex8 offset @ ''  BAND  #'' @ pad_right 3 (decimal (unat (bh_number h))) @ '' '' @ sizes @ '' 0x''
               @ hex2 (bh_compression h) @ '' '' @ pad_left 6 (CHR '' '') (decimal (unat (bh_length h))) @ '' B -> ''
               @ pad_left 6 (CHR '' '') (decimal (length out)) @ '' B''
               @ (if length out = expect then [] else '' SIZE MISMATCH'')
               @ ''; raw '' @ decimal (unat (raw_len ci)) @ '', '' @ decimal (literal_tokens ci) @ '' literal (max ''
               @ decimal (max_literal ci) @ ''), '' @ decimal (match_tokens ci) @ '' match (max len ''
               @ decimal (max_match ci) @ '', max index '' @ decimal (max_index ci) @ ''), checksum ''
               @ hex8 (unat (checksum_stored ci)) @ '' ''
               @ (case rc of None \<Rightarrow> ''ok'' | Some e \<Rightarrow> m2022_qpdl_strerror (err_code e))
               @ (if little_endian ci then [] else '' (big-endian header)'') @ newline
             else [])"

definition end_page_text :: "(nat \<Rightarrow> bool) \<Rightarrow> string \<Rightarrow> nat \<Rightarrow> u16 \<Rightarrow> decode_ctx \<Rightarrow> string" where
  "end_page_text writable prefix offset n d =
    hex8 offset @ ''  ENDPG copies '' @ decimal (unat n) @ ''; page '' @ decimal (dc_pages d) @ '' had ''
    @ decimal (bands_in_page d) @ '' bands, width '' @ decimal (unat (dc_band_width d)) @ '', ''
    @ decimal (distinct_tables d) @ '' distinct offset table'' @ (if distinct_tables d = 1 then [] else ''s'') @ newline
    @ (if page_rows d = None \<or> max_band d < 0 \<or> \<not> writable (dc_pages d) then []
       else ''          wrote '' @ snprintf 1024 (prefix @ ''-p'' @ decimal (dc_pages d) @ ''.pbm'') @ '' (''
         @ decimal (unat (dc_band_width d)) @ ''x'' @ decimal (nat (max_band d + 1) * M2022_QPDL_BAND_LINES)
         @ '' px, bands 0..'' @ decimal_int (max_band d) @ '', missing bands white)'' @ newline)"

fun event_text ::
  "(nat \<Rightarrow> nat \<Rightarrow> bool) \<Rightarrow> (nat \<Rightarrow> bool) \<Rightarrow> string option \<Rightarrow> bool \<Rightarrow> walk_event \<Rightarrow> decode_ctx \<Rightarrow> string" where
  "event_text alloc writable prefix quiet (PjlLine offset l) d = pjl_text quiet offset l"
| "event_text alloc writable prefix quiet (PageEv offset h) d = page_text offset h (on_page d)"
| "event_text alloc writable prefix quiet (BandEv offset h payload) d =
    band_text alloc (prefix \<noteq> None) quiet offset h payload d"
| "event_text alloc writable prefix quiet (EndPageEv offset n) d =
    end_page_text writable (case prefix of None \<Rightarrow> [] | Some p \<Rightarrow> p) offset n d"
| "event_text alloc writable prefix quiet (EndJobEv offset) d = hex8 offset @ ''  ENDJOB'' @ newline"

primrec events_text ::
  "(nat \<Rightarrow> nat \<Rightarrow> bool) \<Rightarrow> (nat \<Rightarrow> bool) \<Rightarrow> string option \<Rightarrow> bool \<Rightarrow> walk_event list \<Rightarrow> decode_ctx \<Rightarrow> string" where
  "events_text alloc writable prefix quiet [] d = []"
| "events_text alloc writable prefix quiet (ev # evs) d =
    event_text alloc writable prefix quiet ev d
    @ (case on_event alloc writable (prefix \<noteq> None) ev d of
         None \<Rightarrow> [] | Some d' \<Rightarrow> events_text alloc writable prefix quiet evs d')"

section \<open>The command\<close>

record decode_choices =
  dg_path :: "string option"
  dg_prefix :: "string option"
  dg_quiet :: bool

function decode_args_loop :: "string list \<Rightarrow> decode_choices \<Rightarrow> decode_choices option" where
  "decode_args_loop [] a = Some a"
| "decode_args_loop (arg # rest) a =
    (if arg = ''--pbm'' \<and> rest \<noteq> [] then decode_args_loop (tl rest) (a\<lparr>dg_prefix := Some (hd rest)\<rparr>)
     else if arg = ''--quiet'' then decode_args_loop rest (a\<lparr>dg_quiet := True\<rparr>)
     else if arg \<noteq> [] \<and> hd arg = CHR ''-'' then None
     else if dg_path a = None then decode_args_loop rest (a\<lparr>dg_path := Some arg\<rparr>)
     else None)"
  by pat_completeness auto
termination by (relation "measure (\<lambda>(args, a). length args)") auto

definition decode_args :: "string list \<Rightarrow> decode_choices option" where
  "decode_args args =
    (case decode_args_loop args \<lparr>dg_path = None, dg_prefix = None, dg_quiet = False\<rparr> of
       None \<Rightarrow> None
     | Some a \<Rightarrow> if dg_path a = None then None else Some a)"

text \<open>The file's bytes: \<open>fopen\<close>, its size by \<open>fseek\<close> and \<open>ftell\<close>, one \<open>fread\<close>.\<close>

definition decode_input :: "(string \<Rightarrow> stdio_file option) \<Rightarrow> string \<Rightarrow> bytes option" where
  "decode_input fopen p =
    (case fopen p of
       None \<Rightarrow> None
     | Some f \<Rightarrow>
         if \<not> sf_seek_end f \<or> sf_ftell f < 0 \<or> \<not> sf_rewind f then None
         else
           let n = nat (sf_ftell f); data = take (min n (sf_fread f n)) (sf_data f)
           in if \<not> sf_alloc f \<or> length data \<noteq> n then None else Some data)"

text \<open>The exit status, the text and the pages; \<open>None\<close> where a callback leaves its buffers.\<close>

definition decode_main ::
  "(string \<Rightarrow> stdio_file option) \<Rightarrow> (nat \<Rightarrow> nat \<Rightarrow> bool) \<Rightarrow> (nat \<Rightarrow> bool) \<Rightarrow> string list
   \<Rightarrow> (int \<times> string \<times> pbm_file list) option" where
  "decode_main fopen alloc writable args =
    (case decode_args args of
       None \<Rightarrow> Some (2, [], [])
     | Some a \<Rightarrow>
         (case decode_input fopen (the (dg_path a)) of
            None \<Rightarrow> Some (2, [], [])
          | Some data \<Rightarrow>
              (case cmd_decode alloc writable (dg_prefix a \<noteq> None) data of
                 None \<Rightarrow> None
               | Some (rc, d) \<Rightarrow>
                   let (evs, r) = m2022_qpdl_walk data
                   in Some (rc, the (dg_path a) @ '': '' @ decimal (length data) @ '' bytes'' @ newline
                        @ events_text alloc writable (dg_prefix a) (dg_quiet a) evs decode_ctx_zero
                        @ (case r of None \<Rightarrow> []
                           | Some (e, off) \<Rightarrow> hex8 off @ ''  ERROR '' @ m2022_qpdl_strerror (err_code e) @ newline)
                        @ decimal (dc_pages d) @ '' page(s), '' @ decimal (dc_errors d) @ '' error(s)'' @ newline,
                      pbms d))))"

section \<open>The count of offset tables\<close>

text \<open>A new page forgets the last table but not the count: the first band of every page counts again.\<close>

lemma page_keeps_table_count: "distinct_tables (on_page d) = distinct_tables d \<and> \<not> have_table (on_page d)"
  by (simp add: on_page_def)

lemma band_buffers_tables:
  "band_buffers alloc pbm bpr expect d = (ok, d') \<Longrightarrow>
     have_table d' = have_table d \<and> distinct_tables d' = distinct_tables d"
  by (auto simp: band_buffers_def Let_def split: if_splits)

lemma band_counts_table:
  assumes "on_band alloc pbm h payload d = Some d'" "\<not> have_table d"
    and "bh_compression h = M2022_QPDL_COMPRESSION_0X11" "have_table d'"
  shows "distinct_tables d' = distinct_tables d + 1"
  using assms
  by (auto simp: on_band_def Let_def dest!: band_buffers_tables
      split: if_splits prod.splits option.splits)

section \<open>The command on a job\<close>

lemma decode_input_whole:
  assumes "fopen p = Some f" "sf_seek_end f" "sf_ftell f = int (length (sf_data f))" "sf_rewind f" "sf_alloc f"
    and "length (sf_data f) \<le> sf_fread f (length (sf_data f))"
  shows "decode_input fopen p = Some (sf_data f)"
  using assms by (simp add: decode_input_def)

lemma decode_args_path: "p \<noteq> [] \<Longrightarrow> hd p \<noteq> CHR ''-'' \<Longrightarrow>
    decode_args [p, ''--pbm'', pre] = Some \<lparr>dg_path = Some p, dg_prefix = Some pre, dg_quiet = False\<rparr>"
  by (cases p) (auto simp: decode_args_def)

text \<open>C10: The decode command with --pbm on a file that holds a valid job of the encoder, of pages 1 to 65280
  pixels wide and with none of its text lines before the last containing ENTER LANGUAGE: when the file's name
  does not begin with a dash, it can be read whole, every allocation succeeds and every bitmap file can be
  created, the exit status is 0, the last line counts the pages and no errors, and the bitmaps written are the
  pages that were encoded, each down to its last band with ink.\<close>

theorem decode_command_shows_pages:
  assumes "fopen p = Some f" "sf_seek_end f" "sf_ftell f = int (length (sf_data f))" "sf_rewind f" "sf_alloc f"
    and "length (sf_data f) \<le> sf_fread f (length (sf_data f))"
    and "sf_data f = job_stream j ps" "job_valid j" "quiet_job j"
    and "\<forall>(w, ls) \<in> set ps. 0 < w \<and> w \<le> 65280 \<and> lines_ok w ls"
    and "p \<noteq> []" "hd p \<noteq> CHR ''-''"
  shows "\<exists>text. decode_main fopen (\<lambda>_ _. True) (\<lambda>_. True) [p, ''--pbm'', pre]
    = Some (0, text @ decimal (length ps) @ '' page(s), '' @ decimal 0 @ '' error(s)'' @ newline, pages_pbms 0 ps)"
proof -
  obtain d where d: "cmd_decode (\<lambda>_ _. True) (\<lambda>_. True) True (sf_data f) = Some (0, d)"
    "dc_pages d = length ps" "dc_errors d = 0" "pbms d = pages_pbms 0 ps"
    using decode_job_stream [OF assms(8-10)] assms(7) by auto
  have input: "decode_input fopen p = Some (sf_data f)" by (rule decode_input_whole) (fact assms)+
  show ?thesis
    using d input decode_args_path [OF assms(11,12), of pre]
    by (cases "m2022_qpdl_walk (sf_data f)") (simp add: decode_main_def Let_def)
qed

definition sample_job :: bytes where
  "sample_job = job_stream m2022_qpdl_job_default [(8, [[0xF0]])]"

definition sample_file :: stdio_file where
  "sample_file = \<lparr>sf_data = sample_job, sf_seek_end = True, sf_ftell = int (length sample_job), sf_rewind = True,
     sf_alloc = True, sf_fread = (\<lambda>n. n)\<rparr>"

lemma decode_command_shows_pages_witness:
  "\<exists>text. decode_main (\<lambda>_. Some sample_file) (\<lambda>_ _. True) (\<lambda>_. True) [''a.spl'', ''--pbm'', ''a'']
    = Some (0, text @ ''1 page(s), 0 error(s)'' @ newline, pages_pbms 0 [(8, [[0xF0]])])"
proof -
  have "job_valid m2022_qpdl_job_default" by code_simp
  moreover have "quiet_job m2022_qpdl_job_default" by code_simp
  moreover have "decimal 1 = ''1''" "decimal 0 = ''0''" by code_simp+
  ultimately show ?thesis
    using decode_command_shows_pages [of "\<lambda>_. Some sample_file" "''a.spl''" sample_file m2022_qpdl_job_default
        "[(8, [[0xF0]])]" "''a''"]
    by (simp add: sample_file_def sample_job_def lines_ok_def del: pages_pbms.simps)
qed

end
