(* ===== verification/App.thy ===== *)
theory App
  imports Jobmap Qpdl_Stream
begin

text \<open>
  Model of the raster callbacks of src/app/app.c, the state machine that PAPPL drives: one job, its
  pages, their lines. \<open>job_data\<close> is the code's \<open>job_t\<close>; the fields \<open>device\<close> and \<open>bytes_out\<close>, which the
  sink works on, are the encoder's \<open>sink_ctx\<close>. The device is the bytes that reached the printer.

  What belongs to PAPPL, the C library's files and allocator, the clock and the generated mask and
  version is the environment \<open>app_env\<close>, an argument of every callback, so it may answer differently
  each time. A buffer is its size (its contents are written before they are read); a callback returns
  \<open>None\<close> when it would leave a buffer or follow a NULL pointer. Log messages are not modelled.
\<close>

section \<open>The environment\<close>

text \<open>
  \<open>device_write sent data\<close> is what \<open>papplDeviceWrite\<close> returns, and how much of the data reached the
  printer when that is not all of it. \<open>file_write path contents data\<close> is what \<open>fwrite\<close> returns.
  \<open>alloc i n\<close> is whether the \<open>i\<close>-th allocation of a callback, of \<open>n\<close> bytes, succeeds; \<open>uninit n\<close> is
  what \<open>n\<close> bytes of memory hold that the callback has not written.
\<close>

record app_env =
  device_write :: "bytes \<Rightarrow> bytes \<Rightarrow> int \<times> nat"
  file_read :: "string \<Rightarrow> bytes option"
  file_create :: "string \<Rightarrow> bool"
  file_write :: "string \<Rightarrow> bytes \<Rightarrow> bytes \<Rightarrow> nat"
  job_alloc :: bool
  alloc :: "nat \<Rightarrow> nat \<Rightarrow> bool"
  uninit :: "nat \<Rightarrow> bytes"
  today :: bytes
  version_string :: bytes
  bluenoise64 :: bytes

text \<open>What PAPPL knows of the job; \<open>capture_dir\<close> is the driver extension's, empty for no capture.\<close>

record job_info =
  capture_dir :: string
  job_format :: "string option"
  job_filename :: "string option"
  job_id :: nat

datatype pappl_content =
  PAPPL_CONTENT_AUTO | PAPPL_CONTENT_TEXT | PAPPL_CONTENT_PHOTO | PAPPL_CONTENT_GRAPHIC
| PAPPL_CONTENT_TEXT_AND_GRAPHIC

record cups_page_header =
  cupsWidth :: u32
  cupsHeight :: u32
  cupsBitsPerPixel :: u32
  cupsColorSpace :: u32
  cupsBytesPerLine :: u32
  HWResolution :: "u32 \<times> u32"

record pr_options =
  size_name :: string
  media_source :: string
  media_type :: string
  print_quality :: int
  print_content_optimize :: pappl_content
  opt_copies :: int
  header :: cups_page_header

abbreviation (input) ENGINE_DPI :: nat where "ENGINE_DPI \<equiv> 600"
abbreviation (input) CUPS_CSPACE_W :: u32 where "CUPS_CSPACE_W \<equiv> 0"
abbreviation (input) CUPS_CSPACE_K :: u32 where "CUPS_CSPACE_K \<equiv> 3"
abbreviation (input) CUPS_CSPACE_SW :: u32 where "CUPS_CSPACE_SW \<equiv> 18"

definition NATIVE_FORMAT :: string where
  "NATIVE_FORMAT = ''application/vnd.samsung-spl''"

section \<open>State\<close>

record dev_ctx =
  ctx_device :: bytes
  ctx_bytes_out :: nat

record job_data =
  j_media :: "media option"
  j_enc :: "dev_ctx encoder"
  j_job_open :: bool
  j_page_open :: bool
  j_preset :: preset
  j_tone :: tone_params
  j_hp :: ht_params
  j_lut :: bytes
  j_ht :: halftoner
  j_ht_state :: "nat option"
  j_ht_state_bytes :: nat
  j_geo :: jobmap_geometry
  j_fmt :: pixel_format
  j_raster_width :: u32
  j_gray_full :: "nat option"
  j_gray :: "nat option"
  j_ink :: "nat option"
  j_bits :: "nat option"
  j_workspace :: "nat option"
  j_workspace_bytes :: nat
  j_alloc_raster_width :: u32
  j_alloc_width :: u32
  j_copies :: int
  j_page :: u32
  j_first_band_logged :: bool
  j_lines_in :: u32
  j_date :: bytes
  j_producer :: bytes
  j_base :: string
  j_page_file :: "(string \<times> bytes) option"
  j_bytes_per_line :: u32
  j_invert :: bool

text \<open>
  Between callbacks: the job's data as \<open>papplJobSetData\<close> stored it, the device while no job holds it,
  and the capture files that were written and closed.
\<close>

record session =
  s_data :: "job_data option"
  s_device :: bytes
  s_files :: "(string \<times> bytes) list"

definition device_of :: "session \<Rightarrow> bytes" where
  "device_of s = (case s_data s of None \<Rightarrow> s_device s | Some j \<Rightarrow> ctx_device (sink_ctx (j_enc j)))"

section \<open>Helpers\<close>

definition format_extension :: "string option \<Rightarrow> string" where
  "format_extension format =
    (case format of
       None \<Rightarrow> ''bin''
     | Some f \<Rightarrow>
         if f = ''image/urf'' then ''urf''
         else if f = ''image/pwg-raster'' then ''pwg''
         else if f = ''image/jpeg'' then ''jpg''
         else if f = ''image/png'' then ''png''
         else if f = ''application/pdf'' then ''pdf''
         else if f = NATIVE_FORMAT then ''spl''
         else ''bin'')"

text \<open>\<open>fwrite\<close>: what the file holds afterwards, and how many bytes it took.\<close>

definition fwrite :: "app_env \<Rightarrow> string \<Rightarrow> bytes \<Rightarrow> bytes \<Rightarrow> bytes \<times> nat" where
  "fwrite env path contents data =
    (let n = min (length data) (file_write env path contents data) in (contents @ take n data, n))"

function copy_loop :: "app_env \<Rightarrow> string \<Rightarrow> bytes \<Rightarrow> bytes \<Rightarrow> bool \<times> bytes" where
  "copy_loop env dst inp out =
    (let chunk = take 65536 inp
     in if chunk = [] then (True, out)
        else let (out', n) = fwrite env dst out chunk
             in if n = length chunk then copy_loop env dst (drop 65536 inp) out' else (False, out'))"
  by pat_completeness auto
termination by (relation "measure (\<lambda>(env, dst, inp, out). length inp)") auto

declare copy_loop.simps [simp del]

text \<open>\<open>copy_file\<close>: its result, and the file it leaves when the output could be created.\<close>

definition copy_file :: "app_env \<Rightarrow> string \<Rightarrow> string \<Rightarrow> bool \<times> (string \<times> bytes) list" where
  "copy_file env src dst =
    (if \<not> file_create env dst then (False, [])
     else case file_read env src of
       None \<Rightarrow> (False, [(dst, [])])
     | Some inp \<Rightarrow> (let (ok, out) = copy_loop env dst inp [] in (ok, [(dst, out)])))"

fun content_from :: "pappl_content \<Rightarrow> content" where
  "content_from PAPPL_CONTENT_TEXT = M2022_CONTENT_TEXT"
| "content_from PAPPL_CONTENT_PHOTO = M2022_CONTENT_PHOTO"
| "content_from PAPPL_CONTENT_GRAPHIC = M2022_CONTENT_GRAPHIC"
| "content_from PAPPL_CONTENT_TEXT_AND_GRAPHIC = M2022_CONTENT_TEXT_AND_GRAPHIC"
| "content_from PAPPL_CONTENT_AUTO = M2022_CONTENT_AUTO"

text \<open>The encoder's sink: straight to the device.\<close>

definition device_sink :: "(bytes \<Rightarrow> bytes \<Rightarrow> int \<times> nat) \<Rightarrow> dev_ctx sink_fn" where
  "device_sink write ctx data =
    (let (n, reached) = write (ctx_device ctx) data
     in if n \<noteq> int (length data)
        then (-1, ctx\<lparr>ctx_device := ctx_device ctx @ take reached data\<rparr>)
        else (0, ctx\<lparr>ctx_device := ctx_device ctx @ data,
                    ctx_bytes_out := ctx_bytes_out ctx + length data\<rparr>))"

text \<open>\<open>job_free\<close> closes an open capture file; the rest of the job's data is gone.\<close>

definition job_free :: "job_data \<Rightarrow> (string \<times> bytes) list" where
  "job_free j = (case j_page_file j of None \<Rightarrow> [] | Some f \<Rightarrow> [f])"

definition halftoner_zero :: halftoner where
  "halftoner_zero =
    \<lparr>ht_params = \<lparr>ht_method = M2022_HT_THRESHOLD, ht_threshold = 0, cluster_cell = 0\<rparr>, ht_width = 0,
     matrix = replicate (M2022_HT_MAX_CELL * M2022_HT_MAX_CELL) 0, cell = 0,
     err_cur = None, err_next = None\<rparr>"

definition geometry_zero :: jobmap_geometry where
  "geometry_zero = \<lparr>geo_x0 = 0, geo_y0 = 0, geo_width = 0, geo_height = 0\<rparr>"

text \<open>\<open>calloc\<close> and \<open>j->device = device\<close>. The encoder's job and sink are not read before it begins.\<close>

definition job_zero :: "app_env \<Rightarrow> bytes \<Rightarrow> job_data" where
  "job_zero env dev =
    \<lparr>j_media = None,
     j_enc = encoder_zero m2022_qpdl_job_default (device_sink (device_write env))
               \<lparr>ctx_device = dev, ctx_bytes_out = 0\<rparr>,
     j_job_open = False, j_page_open = False, j_preset = M2022_PRESET_DRAFT,
     j_tone = \<lparr>gamma = 0, dot_gain = 0, coverage_scale = 0, black_point = 0, white_point = 0\<rparr>,
     j_hp = ht_params halftoner_zero, j_lut = replicate 256 0, j_ht = halftoner_zero,
     j_ht_state = None, j_ht_state_bytes = 0, j_geo = geometry_zero, j_fmt = M2022_PIX_SGRAY_8,
     j_raster_width = 0, j_gray_full = None, j_gray = None, j_ink = None, j_bits = None,
     j_workspace = None, j_workspace_bytes = 0, j_alloc_raster_width = 0, j_alloc_width = 0,
     j_copies = 0, j_page = 0, j_first_band_logged = False, j_lines_in = 0, j_date = [],
     j_producer = [], j_base = [], j_page_file = None, j_bytes_per_line = 0, j_invert = False\<rparr>"

section \<open>Starting a job\<close>

text \<open>The buffers \<open>date[16]\<close> and \<open>producer[64]\<close> bound what \<open>strftime\<close> and \<open>snprintf\<close> leave in them.\<close>

definition qpdl_job_of :: "app_env \<Rightarrow> pr_options \<Rightarrow> media \<Rightarrow> int \<Rightarrow> qpdl_job" where
  "qpdl_job_of env opts m n =
    m2022_qpdl_job_default
      \<lparr>paper_code := qpdl_code m, paper_width_pt := width_pt m, paper_height_pt := height_pt m,
       dpi := ENGINE_DPI, feeder := m2022_jobmap_feeder (Some (media_source opts)),
       paper_type := Some (ascii (m2022_jobmap_paper_type (Some (media_type opts)))),
       copies := word_of_int (if n > 65535 then 65535 else n),
       service_date := Some (today env),
       producer := Some (take 63 (ascii ''M2022 AirBridge '' @ version_string env))\<rparr>"

text \<open>The capture at the end of \<open>cb_rstartjob\<close>: the base name, and the copy of the spool file.\<close>

definition capture_job :: "app_env \<Rightarrow> job_info \<Rightarrow> string \<times> (string \<times> bytes) list" where
  "capture_job env info =
    (if capture_dir info = [] then ([], [])
     else
       let base = capture_dir info @ ''/job-'' @ decimal3 (job_id info);
           dst = base @ ''.'' @ format_extension (job_format info)
       in (base, case job_filename info of
             None \<Rightarrow> []
           | Some src \<Rightarrow> snd (copy_file env src dst)))"

definition cb_rstartjob :: "app_env \<Rightarrow> job_info \<Rightarrow> pr_options \<Rightarrow> session \<Rightarrow> bool \<times> session" where
  "cb_rstartjob env info opts s =
    (if \<not> job_alloc env then (False, s)
     else
       let j = (job_zero env (device_of s))\<lparr>j_media := m2022_media_by_pwg (Some (size_name opts))\<rparr>
       in case j_media j of
            None \<Rightarrow> (False, s\<lparr>s_data := Some j\<rparr>)
          | Some m \<Rightarrow>
              let c = content_from (print_content_optimize opts);
                  pr = m2022_jobmap_preset (print_quality opts) c;
                  (tone, hp) = m2022_preset pr;
                  n = (if opt_copies opts > 0 then opt_copies opts else 1);
                  qjob = qpdl_job_of env opts m n;
                  (rc, e) = m2022_qpdl_begin_job (j_enc j) qjob (device_sink (device_write env))
                              (sink_ctx (j_enc j));
                  j1 = j\<lparr>j_preset := pr, j_tone := tone, j_hp := hp, j_lut := m2022_tone_build tone,
                         j_copies := n, j_date := today env,
                         j_producer := take 63 (ascii ''M2022 AirBridge '' @ version_string env),
                         j_enc := e\<rparr>
              in if rc \<noteq> 0 then (False, s\<lparr>s_data := Some j1\<rparr>)
                 else
                   let (base, files) = capture_job env info
                   in (True, s\<lparr>s_data := Some (j1\<lparr>j_job_open := True, j_base := base\<rparr>),
                               s_files := s_files s @ files\<rparr>))"

section \<open>Starting a page\<close>

definition malloc :: "app_env \<Rightarrow> nat \<Rightarrow> nat \<Rightarrow> nat option" where
  "malloc env i n = (if alloc env i n then Some n else None)"

definition page_buffers :: "app_env \<Rightarrow> job_data \<Rightarrow> u32 \<Rightarrow> u32 \<Rightarrow> bool \<times> job_data" where
  "page_buffers env j rw w =
    (if j_alloc_raster_width j = rw \<and> j_alloc_width j = w then (True, j)
     else
       let hb = m2022_halftoner_state_bytes (unat w);
           wb = m2022_qpdl_encoder_workspace_bytes (unat w);
           j1 = j\<lparr>j_ht_state_bytes := hb, j_workspace_bytes := wb,
                  j_gray_full := malloc env 0 (unat rw), j_gray := malloc env 1 (unat w),
                  j_ink := malloc env 2 (unat w), j_bits := malloc env 3 ((unat w + 7) div 8),
                  j_ht_state := malloc env 4 hb, j_workspace := malloc env 5 wb\<rparr>
       in if j_gray_full j1 = None \<or> j_gray j1 = None \<or> j_ink j1 = None \<or> j_bits j1 = None
             \<or> j_ht_state j1 = None \<or> j_workspace j1 = None then (False, j1)
          else (True, j1\<lparr>j_alloc_raster_width := rw, j_alloc_width := w\<rparr>))"

definition header_format :: "cups_page_header \<Rightarrow> pixel_format option" where
  "header_format h =
    (if cupsBitsPerPixel h = 8 \<and> (cupsColorSpace h = CUPS_CSPACE_SW \<or> cupsColorSpace h = CUPS_CSPACE_W)
     then Some M2022_PIX_SGRAY_8
     else if cupsBitsPerPixel h = 8 \<and> cupsColorSpace h = CUPS_CSPACE_K then Some M2022_PIX_BLACK_8
     else if cupsBitsPerPixel h = 1 \<and> cupsColorSpace h = CUPS_CSPACE_K then Some M2022_PIX_BLACK_1
     else None)"

text \<open>The capture at the end of \<open>cb_rstartpage\<close>: the page's file and its PNM header.\<close>

definition capture_page :: "app_env \<Rightarrow> cups_page_header \<Rightarrow> job_data \<Rightarrow> job_data" where
  "capture_page env h j =
    (if j_base j = [] then j
     else
       let j1 = j\<lparr>j_bytes_per_line := cupsBytesPerLine h,
                  j_invert := (cupsBitsPerPixel h = 8 \<and> cupsColorSpace h = CUPS_CSPACE_K)\<rparr>;
           size = decimal (unat (cupsWidth h)) @ '' '' @ decimal (unat (cupsHeight h)) @ [CHR 0x0A];
           stem = j_base j @ ''-p'' @ decimal (unat (j_page j));
           path = stem @ (if cupsBitsPerPixel h = 1 then ''.pbm''
                          else if cupsBitsPerPixel h = 8 then ''.pgm'' else ''.raw'');
           head = (if cupsBitsPerPixel h = 1 then ascii (''P4'' @ [CHR 0x0A] @ size)
                   else if cupsBitsPerPixel h = 8
                   then ascii (''P5'' @ [CHR 0x0A] @ size @ ''255'' @ [CHR 0x0A])
                   else [])
       in j1\<lparr>j_page_file :=
            (if file_create env path then Some (path, fst (fwrite env path [] head)) else None)\<rparr>)"

definition cb_rstartpage :: "app_env \<Rightarrow> pr_options \<Rightarrow> u32 \<Rightarrow> session \<Rightarrow> bool \<times> session" where
  "cb_rstartpage env opts page s =
    (case s_data s of
       None \<Rightarrow> (False, s)
     | Some j \<Rightarrow>
         if \<not> j_job_open j then (False, s)
         else
           let h = header opts;
               j1 = j\<lparr>j_page := page + 1, j_lines_in := 0, j_raster_width := cupsWidth h\<rparr>
           in case header_format h of
                None \<Rightarrow> (False, s\<lparr>s_data := Some j1\<rparr>)
              | Some fmt \<Rightarrow>
                  let j2 = j1\<lparr>j_fmt := fmt\<rparr>
                  in if fst (HWResolution h) \<noteq> word_of_nat ENGINE_DPI
                        \<or> snd (HWResolution h) \<noteq> word_of_nat ENGINE_DPI
                     then (False, s\<lparr>s_data := Some j2\<rparr>)
                     else case m2022_jobmap_geometry (j_media j2) ENGINE_DPI (cupsWidth h) (cupsHeight h) of
                       None \<Rightarrow> (False, s\<lparr>s_data := Some (j2\<lparr>j_geo := geometry_zero\<rparr>)\<rparr>)
                     | Some g \<Rightarrow>
                         let (ok, j3) = page_buffers env (j2\<lparr>j_geo := g\<rparr>) (cupsWidth h) (geo_width g)
                         in if \<not> ok then (False, s\<lparr>s_data := Some j3\<rparr>)
                            else case m2022_halftoner_init (j_hp j3) (unat (geo_width g))
                                        (map_option (\<lambda>_. j_ht_state_bytes j3) (j_ht_state j3)) of
                              None \<Rightarrow> (False, s\<lparr>s_data := Some j3\<rparr>)
                            | Some ht \<Rightarrow>
                                let (rc, e) = m2022_qpdl_begin_page (j_enc j3) (unat (geo_width g))
                                      (map_option (\<lambda>_. uninit env (j_workspace_bytes j3)) (j_workspace j3));
                                    j4 = j3\<lparr>j_ht := ht, j_enc := e\<rparr>
                                in if rc \<noteq> 0 then (False, s\<lparr>s_data := Some j4\<rparr>)
                                   else (True, s\<lparr>s_data := Some (capture_page env h (j4\<lparr>j_page_open := True\<rparr>))\<rparr>))"

section \<open>A line\<close>

text \<open>\<open>while (left > 0)\<close>: the line inverted, 8192 bytes at a time.\<close>

function capture_inverted :: "app_env \<Rightarrow> string \<Rightarrow> bytes \<Rightarrow> bytes \<Rightarrow> bytes" where
  "capture_inverted env path line contents =
    (if line = [] then contents
     else capture_inverted env path (drop 8192 line)
            (fst (fwrite env path contents (map (\<lambda>b. NOT b) (take 8192 line)))))"
  by pat_completeness auto
termination by (relation "measure (\<lambda>(env, path, line, contents). length line)") auto

declare capture_inverted.simps [simp del]

text \<open>The capture at the start of \<open>cb_rwriteline\<close>; it reads \<open>bytes_per_line\<close> bytes of the line.\<close>

definition capture_line :: "app_env \<Rightarrow> bytes \<Rightarrow> job_data \<Rightarrow> job_data option" where
  "capture_line env line j =
    (case j_page_file j of
       None \<Rightarrow> Some j
     | Some (path, contents) \<Rightarrow>
         let n = unat (j_bytes_per_line j)
         in if n > length line then None
            else Some (j\<lparr>j_page_file := Some (path,
                   if j_invert j then capture_inverted env path (take n line) contents
                   else fst (fwrite env path contents (take n line)))\<rparr>))"

text \<open>A buffer that is there and holds at least \<open>n\<close> bytes.\<close>

definition holds :: "nat option \<Rightarrow> nat \<Rightarrow> bool" where
  "holds buf n \<longleftrightarrow> (case buf of None \<Rightarrow> False | Some k \<Rightarrow> n \<le> k)"

text \<open>What the pipeline of a line reads and writes stays inside the buffers.\<close>

definition line_fits :: "job_data \<Rightarrow> bytes \<Rightarrow> bool" where
  "line_fits j line \<longleftrightarrow>
     m2022_raster_line_bytes (j_fmt j) (unat (j_raster_width j)) \<le> length line
     \<and> holds (j_gray_full j) (unat (j_raster_width j))
     \<and> holds (j_gray j) (unat (geo_width (j_geo j)))
     \<and> holds (j_ink j) (unat (geo_width (j_geo j))) \<and> holds (j_ink j) (ht_width (j_ht j))
     \<and> holds (j_bits j) ((ht_width (j_ht j) + 7) div 8) \<and> holds (j_bits j) (row_bytes_used (j_enc j))"

definition line_pipeline :: "app_env \<Rightarrow> job_data \<Rightarrow> u32 \<Rightarrow> bytes \<Rightarrow> halftoner \<times> bytes" where
  "line_pipeline env j y line =
    (let rw = unat (j_raster_width j);
         w = unat (geo_width (j_geo j));
         gray_full = m2022_raster_line_to_gray (j_fmt j) line rw;
         gray = m2022_raster_fit_line gray_full rw (sint (geo_x0 (j_geo j))) w 255;
         ink = m2022_tone_apply (j_lut j) gray w
     in m2022_halftone_line (bluenoise64 env) (j_ht j) ink (unat (y - geo_y0 (j_geo j))))"

definition cb_rwriteline :: "app_env \<Rightarrow> u32 \<Rightarrow> bytes \<Rightarrow> session \<Rightarrow> (bool \<times> session) option" where
  "cb_rwriteline env y line s =
    (case s_data s of
       None \<Rightarrow> Some (False, s)
     | Some j0 \<Rightarrow>
         if \<not> j_page_open j0 then Some (False, s)
         else case capture_line env line j0 of
           None \<Rightarrow> None
         | Some j \<Rightarrow>
             if y < geo_y0 (j_geo j) \<or> y \<ge> geo_y0 (j_geo j) + geo_height (j_geo j)
             then Some (True, s\<lparr>s_data := Some j\<rparr>)
             else if \<not> line_fits j line then None
             else
               let (ht, bits) = line_pipeline env j y line;
                   (rc, e) = m2022_qpdl_write_line (j_enc j) (Some bits);
                   j1 = j\<lparr>j_ht := ht, j_enc := e\<rparr>
               in if rc \<noteq> 0 then Some (False, s\<lparr>s_data := Some j1\<rparr>)
                  else Some (True, s\<lparr>s_data := Some (j1\<lparr>
                         j_lines_in := j_lines_in j1 + 1,
                         j_first_band_logged := j_first_band_logged j1 \<or> bands_written e > 0\<rparr>)\<rparr>))"

section \<open>Ending a page and a job\<close>

definition cb_rendpage :: "session \<Rightarrow> bool \<times> session" where
  "cb_rendpage s =
    (case s_data s of
       None \<Rightarrow> (False, s)
     | Some j \<Rightarrow>
         if \<not> j_page_open j then (False, s)
         else
           let files = (case j_page_file j of None \<Rightarrow> [] | Some f \<Rightarrow> [f]);
               (rc, e) = m2022_qpdl_end_page (j_enc j);
               j1 = j\<lparr>j_page_file := None, j_page_open := False, j_enc := e\<rparr>;
               s1 = s\<lparr>s_data := Some j1, s_files := s_files s @ files\<rparr>
           in (rc = 0, s1))"

definition cb_rendjob :: "session \<Rightarrow> bool \<times> session" where
  "cb_rendjob s =
    (case s_data s of
       None \<Rightarrow> (False, s)
     | Some j \<Rightarrow>
         let (ok1, j1) =
               (if j_page_open j
                then let (rc, e) = m2022_qpdl_end_page (j_enc j)
                     in (rc = 0, j\<lparr>j_page_open := False, j_enc := e\<rparr>)
                else (True, j));
             (ok2, j2) =
               (if j_job_open j1
                then let (rc, e) = m2022_qpdl_end_job (j_enc j1)
                     in (if rc \<noteq> 0 then False else ok1, j1\<lparr>j_job_open := False, j_enc := e\<rparr>)
                else (ok1, j1))
         in (ok2, s\<lparr>s_data := None, s_device := ctx_device (sink_ctx (j_enc j2)),
                    s_files := s_files s @ job_free j2\<rparr>))"

section \<open>Raw jobs\<close>

text \<open>The loop of \<open>cb_printfile\<close> over the file, 65536 bytes at a time.\<close>

function raw_loop :: "app_env \<Rightarrow> bytes \<Rightarrow> bytes \<Rightarrow> bool \<times> bytes" where
  "raw_loop env inp dev =
    (let chunk = take 65536 inp
     in if chunk = [] then (True, dev)
        else let (rc, ctx) = device_sink (device_write env) \<lparr>ctx_device = dev, ctx_bytes_out = 0\<rparr> chunk
             in if rc = 0 then raw_loop env (drop 65536 inp) (ctx_device ctx)
                else (False, ctx_device ctx))"
  by pat_completeness auto
termination by (relation "measure (\<lambda>(env, inp, dev). length inp)") auto

declare raw_loop.simps [simp del]

text \<open>
  \<open>papplJobGetFilename\<close> is not NULL here: PAPPL calls this for spooled jobs only. The comparison of
  \<open>papplDeviceWrite\<close>'s result with the length is the sink's.
\<close>

definition cb_printfile :: "app_env \<Rightarrow> job_info \<Rightarrow> string \<Rightarrow> session \<Rightarrow> bool \<times> session" where
  "cb_printfile env info src s =
    (let dst = capture_dir info @ ''/job-'' @ decimal3 (job_id info) @ ''.spl'';
         files = (if capture_dir info = [] then [] else snd (copy_file env src dst));
         s1 = s\<lparr>s_files := s_files s @ files\<rparr>
     in case file_read env src of
          None \<Rightarrow> (False, s1)
        | Some inp \<Rightarrow> (let (ok, dev) = raw_loop env inp (s_device s1) in (ok, s1\<lparr>s_device := dev\<rparr>)))"

end
