(* ===== verification/App_Session.thy ===== *)
theory App_Session
  imports App
begin

text \<open>
  The raster callbacks of App in the order PAPPL calls them: a step relation over sessions, what it
  keeps, and what the device has received when a job ends, completely or cancelled in a page.
\<close>

section \<open>The sink's contract\<close>

interpretation device: byte_sink "device_sink dw" ctx_device for dw
  by unfold_locales (auto simp: device_sink_def Let_def split: prod.splits if_splits)

text \<open>A device that takes everything.\<close>

abbreviation (input) good_write :: "bytes \<Rightarrow> bytes \<Rightarrow> int \<times> nat" where
  "good_write \<equiv> (\<lambda>_ data. (int (length data), length data))"

interpretation good_device: reliable_sink "device_sink (\<lambda>_ data. (int (length data), length data))" ctx_device
  by unfold_locales (simp add: device_sink_def Let_def)

section \<open>The order of the callbacks\<close>

text \<open>The lines that a line of the client adds to the page.\<close>

definition line_out :: "app_env \<Rightarrow> u32 \<Rightarrow> bytes \<Rightarrow> job_data \<Rightarrow> bytes list" where
  "line_out env y line j =
    (if y < geo_y0 (j_geo j) \<or> y \<ge> geo_y0 (j_geo j) + geo_height (j_geo j) then []
     else [snd (line_pipeline env j y line)])"

text \<open>The number of the open page's lines below which the client is done; it counts up.\<close>

datatype phase = Between | InPage nat "bytes list"

text \<open>
  \<open>printing dw base j done ph s\<close>: \<open>s\<close> is reached by callbacks that all succeeded. \<open>base\<close> is what the
  device had before the job \<open>j\<close>, \<open>done\<close> the pages that ended, with their width, and \<open>ph\<close> the page that is
  open: the next line number and the lines it has given so far. Each callback has an environment of its own.
\<close>

inductive printing ::
  "(bytes \<Rightarrow> bytes \<Rightarrow> int \<times> nat) \<Rightarrow> bytes \<Rightarrow> qpdl_job \<Rightarrow> (nat \<times> bytes list) list \<Rightarrow> phase \<Rightarrow> session \<Rightarrow> bool"
where
  start_job:
    "\<lbrakk>cb_rstartjob env info opts s = (True, s'); m2022_media_by_pwg (Some (size_name opts)) = Some m\<rbrakk>
     \<Longrightarrow> printing (device_write env) (device_of s)
           (qpdl_job_of env opts m (if opt_copies opts > 0 then opt_copies opts else 1)) [] Between s'"
| start_page:
    "\<lbrakk>printing dw base qj done Between s; cb_rstartpage env opts page s = (True, s');
      \<And>n. length (uninit env n) = n\<rbrakk>
     \<Longrightarrow> printing dw base qj done (InPage 0 []) s'"
| put_line:
    "\<lbrakk>printing dw base qj done (InPage y0 ls) s; s_data s = Some j; y0 \<le> unat y;
      cb_rwriteline env y line s = Some (True, s')\<rbrakk>
     \<Longrightarrow> printing dw base qj done (InPage (unat y + 1) (ls @ line_out env y line j)) s'"
| end_page:
    "\<lbrakk>printing dw base qj done (InPage y0 ls) s; s_data s = Some j; cb_rendpage s = (True, s')\<rbrakk>
     \<Longrightarrow> printing dw base qj (done @ [(unat (geo_width (j_geo j)), ls)]) Between s'"

inductive_cases printing_between: "printing dw base qj done Between s"
inductive_cases printing_page: "printing dw base qj done (InPage y0 ls) s"

section \<open>What the steps keep\<close>

text \<open>The pages that ended, as bytes.\<close>

definition pages_stream :: "qpdl_job \<Rightarrow> (nat \<times> bytes list) list \<Rightarrow> bytes" where
  "pages_stream qj ps = envelope qj @ concat (map (\<lambda>(w, ls). page_stream qj w ls) ps)"

lemma pages_stream_snoc:
  "pages_stream qj (ps @ [(w, ls)]) = pages_stream qj ps @ page_stream qj w ls"
  by (simp add: pages_stream_def)

text \<open>The job's data whatever the phase: its media, and buffers that have the size they are filed under.\<close>

definition data_ok :: "job_data \<Rightarrow> bool" where
  "data_ok j \<longleftrightarrow> j_job_open j
     \<and> (\<exists>m \<in> set MEDIA. j_media j = Some m)
     \<and> (j_alloc_raster_width j \<noteq> 0 \<longrightarrow>
          holds (j_gray_full j) (unat (j_alloc_raster_width j))
          \<and> holds (j_gray j) (unat (j_alloc_width j)) \<and> holds (j_ink j) (unat (j_alloc_width j))
          \<and> holds (j_bits j) ((unat (j_alloc_width j) + 7) div 8)
          \<and> j_ht_state j \<noteq> None \<and> j_ht_state_bytes j = m2022_halftoner_state_bytes (unat (j_alloc_width j))
          \<and> j_workspace j \<noteq> None
          \<and> j_workspace_bytes j = m2022_qpdl_encoder_workspace_bytes (unat (j_alloc_width j)))"

text \<open>An open page: its geometry is inside the limits and the buffers are the page's.\<close>

definition page_ok :: "job_data \<Rightarrow> bool" where
  "page_ok j \<longleftrightarrow> j_page_open j \<and> 0 < unat (geo_width (j_geo j)) \<and> unat (geo_width (j_geo j)) \<le> 4896
     \<and> unat (geo_height (j_geo j)) \<le> 8192
     \<and> unat (geo_y0 (j_geo j)) + unat (geo_height (j_geo j)) < 2 ^ 32
     \<and> j_alloc_raster_width j = j_raster_width j \<and> j_alloc_width j = geo_width (j_geo j)
     \<and> j_raster_width j \<noteq> 0 \<and> ht_width (j_ht j) = unat (geo_width (j_geo j))"

text \<open>The encoder's invariant of each phase.\<close>

fun phase_inv ::
  "(bytes \<Rightarrow> bytes \<Rightarrow> int \<times> nat) \<Rightarrow> bytes \<Rightarrow> qpdl_job \<Rightarrow> (nat \<times> bytes list) list \<Rightarrow> phase \<Rightarrow> job_data \<Rightarrow> bool" where
  "phase_inv dw base qj done Between j \<longleftrightarrow> data_ok j \<and> \<not> j_page_open j \<and> j_page_file j = None
     \<and> job_inv ctx_device (device_sink dw) base (pages_stream qj done) qj (j_enc j)"
| "phase_inv dw base qj done (InPage y0 ls) j \<longleftrightarrow> data_ok j \<and> page_ok j
     \<and> lines_ok (unat (geo_width (j_geo j))) ls
     \<and> length ls \<le> y0 - unat (geo_y0 (j_geo j)) \<and> length ls \<le> unat (geo_height (j_geo j))
     \<and> (\<exists>n0 k0 p0. n0 = length (pages_stream qj done @ m2022_qpdl_write_page_header (page_header_of qj))
        \<and> page_inv ctx_device (device_sink dw)
           (base @ pages_stream qj done @ m2022_qpdl_write_page_header (page_header_of qj))
           n0 k0 p0 qj (unat (geo_width (j_geo j))) ls (j_enc j))"

section \<open>The steps\<close>

lemma start_job_inv:
  assumes "cb_rstartjob env info opts s = (True, s')" "m2022_media_by_pwg (Some (size_name opts)) = Some m"
  shows "\<exists>j. s_data s' = Some j \<and> phase_inv (device_write env) (device_of s)
    (qpdl_job_of env opts m (if opt_copies opts > 0 then opt_copies opts else 1)) [] Between j"
proof -
  define qj where "qj = qpdl_job_of env opts m (if opt_copies opts > 0 then opt_copies opts else 1)"
  define z where "z = (job_zero env (device_of s))\<lparr>j_media := Some m\<rparr>"
  obtain rc e where e: "m2022_qpdl_begin_job (j_enc z) qj (device_sink (device_write env)) (sink_ctx (j_enc z)) = (rc, e)"
    by force
  obtain j where j: "rc = 0" "s_data s' = Some j" "j_enc j = e" "j_job_open j" "\<not> j_page_open j"
      "j_media j = Some m" "j_alloc_raster_width j = 0" "j_page_file j = None"
    using assms e
    by (auto simp: cb_rstartjob_def Let_def qj_def z_def job_zero_def split: prod.splits if_splits)
  have dev: "sink_ctx (j_enc z) = \<lparr>ctx_device = device_of s, ctx_bytes_out = 0\<rparr>"
    by (simp add: z_def job_zero_def encoder_zero_def)
  have "job_inv ctx_device (device_sink (device_write env)) (device_of s) (pages_stream qj []) qj e"
    using device.begin_job_inv [OF e [unfolded j(1)]] by (simp add: dev pages_stream_def)
  moreover have "m \<in> set MEDIA" using assms(2) by_pwg_iff by blast
  ultimately show ?thesis using j unfolding qj_def [symmetric] by (auto simp: data_ok_def)
qed

lemma page_buffers_ok:
  assumes "page_buffers env j rw w = (True, j')" "data_ok j" "rw \<noteq> 0"
  shows "data_ok j' \<and> j_alloc_raster_width j' = rw \<and> j_alloc_width j' = w \<and> j_enc j' = j_enc j
    \<and> j_raster_width j' = j_raster_width j \<and> j_geo j' = j_geo j \<and> j_page_open j' = j_page_open j
    \<and> j_hp j' = j_hp j \<and> j_media j' = j_media j \<and> j_lut j' = j_lut j \<and> j_fmt j' = j_fmt j"
proof (cases "j_alloc_raster_width j = rw \<and> j_alloc_width j = w")
  case True
  then show ?thesis using assms by (simp add: page_buffers_def)
next
  case False
  then have "alloc env 0 (unat rw)" "alloc env 1 (unat w)" "alloc env 2 (unat w)"
    "alloc env 3 ((unat w + 7) div 8)" "alloc env 4 (m2022_halftoner_state_bytes (unat w))"
    "alloc env 5 (m2022_qpdl_encoder_workspace_bytes (unat w))"
    using assms(1) by (auto simp: page_buffers_def Let_def malloc_def split: if_splits)
  then show ?thesis
    using assms False by (auto simp: page_buffers_def Let_def malloc_def data_ok_def holds_def)
qed

text \<open>The capture touches its own fields only.\<close>

lemma capture_page_frame:
  "j_enc (capture_page env h j) = j_enc j" "j_job_open (capture_page env h j) = j_job_open j"
  "j_page_open (capture_page env h j) = j_page_open j" "j_media (capture_page env h j) = j_media j"
  "j_geo (capture_page env h j) = j_geo j" "j_ht (capture_page env h j) = j_ht j"
  "data_ok (capture_page env h j) = data_ok j" "page_ok (capture_page env h j) = page_ok j"
  by (simp_all add: capture_page_def data_ok_def page_ok_def Let_def)

lemma capture_line_frame:
  assumes "capture_line env line j = Some j'"
  shows "j_enc j' = j_enc j" "j_geo j' = j_geo j" "j_ht j' = j_ht j" "data_ok j' = data_ok j"
    "page_ok j' = page_ok j" "line_fits j' = line_fits j" "line_pipeline env' j' = line_pipeline env' j"
    "j_page_open j' = j_page_open j"
  using assms
  by (auto simp: capture_line_def Let_def data_ok_def page_ok_def line_fits_def line_pipeline_def fun_eq_iff
      split: option.splits prod.splits if_splits)

text \<open>A page that starts: the guards that were passed, and the state it leaves.\<close>

lemma start_page_cases:
  assumes "cb_rstartpage env opts page s = (True, s')" "s_data s = Some j"
  obtains fmt g j3 ht e where
    "header_format (header opts) = Some fmt"
    "m2022_jobmap_geometry (j_media j) 600 (cupsWidth (header opts)) (cupsHeight (header opts)) = Some g"
    "page_buffers env (j\<lparr>j_page := page + 1, j_lines_in := 0, j_raster_width := cupsWidth (header opts),
        j_fmt := fmt, j_geo := g\<rparr>) (cupsWidth (header opts)) (geo_width g) = (True, j3)"
    "m2022_halftoner_init (j_hp j3) (unat (geo_width g))
        (map_option (\<lambda>_. j_ht_state_bytes j3) (j_ht_state j3)) = Some ht"
    "m2022_qpdl_begin_page (j_enc j3) (unat (geo_width g))
        (map_option (\<lambda>_. uninit env (j_workspace_bytes j3)) (j_workspace j3)) = (0, e)"
    "s_data s' = Some (capture_page env (header opts) (j3\<lparr>j_ht := ht, j_enc := e, j_page_open := True\<rparr>))"
    "s_device s' = s_device s"
proof -
  define h where "h = header opts"
  from assms obtain fmt g where
    fmt: "header_format h = Some fmt"
    and dpi: "fst (HWResolution h) = 600" "snd (HWResolution h) = 600"
    and geo: "m2022_jobmap_geometry (j_media j) 600 (cupsWidth h) (cupsHeight h) = Some g"
    and jopen: "j_job_open j"
    by (simp add: cb_rstartpage_def Let_def h_def split: if_splits option.splits)
  define j1 where "j1 = j\<lparr>j_page := page + 1, j_lines_in := 0, j_raster_width := cupsWidth h,
    j_fmt := fmt, j_geo := g\<rparr>"
  obtain ok j3 where bufs: "page_buffers env j1 (cupsWidth h) (geo_width g) = (ok, j3)" by force
  have rest: "cb_rstartpage env opts page s =
    (if \<not> ok then (False, s\<lparr>s_data := Some j3\<rparr>)
     else case m2022_halftoner_init (j_hp j3) (unat (geo_width g))
            (map_option (\<lambda>_. j_ht_state_bytes j3) (j_ht_state j3)) of
       None \<Rightarrow> (False, s\<lparr>s_data := Some j3\<rparr>)
     | Some ht \<Rightarrow>
         (let (rc, e) = m2022_qpdl_begin_page (j_enc j3) (unat (geo_width g))
               (map_option (\<lambda>_. uninit env (j_workspace_bytes j3)) (j_workspace j3));
             j4 = j3\<lparr>j_ht := ht, j_enc := e\<rparr>
         in if rc \<noteq> 0 then (False, s\<lparr>s_data := Some j4\<rparr>)
            else (True, s\<lparr>s_data := Some (capture_page env h (j4\<lparr>j_page_open := True\<rparr>))\<rparr>)))"
    unfolding cb_rstartpage_def assms(2) option.case Let_def h_def [symmetric] fmt
    using jopen dpi geo bufs by (simp add: j1_def)
  have ok: ok using assms(1) rest by (cases ok) simp_all
  obtain ht where ht: "m2022_halftoner_init (j_hp j3) (unat (geo_width g))
      (map_option (\<lambda>_. j_ht_state_bytes j3) (j_ht_state j3)) = Some ht"
    using assms(1) ok unfolding rest by (simp split: option.splits)
  obtain rc e where bp: "m2022_qpdl_begin_page (j_enc j3) (unat (geo_width g))
      (map_option (\<lambda>_. uninit env (j_workspace_bytes j3)) (j_workspace j3)) = (rc, e)" by force
  have "rc = 0 \<and> s' = s\<lparr>s_data := Some (capture_page env h (j3\<lparr>j_ht := ht, j_enc := e, j_page_open := True\<rparr>))\<rparr>"
    using assms(1) ok unfolding rest ht bp by (simp add: Let_def split: if_splits)
  then have rc: "rc = 0" and s': "s_data s' =
      Some (capture_page env (header opts) (j3\<lparr>j_ht := ht, j_enc := e, j_page_open := True\<rparr>))"
      "s_device s' = s_device s"
    by (simp_all add: h_def)
  have bufs': "page_buffers env (j\<lparr>j_page := page + 1, j_lines_in := 0, j_raster_width := cupsWidth (header opts),
      j_fmt := fmt, j_geo := g\<rparr>) (cupsWidth (header opts)) (geo_width g) = (True, j3)"
    using bufs ok by (simp only: h_def j1_def)
  show thesis
    by (rule that [OF fmt [unfolded h_def] geo [unfolded h_def] bufs' ht bp [unfolded rc] s'])
qed

lemma geometry_raster:
  "m2022_jobmap_geometry m d rw rh = Some g \<Longrightarrow> rw \<noteq> 0 \<and> rh \<noteq> 0"
  by (auto simp: m2022_jobmap_geometry_def split: option.splits if_splits)

lemma start_page_inv:
  assumes "cb_rstartpage env opts page s = (True, s')" "s_data s = Some j"
    and "phase_inv dw base qj done Between j"
  shows "\<exists>j'. s_data s' = Some j' \<and> phase_inv dw base qj done (InPage 0 []) j'"
proof (rule start_page_cases [OF assms(1,2)])
  from assms(3) have data: "data_ok j" and inv: "job_inv ctx_device (device_sink dw) base (pages_stream qj done) qj (j_enc j)"
    by simp_all
  obtain m where m: "m \<in> set MEDIA" "j_media j = Some m" using data by (auto simp: data_ok_def)
  fix fmt :: pixel_format and g :: jobmap_geometry and j3 :: job_data and ht :: halftoner and e :: "dev_ctx encoder"
  define j1 where "j1 = j\<lparr>j_page := page + 1, j_lines_in := 0, j_raster_width := cupsWidth (header opts),
    j_fmt := fmt, j_geo := g\<rparr>"
  define j4 where "j4 = j3\<lparr>j_ht := ht, j_enc := e, j_page_open := True\<rparr>"
  assume geo: "m2022_jobmap_geometry (j_media j) 600 (cupsWidth (header opts)) (cupsHeight (header opts)) = Some g"
    and bufs: "page_buffers env (j\<lparr>j_page := page + 1, j_lines_in := 0, j_raster_width := cupsWidth (header opts),
        j_fmt := fmt, j_geo := g\<rparr>) (cupsWidth (header opts)) (geo_width g) = (True, j3)"
    and ht: "m2022_halftoner_init (j_hp j3) (unat (geo_width g))
        (map_option (\<lambda>_. j_ht_state_bytes j3) (j_ht_state j3)) = Some ht"
    and bp: "m2022_qpdl_begin_page (j_enc j3) (unat (geo_width g))
        (map_option (\<lambda>_. uninit env (j_workspace_bytes j3)) (j_workspace j3)) = (0, e)"
    and s': "s_data s' = Some (capture_page env (header opts) (j3\<lparr>j_ht := ht, j_enc := e, j_page_open := True\<rparr>))"
  note raster = geometry_raster [OF geo]
  from geometry_600 [OF m(1) conjunct1 [OF raster] conjunct2 [OF raster]] geo m(2)
  have area: "area_ok (cupsWidth (header opts)) (cupsHeight (header opts)) g"
    and small: "unat (geo_width g) \<le> 4896" "unat (geo_height g) \<le> 8192" by auto
  have y0: "unat (geo_y0 g) + unat (geo_height g) < 2 ^ 32"
    using area unsigned_less [of "cupsHeight (header opts)", where 'a = nat]
    by (simp add: area_ok_def)
  have "data_ok j1" using data by (simp add: data_ok_def j1_def)
  from page_buffers_ok [OF bufs [folded j1_def] this conjunct1 [OF raster]]
  have j3: "data_ok j3" "j_alloc_raster_width j3 = cupsWidth (header opts)" "j_alloc_width j3 = geo_width g"
    "j_enc j3 = j_enc j" "j_raster_width j3 = cupsWidth (header opts)" "j_geo j3 = g"
    by (simp_all add: j1_def)
  have enc: "sink (j_enc j) = device_sink dw" "job (j_enc j) = qj"
    "ctx_device (sink_ctx (j_enc j)) = base @ pages_stream qj done" "bytes_out (j_enc j) = length (pages_stream qj done)"
    using inv by (simp_all add: job_inv_def)
  note first = device.begin_page_inv [OF bp [unfolded j3(4)] enc(1), unfolded enc(2-4)]
  have "page_ok j4"
    using first small y0 j3 raster halftoner_init_width [OF ht] by (simp add: page_ok_def j4_def)
  moreover have "data_ok j4" using j3(1) by (simp add: data_ok_def j4_def)
  moreover have "j_geo j4 = g" "j_enc j4 = e" by (simp_all add: j4_def j3(6))
  ultimately show "\<exists>j'. s_data s' = Some j' \<and> phase_inv dw base qj done (InPage 0 []) j'"
    unfolding s' j4_def [symmetric] option.inject ex_simps(1) simp_thms
    using first by (simp add: capture_page_frame lines_ok_def) blast
qed

lemma put_line_inv:
  assumes "cb_rwriteline env y line s = Some (True, s')" "s_data s = Some j" "y0 \<le> unat y"
    and "phase_inv dw base qj done (InPage y0 ls) j"
  shows "\<exists>j'. s_data s' = Some j' \<and> phase_inv dw base qj done (InPage (unat y + 1) (ls @ line_out env y line j)) j'"
proof -
  from assms(4) have data: "data_ok j" and page: "page_ok j" and lines: "lines_ok (unat (geo_width (j_geo j))) ls"
    and count: "length ls \<le> y0 - unat (geo_y0 (j_geo j))" "length ls \<le> unat (geo_height (j_geo j))"
    by simp_all
  define w where "w = unat (geo_width (j_geo j))"
  define b where "b = base @ pages_stream qj done @ m2022_qpdl_write_page_header (page_header_of qj)"
  define n where "n = length (pages_stream qj done @ m2022_qpdl_write_page_header (page_header_of qj))"
  from assms(4) obtain k0 p0 where
    inv: "page_inv ctx_device (device_sink dw) b n k0 p0 qj w ls (j_enc j)"
    by (auto simp: b_def n_def w_def)
  have open_page: "j_page_open j" using page by (simp add: page_ok_def)
  obtain j1 where j1: "capture_line env line j = Some j1"
    using assms(1,2) open_page by (auto simp: cb_rwriteline_def split: option.splits)
  note frame = capture_line_frame [OF j1]
  show ?thesis
  proof (cases "y < geo_y0 (j_geo j) \<or> y \<ge> geo_y0 (j_geo j) + geo_height (j_geo j)")
    case True
    then have "s_data s' = Some j1"
      using assms(1,2) open_page j1 frame(2) by (auto simp: cb_rwriteline_def)
    moreover have "length ls \<le> unat y + 1 - unat (geo_y0 (j_geo j))" using count(1) assms(3) by simp
    ultimately show ?thesis
      using True data page lines count(2) inv frame
      by (auto simp: line_out_def w_def b_def n_def)
  next
    case False
    define p where "p = line_pipeline env j y line"
    obtain rc e where wr: "m2022_qpdl_write_line (j_enc j) (Some (snd p)) = (rc, e)" by force
    define j2 where "j2 = j1\<lparr>j_ht := fst p, j_enc := e, j_lines_in := j_lines_in j1 + 1,
      j_first_band_logged := (j_first_band_logged j1 \<or> bands_written e > 0)\<rparr>"
    have "rc = 0 \<and> s_data s' = Some j2"
      using assms(1,2) open_page j1 False frame wr
      by (simp add: cb_rwriteline_def p_def Let_def case_prod_unfold j2_def split: if_splits) auto
    then have e: "m2022_qpdl_write_line (j_enc j) (Some (snd p)) = (0, e)" and s': "s_data s' = Some j2"
      using wr by simp_all
    have sum: "unat (geo_y0 (j_geo j) + geo_height (j_geo j)) = unat (geo_y0 (j_geo j)) + unat (geo_height (j_geo j))"
      using page by (simp add: page_ok_def unat_word_ariths)
    have in_range: "unat (geo_y0 (j_geo j)) \<le> unat y" "unat y < unat (geo_y0 (j_geo j)) + unat (geo_height (j_geo j))"
      using False sum by (simp_all add: word_less_nat_alt not_le not_less word_le_nat_alt)
    then have more: "length ls < unat (geo_height (j_geo j))"
      "length ls + 1 \<le> unat y + 1 - unat (geo_y0 (j_geo j))"
      using count(1) assms(3) by linarith+
    have width: "ht_width (j_ht j) = w" using page by (simp add: page_ok_def w_def)
    have len: "length (snd p) = (w + 7) div 8" "ht_width (fst p) = w"
      using length_halftone_line [of "bluenoise64 env" "j_ht j"] halftone_line_size [of _ "j_ht j"] width
      by (simp_all add: p_def line_pipeline_def Let_def) (metis prod.collapse)
    have "0 < w" "length ls < 32768" using page more by (simp_all add: page_ok_def w_def)
    from device.write_line_inv [OF inv e _ _ this] lines len(1)
    have "page_inv ctx_device (device_sink dw) b n k0 p0 qj w (ls @ [snd p]) e"
      by (simp add: lines_ok_def w_def)
    moreover have "lines_ok w (ls @ [snd p])"
      using lines len(1) more page by (simp add: lines_ok_def w_def page_ok_def)
    moreover have "line_out env y line j = [snd p]" using False by (simp add: line_out_def p_def)
    moreover have "data_ok j2" using frame(4) data by (simp add: data_ok_def j2_def)
    moreover have "page_ok j2" using frame(5) page len(2) by (simp add: page_ok_def w_def frame(2) j2_def)
    ultimately show ?thesis
      using s' more frame(2) by (auto simp: w_def b_def n_def j2_def)
  qed
qed

lemma page_closed:
  assumes "m2022_qpdl_end_page (j_enc j) = (0, e)" "phase_inv dw base qj done (InPage y0 ls) j"
  shows "job_inv ctx_device (device_sink dw) base
    (pages_stream qj (done @ [(unat (geo_width (j_geo j)), ls)])) qj e"
proof -
  from assms(2) obtain k0 p0 where inv: "page_inv ctx_device (device_sink dw)
      (base @ pages_stream qj done @ m2022_qpdl_write_page_header (page_header_of qj))
      (length (pages_stream qj done @ m2022_qpdl_write_page_header (page_header_of qj)))
      k0 p0 qj (unat (geo_width (j_geo j))) ls (j_enc j)" by auto
  from assms(2) have "lines_ok (unat (geo_width (j_geo j))) ls" by simp
  from device.end_page_inv [OF inv assms(1) this] show ?thesis
    by (simp add: job_inv_def pages_stream_snoc page_stream_def)
qed

lemma rendpage_inv:
  assumes "cb_rendpage s = (True, s')" "s_data s = Some j" "phase_inv dw base qj done (InPage y0 ls) j"
  shows "\<exists>j'. s_data s' = Some j'
    \<and> phase_inv dw base qj (done @ [(unat (geo_width (j_geo j)), ls)]) Between j'"
proof -
  have data: "data_ok j" and page: "j_page_open j" using assms(3) by (simp_all add: page_ok_def)
  obtain rc e where e: "m2022_qpdl_end_page (j_enc j) = (rc, e)" by force
  then have rc: "rc = 0"
    and s': "s_data s' = Some (j\<lparr>j_page_file := None, j_page_open := False, j_enc := e\<rparr>)"
    using assms(1,2) page by (auto simp: cb_rendpage_def Let_def)
  show ?thesis
    using page_closed [OF e [unfolded rc] assms(3)] data s' by (auto simp: data_ok_def)
qed

text \<open>Every session reached is in the state its phase says.\<close>

lemma printing_inv:
  "printing dw base qj done ph s \<Longrightarrow> \<exists>j. s_data s = Some j \<and> phase_inv dw base qj done ph j"
proof (induction rule: printing.induct)
  case (start_job env info opts s s' m)
  then show ?case by (intro start_job_inv)
next
  case (start_page dw base qj "done" s env opts page s')
  then show ?case using start_page_inv by blast
next
  case (put_line dw base qj "done" y0 ls s j y env line s')
  then show ?case using put_line_inv by fastforce
next
  case (end_page dw base qj "done" y0 ls s j s')
  then show ?case using rendpage_inv by fastforce
qed

section \<open>The end of a job\<close>

text \<open>The page that is open when the job ends counts with the lines it has.\<close>

fun open_pages :: "phase \<Rightarrow> job_data \<Rightarrow> (nat \<times> bytes list) list" where
  "open_pages Between j = []"
| "open_pages (InPage y0 ls) j = [(unat (geo_width (j_geo j)), ls)]"

lemma end_job_stream:
  assumes "m2022_qpdl_end_job e = (0, e')" "job_inv ctx_device (device_sink dw) base (pages_stream qj ps) qj e"
  shows "ctx_device (sink_ctx e') = base @ job_stream qj ps"
proof -
  have snk: "sink e = device_sink dw" and out: "ctx_device (sink_ctx e) = base @ pages_stream qj ps"
    using assms(2) by (simp_all add: job_inv_def)
  obtain e1 where e1: "emit (e\<lparr>in_job := False\<rparr>) [9] = (0, e1)" and e2: "emit e1 M2022_QPDL_UEL = (0, e')"
    using assms by (auto simp: m2022_qpdl_end_job_def job_inv_def Let_def split: prod.splits if_splits)
  have a1: "appends ctx_device (e\<lparr>in_job := False\<rparr>) e1 [9]"
    using device.emit_appends [OF e1] snk by simp
  have "appends ctx_device e1 e' M2022_QPDL_UEL"
    using device.emit_appends [OF e2] appends_sink [OF a1] snk by simp
  from appends_trans [OF a1 this] show ?thesis
    using out by (auto simp: appends_def job_stream_def pages_stream_def)
qed

lemma rendjob_stream:
  assumes "cb_rendjob s = (True, s')" "s_data s = Some j" "phase_inv dw base qj done ph j"
  shows "s_data s' = None \<and> s_device s' = base @ job_stream qj (done @ open_pages ph j)"
proof -
  define j1 where "j1 = (if j_page_open j then j\<lparr>j_page_open := False, j_enc := snd (m2022_qpdl_end_page (j_enc j))\<rparr> else j)"
  obtain rc e where e: "m2022_qpdl_end_job (j_enc j1) = (rc, e)" by force
  have opened: "j_job_open j1" using assms(3) by (cases ph) (auto simp: data_ok_def j1_def)
  from assms(1,2) opened e have ok: "rc = 0" "j_page_open j \<longrightarrow> fst (m2022_qpdl_end_page (j_enc j)) = 0"
    and s': "s_data s' = None" "s_device s' = ctx_device (sink_ctx e)"
    by (auto simp: cb_rendjob_def Let_def j1_def split: prod.splits if_splits)
  have "job_inv ctx_device (device_sink dw) base (pages_stream qj (done @ open_pages ph j)) qj (j_enc j1)"
  proof (cases ph)
    case Between
    then show ?thesis using assms(3) by (simp add: j1_def)
  next
    case (InPage y0 ls)
    then have page: "j_page_open j" using assms(3) by (simp add: page_ok_def)
    then have "m2022_qpdl_end_page (j_enc j) = (0, j_enc j1)"
      using ok(2) by (cases "m2022_qpdl_end_page (j_enc j)") (simp add: j1_def)
    from page_closed [OF this assms(3) [unfolded InPage]] show ?thesis by (simp add: InPage)
  qed
  from end_job_stream [OF e [unfolded ok(1)] this] s' show ?thesis by simp
qed

section \<open>With a device that takes everything\<close>

lemma page_inv_of:
  assumes "phase_inv dw base qj done (InPage y0 ls) j"
  obtains b n k p where "page_inv ctx_device (device_sink dw) b n k p qj (unat (geo_width (j_geo j))) ls (j_enc j)"
  using assms by auto

lemma rendpage_total:
  assumes "s_data s = Some j" "phase_inv good_write base qj done (InPage y0 ls) j"
  shows "fst (cb_rendpage s)"
proof -
  obtain b n k p where inv: "page_inv ctx_device (device_sink good_write) b n k p qj
      (unat (geo_width (j_geo j))) ls (j_enc j)" using page_inv_of [OF assms(2)] by blast
  from assms(2) have "lines_ok (unat (geo_width (j_geo j))) ls" "j_page_open j" by (simp_all add: page_ok_def)
  with good_device.end_page_total [OF inv] assms(1) show ?thesis
    by (auto simp: cb_rendpage_def Let_def)
qed

lemma end_job_total:
  assumes "sink e = device_sink good_write" "in_job e" "\<not> in_page e"
  shows "\<exists>e'. m2022_qpdl_end_job e = (0, e')"
proof -
  obtain e1 where e1: "emit (e\<lparr>in_job := False\<rparr>) [9] = (0, e1)"
    using good_device.emit_total [of "e\<lparr>in_job := False\<rparr>" "[9]"] assms(1) by auto
  then have "sink e1 = device_sink good_write" using emit_keeps [OF e1] assms(1) by simp
  then obtain e2 where "emit e1 M2022_QPDL_UEL = (0, e2)" using good_device.emit_total by blast
  with e1 assms show ?thesis by (simp add: m2022_qpdl_end_job_def)
qed

lemma rendjob_total:
  assumes "s_data s = Some j" "phase_inv good_write base qj done ph j"
  shows "fst (cb_rendjob s)"
proof -
  have opened: "j_job_open j" using assms(2) by (cases ph) (simp_all add: data_ok_def)
  show ?thesis
  proof (cases ph)
    case Between
    then have inv: "job_inv ctx_device (device_sink good_write) base (pages_stream qj done) qj (j_enc j)"
      "\<not> j_page_open j" using assms(2) by simp_all
    then obtain e' where "m2022_qpdl_end_job (j_enc j) = (0, e')"
      using end_job_total by (auto simp: job_inv_def)
    then show ?thesis using assms(1) opened inv(2) by (simp add: cb_rendjob_def Let_def)
  next
    case (InPage y0 ls)
    have inv: "phase_inv good_write base qj done (InPage y0 ls) j" using assms(2) InPage by simp
    obtain b n k p where page: "page_inv ctx_device (device_sink good_write) b n k p qj
        (unat (geo_width (j_geo j))) ls (j_enc j)" using page_inv_of [OF inv] by blast
    from inv have lines: "lines_ok (unat (geo_width (j_geo j))) ls" "j_page_open j" by (simp_all add: page_ok_def)
    then obtain e where e: "m2022_qpdl_end_page (j_enc j) = (0, e)"
      using good_device.end_page_total [OF page] by blast
    from page_closed [OF e inv] have "sink e = device_sink good_write" "in_job e" "\<not> in_page e"
      by (simp_all add: job_inv_def)
    then obtain e' where "m2022_qpdl_end_job e = (0, e')" using end_job_total by blast
    then show ?thesis using assms(1) opened lines(2) e by (simp add: cb_rendjob_def Let_def)
  qed
qed

text \<open>A line that holds what its header says.\<close>

definition line_holds :: "job_data \<Rightarrow> bytes \<Rightarrow> bool" where
  "line_holds j line \<longleftrightarrow> m2022_raster_line_bytes (j_fmt j) (unat (j_raster_width j)) \<le> length line
     \<and> (j_page_file j \<noteq> None \<longrightarrow> unat (j_bytes_per_line j) \<le> length line)"

lemma page_line_fits:
  assumes "phase_inv dw base qj done (InPage y0 ls) j" "line_holds j line"
  shows "line_fits j line"
proof -
  obtain b n k p where "page_inv ctx_device (device_sink dw) b n k p qj
      (unat (geo_width (j_geo j))) ls (j_enc j)" using page_inv_of [OF assms(1)] by blast
  then have "row_bytes_used (j_enc j) = (unat (geo_width (j_geo j)) + 7) div 8"
    by (simp add: page_inv_def page_geom_def Let_def)
  then show ?thesis
    using assms by (auto simp: line_fits_def line_holds_def page_ok_def data_ok_def)
qed

lemma capture_line_total:
  "line_holds j line \<Longrightarrow> \<exists>j'. capture_line env line j = Some j'"
  by (auto simp: capture_line_def line_holds_def Let_def split: option.splits)

lemma rwriteline_safe:
  assumes "s_data s = Some j" "phase_inv dw base qj done (InPage y0 ls) j" "line_holds j line"
  shows "cb_rwriteline env y line s \<noteq> None"
proof -
  obtain j1 where j1: "capture_line env line j = Some j1" using capture_line_total [OF assms(3)] by blast
  note frame = capture_line_frame [OF j1]
  have "line_fits j1 line" using page_line_fits [OF assms(2,3)] frame by simp
  then show ?thesis
    using assms(1) j1 by (auto simp: cb_rwriteline_def Let_def split: prod.splits)
qed

lemma rwriteline_total:
  assumes "s_data s = Some j" "phase_inv good_write base qj done (InPage y0 ls) j" "line_holds j line"
  shows "\<exists>s'. cb_rwriteline env y line s = Some (True, s')"
proof -
  define w where "w = unat (geo_width (j_geo j))"
  obtain b n k p where inv: "page_inv ctx_device (device_sink good_write) b n k p qj w ls (j_enc j)"
    using page_inv_of [OF assms(2)] unfolding w_def by blast
  obtain j1 where j1: "capture_line env line j = Some j1" using capture_line_total [OF assms(3)] by blast
  note frame = capture_line_frame [OF j1]
  have fits: "line_fits j1 line" using page_line_fits [OF assms(2,3)] frame by simp
  have page: "j_page_open j" "0 < w" "ht_width (j_ht j) = w" "lines_ok w ls" "length ls \<le> 8192"
    using assms(2) by (auto simp: page_ok_def w_def)
  obtain ht bits where p: "line_pipeline env j y line = (ht, bits)" by force
  then have "length bits = (w + 7) div 8"
    using length_halftone_line [of "bluenoise64 env" "j_ht j"] page(3)
    by (simp add: line_pipeline_def Let_def) (metis snd_conv)
  then have "lines_ok w (ls @ [bits])" using page(4,5) by (simp add: lines_ok_def)
  then obtain e where "m2022_qpdl_write_line (j_enc j) (Some bits) = (0, e)"
    using good_device.write_line_total [OF inv _ page(2)] by blast
  then show ?thesis
    using assms(1) page(1) j1 fits p frame
    by (auto simp: cb_rwriteline_def Let_def)
qed

text \<open>What the printer needs of a page: a raster it supports, at its resolution, not empty.\<close>

definition page_supported :: "cups_page_header \<Rightarrow> bool" where
  "page_supported h \<longleftrightarrow> header_format h \<noteq> None \<and> HWResolution h = (600, 600)
     \<and> cupsWidth h \<noteq> 0 \<and> cupsHeight h \<noteq> 0"

definition memory_ok :: "app_env \<Rightarrow> bool" where
  "memory_ok env \<longleftrightarrow> job_alloc env \<and> (\<forall>i n. alloc env i n) \<and> (\<forall>n. length (uninit env n) = n)"

lemma page_buffers_total:
  assumes "memory_ok env"
  shows "\<exists>j'. page_buffers env j rw w = (True, j')"
  using assms by (auto simp: page_buffers_def Let_def memory_ok_def malloc_def)

lemma rstartpage_total:
  assumes "s_data s = Some j" "phase_inv good_write base qj done Between j" "page_supported (header opts)" "memory_ok env"
  shows "fst (cb_rstartpage env opts page s)"
proof -
  define h where "h = header opts"
  from assms(2) have data: "data_ok j" and inv: "job_inv ctx_device (device_sink good_write) base (pages_stream qj done) qj (j_enc j)"
    by simp_all
  obtain m where m: "m \<in> set MEDIA" "j_media j = Some m" using data by (auto simp: data_ok_def)
  obtain fmt where h: "header_format h = Some fmt" "HWResolution h = (600, 600)" "cupsWidth h \<noteq> 0" "cupsHeight h \<noteq> 0"
    using assms(3) by (auto simp: page_supported_def h_def)
  obtain g where g: "m2022_jobmap_geometry (Some m) 600 (cupsWidth h) (cupsHeight h) = Some g"
    "area_ok (cupsWidth h) (cupsHeight h) g" "unat (geo_width g) \<le> 4896"
    using geometry_600 [OF m(1) h(3,4)] by blast
  define j1 where "j1 = j\<lparr>j_page := page + 1, j_lines_in := 0, j_raster_width := cupsWidth h,
    j_fmt := fmt, j_geo := g\<rparr>"
  have j1: "data_ok j1" "j_enc j1 = j_enc j" using data by (simp_all add: data_ok_def j1_def)
  obtain j3 where bufs: "page_buffers env j1 (cupsWidth h) (geo_width g) = (True, j3)"
    using page_buffers_total [OF assms(4)] by blast
  from page_buffers_ok [OF bufs j1(1) h(3)] j1(2)
  have j3: "data_ok j3" "j_alloc_raster_width j3 \<noteq> 0" "j_alloc_width j3 = geo_width g" "j_enc j3 = j_enc j"
    using h(3) by simp_all
  then obtain a b where ptr: "j_ht_state j3 = Some a" "j_workspace j3 = Some b"
    and sizes: "j_ht_state_bytes j3 = m2022_halftoner_state_bytes (unat (geo_width g))"
      "j_workspace_bytes j3 = m2022_qpdl_encoder_workspace_bytes (unat (geo_width g))"
    by (auto simp: data_ok_def)
  obtain ht where ht: "m2022_halftoner_init (j_hp j3) (unat (geo_width g)) (Some (j_ht_state_bytes j3)) = Some ht"
    using halftoner_init_total unfolding sizes by blast
  have ready: "sink (j_enc j) = device_sink good_write" "in_job (j_enc j)" "\<not> in_page (j_enc j)"
    using inv by (simp_all add: job_inv_def)
  have "0 < unat (geo_width g)" "unat (geo_width g) \<le> 65280" using g(2,3) by (simp_all add: area_ok_def)
  from good_device.begin_page_total [OF ready this] assms(4)
  obtain e where e: "m2022_qpdl_begin_page (j_enc j) (unat (geo_width g))
      (Some (uninit env (j_workspace_bytes j3))) = (0, e)"
    unfolding sizes memory_ok_def by (metis order_refl)
  have opened: "j_job_open j" using data by (simp add: data_ok_def)
  show ?thesis
    unfolding cb_rstartpage_def assms(1) option.case Let_def h_def [symmetric] h(1)
    using opened m(2) h(2) g(1) bufs ht e j3(4) ptr
    by (simp add: j1_def)
qed

text \<open>What the environment provides for the job's header: a date and a version that are plain text.\<close>

definition texts_ok :: "app_env \<Rightarrow> bool" where
  "texts_ok env \<longleftrightarrow> plain_text (today env) 8 \<and> plain_text (take 63 (ascii ''M2022 AirBridge '' @ version_string env)) 128"

lemma media_points: "m \<in> set MEDIA \<Longrightarrow> 0 < width_pt m \<and> 0 < height_pt m"
proof -
  have "list_all (\<lambda>m. 0 < width_pt m \<and> 0 < height_pt m) MEDIA" by (simp add: MEDIA_def medium_def)
  then show "m \<in> set MEDIA \<Longrightarrow> 0 < width_pt m \<and> 0 < height_pt m" by (simp add: list_all_iff)
qed

lemma paper_type_plain: "plain_text (ascii (m2022_jobmap_paper_type t)) 32"
proof -
  have "m2022_jobmap_paper_type t \<in> {''OFF'', ''THICK'', ''THIN'', ''USED'', ''CARD'', ''LABEL'', ''ENV''}"
    by (auto simp: m2022_jobmap_paper_type_def paper_type_map_def split: option.splits if_splits)
  moreover have "plain_text (ascii ''OFF'') 32" "plain_text (ascii ''THICK'') 32" "plain_text (ascii ''THIN'') 32"
    "plain_text (ascii ''USED'') 32" "plain_text (ascii ''CARD'') 32" "plain_text (ascii ''LABEL'') 32"
    "plain_text (ascii ''ENV'') 32" by code_simp+
  ultimately show ?thesis by auto
qed

lemma copies_nonzero: "0 < n \<Longrightarrow> word_of_int (if n > 65535 then 65535 else n) \<noteq> (0 :: u16)"
proof -
  assume n: "0 < n"
  define c where "c = (if n > 65535 then 65535 else n)"
  have c: "0 < c" "c < 65536" using n by (auto simp: c_def)
  have "uint (word_of_int c :: u16) = c" using c by (simp add: uint_word_of_int take_bit_eq_mod)
  then show ?thesis unfolding c_def [symmetric] using c by auto
qed

lemma app_job_valid:
  assumes "m \<in> set MEDIA" "texts_ok env" "0 < n"
  shows "job_valid (qpdl_job_of env opts m n)"
  using media_points [OF assms(1)] assms(2) copies_nonzero [OF assms(3)] paper_type_plain
  by (simp add: job_valid_def qpdl_job_of_def m2022_qpdl_job_default_def texts_ok_def m2022_jobmap_feeder_def)

lemma begin_job_total:
  assumes "job_valid qj"
  shows "\<exists>e. m2022_qpdl_begin_job e0 qj (device_sink good_write) ctx = (0, e)"
proof -
  obtain e where "encode_job e0 qj (device_sink good_write) ctx [] = (0, e)"
    using good_device.encode_job_total [OF assms, of "[]"] by auto
  then show ?thesis unfolding encode_job_def by (auto simp only: in_order_ok)
qed

lemma rstartjob_total:
  assumes "m2022_media_by_pwg (Some (size_name opts)) = Some m" "texts_ok env" "memory_ok env"
    and "device_write env = good_write"
  shows "fst (cb_rstartjob env info opts s)"
proof -
  have "m \<in> set MEDIA" using assms(1) by_pwg_iff by blast
  from app_job_valid [OF this assms(2)] have "job_valid (qpdl_job_of env opts m (if opt_copies opts > 0 then opt_copies opts else 1))"
    by simp
  from begin_job_total [OF this] obtain e where
    "m2022_qpdl_begin_job (j_enc ((job_zero env (device_of s))\<lparr>j_media := Some m\<rparr>))
       (qpdl_job_of env opts m (if opt_copies opts > 0 then opt_copies opts else 1))
       (device_sink (device_write env)) (sink_ctx (j_enc ((job_zero env (device_of s))\<lparr>j_media := Some m\<rparr>))) = (0, e)"
    unfolding assms(4) by blast
  then show ?thesis
    using assms(1,3) by (simp add: cb_rstartjob_def Let_def memory_ok_def job_zero_def case_prod_unfold)
qed

end
