(* ===== verification/App_Page.thy ===== *)
theory App_Page
  imports App_Session
begin

text \<open>
  The page that a client's raster is on paper, as a specification: the printable window of the paper, cut out
  of the raster, as ink, halftoned from its first row. And that the line processing of src/app/app.c computes it.
\<close>

section \<open>The window\<close>

text \<open>Points to pixels at 600 dpi, to the nearest, halves up.\<close>

definition to_pixels :: "real \<Rightarrow> nat" where
  "to_pixels points = nat \<lfloor>points * 600 / 72 + 1 / 2\<rfloor>"

text \<open>
  The part of \<open>n\<close> pixels that is printed, its start and its size: a raster that holds the margin and the
  printable size is a whole page and loses its margin; a smaller one is printed from its start.
\<close>

definition window :: "nat \<Rightarrow> nat \<Rightarrow> nat \<Rightarrow> nat \<times> nat" where
  "window start len n = (if start + len \<le> n then (start, len) else (0, min len n))"

definition columns :: "media \<Rightarrow> nat \<Rightarrow> nat \<times> nat" where
  "columns m = window (to_pixels (imageable m ! 0)) (to_pixels (imageable m ! 2 - imageable m ! 0))"

definition rows_of :: "media \<Rightarrow> nat \<Rightarrow> nat \<times> nat" where
  "rows_of m = window (to_pixels (of_int (height_pt m) - imageable m ! 3)) (to_pixels (imageable m ! 3 - imageable m ! 1))"

lemma to_pixels_sizes:
  "map (\<lambda>m. (to_pixels (imageable m ! 2 - imageable m ! 0), to_pixels (imageable m ! 3 - imageable m ! 1))) MEDIA =
    [(4750, 6808), (4896, 6400), (4892, 8192), (4128, 6100), (3292, 4750), (4092, 5867), (3936, 5704),
     (4892, 7592), (4892, 7892), (2192, 3392), (3616, 5208), (2368, 4996), (2263, 5488), (2113, 4300)]"
  by (simp add: MEDIA_def medium_def to_pixels_def)

lemma to_pixels_margins:
  "map (\<lambda>m. (to_pixels (imageable m ! 0), to_pixels (of_int (height_pt m) - imageable m ! 3))) MEDIA =
    [(104, 104), (102, 100), (104, 104), (111, 99), (104, 104), (104, 104), (110, 104),
     (104, 104), (104, 104), (104, 104), (105, 100), (115, 103), (108, 104), (106, 99)]"
  by (simp add: MEDIA_def medium_def to_pixels_def)

lemma media_pixels:
  assumes "m \<in> set MEDIA"
  shows "unat (px (imageable m ! 2 - imageable m ! 0) 600) = to_pixels (imageable m ! 2 - imageable m ! 0)"
    "unat (px (imageable m ! 3 - imageable m ! 1) 600) = to_pixels (imageable m ! 3 - imageable m ! 1)"
    "unat (px (imageable m ! 0) 600) = to_pixels (imageable m ! 0)"
    "unat (px (of_int (height_pt m) - imageable m ! 3) 600) = to_pixels (of_int (height_pt m) - imageable m ! 3)"
proof -
  have "map (\<lambda>m. map_prod unat unat (printable m 600)) MEDIA =
      map (\<lambda>m. (to_pixels (imageable m ! 2 - imageable m ! 0), to_pixels (imageable m ! 3 - imageable m ! 1))) MEDIA"
    unfolding to_pixels_sizes using arg_cong [OF printable_600, of "map (map_prod unat unat)"] by (simp add: comp_def)
  moreover have "map (\<lambda>m. map_prod unat unat (margins m 600)) MEDIA =
      map (\<lambda>m. (to_pixels (imageable m ! 0), to_pixels (of_int (height_pt m) - imageable m ! 3))) MEDIA"
    unfolding to_pixels_margins using arg_cong [OF margins_600, of "map (map_prod unat unat)"] by (simp add: comp_def)
  ultimately show "unat (px (imageable m ! 2 - imageable m ! 0) 600) = to_pixels (imageable m ! 2 - imageable m ! 0)"
    "unat (px (imageable m ! 3 - imageable m ! 1) 600) = to_pixels (imageable m ! 3 - imageable m ! 1)"
    "unat (px (imageable m ! 0) 600) = to_pixels (imageable m ! 0)"
    "unat (px (of_int (height_pt m) - imageable m ! 3) 600) = to_pixels (of_int (height_pt m) - imageable m ! 3)"
    using assms by (simp_all add: printable_def margins_def)
qed

text \<open>One dimension of \<open>m2022_jobmap_geometry\<close>.\<close>

lemma window_words:
  fixes r p k :: u32
  assumes "unat p + unat k < 2 ^ 32"
  shows "(unat (if r \<ge> p + k then k else 0),
      unat (if r - (if r \<ge> p + k then k else 0) < p then r - (if r \<ge> p + k then k else 0) else p))
    = window (unat k) (unat p) (unat r)"
proof -
  have sum: "unat (p + k) = unat p + unat k" using assms by (simp add: unat_word_ariths)
  show ?thesis
  proof (cases "p + k \<le> r")
    case True
    then have le: "unat p + unat k \<le> unat r" using sum by (simp add: word_le_nat_alt)
    then have "unat (r - k) = unat r - unat k" by (intro unat_sub) (simp add: word_le_nat_alt)
    then have "\<not> r - k < p" using le by (simp add: word_less_nat_alt)
    then show ?thesis using True le by (simp add: window_def add.commute)
  next
    case False
    then have "\<not> unat k + unat p \<le> unat r" using sum by (simp add: word_le_nat_alt)
    then show ?thesis using False by (simp add: window_def word_less_nat_alt min_def)
  qed
qed

lemma geometry_window:
  assumes "m2022_jobmap_geometry (Some m) 600 rw rh = Some g" "m \<in> set MEDIA"
  shows "(unat (geo_x0 g), unat (geo_width g)) = columns m (unat rw)"
    and "(unat (geo_y0 g), unat (geo_height g)) = rows_of m (unat rh)"
proof -
  define pw ph k l where "pw = px (imageable m ! 2 - imageable m ! 0) 600"
    and "ph = px (imageable m ! 3 - imageable m ! 1) 600" and "k = px (imageable m ! 0) 600"
    and "l = px (of_int (height_pt m) - imageable m ! 3) 600"
  note defs = pw_def ph_def k_def l_def
  have small: "unat pw + unat k < 2 ^ 32" "unat ph + unat l < 2 ^ 32"
    using media_engine_ok [OF assms(2)] by (simp_all add: engine_ok_def printable_def margins_def defs)
  have g: "g = \<lparr>geo_x0 = (if rw \<ge> pw + k then k else 0), geo_y0 = (if rh \<ge> ph + l then l else 0),
      geo_width = (if rw - (if rw \<ge> pw + k then k else 0) < pw then rw - (if rw \<ge> pw + k then k else 0) else pw),
      geo_height = (if rh - (if rh \<ge> ph + l then l else 0) < ph then rh - (if rh \<ge> ph + l then l else 0) else ph)\<rparr>"
    using assms(1) unfolding m2022_jobmap_geometry_def Let_def defs [symmetric] option.case
    by (simp only: split: if_splits) simp_all
  show "(unat (geo_x0 g), unat (geo_width g)) = columns m (unat rw)"
    using window_words [OF small(1), of rw] unfolding g columns_def media_pixels(1,3) [OF assms(2), symmetric]
    by (simp only: defs jobmap_geometry.select_convs)
  show "(unat (geo_y0 g), unat (geo_height g)) = rows_of m (unat rh)"
    using window_words [OF small(2), of rh] unfolding g rows_of_def media_pixels(2,4) [OF assms(2), symmetric]
    by (simp only: defs jobmap_geometry.select_convs)
qed

section \<open>The page\<close>

text \<open>The gray value of a pixel, 0 for black.\<close>

definition gray_at :: "pixel_format \<Rightarrow> bytes \<Rightarrow> nat \<Rightarrow> u8" where
  "gray_at fmt line x =
    (case fmt of
       M2022_PIX_SGRAY_8 \<Rightarrow> line ! x
     | M2022_PIX_BLACK_8 \<Rightarrow> 255 - line ! x
     | M2022_PIX_BLACK_1 \<Rightarrow> (if pixel line x then 0 else 255)
     | M2022_PIX_SRGB_24 \<Rightarrow> srgb_gray (line ! (3 * x)) (line ! (3 * x + 1)) (line ! (3 * x + 2)))"

lemma line_to_gray_nth: "x < w \<Longrightarrow> m2022_raster_line_to_gray fmt line w ! x = gray_at fmt line x"
  using black_1_to_gray by (cases fmt) (simp_all add: gray_at_def m2022_raster_line_to_gray_def)

text \<open>The ink of the \<open>w\<close> pixels from \<open>x0\<close> on.\<close>

definition ink_row :: "bytes \<Rightarrow> pixel_format \<Rightarrow> nat \<Rightarrow> nat \<Rightarrow> bytes \<Rightarrow> bytes" where
  "ink_row lut fmt x0 w line = map (\<lambda>x. lut ! unat (gray_at fmt line (x0 + x))) [0..<w]"

text \<open>The tone curve and the halftone of a job.\<close>

definition job_preset :: "pr_options \<Rightarrow> tone_params \<times> ht_params" where
  "job_preset opts = m2022_preset (m2022_jobmap_preset (print_quality opts) (content_from (print_content_optimize opts)))"

definition fresh_halftoner :: "pr_options \<Rightarrow> nat \<Rightarrow> halftoner" where
  "fresh_halftoner opts w =
    the (m2022_halftoner_init (snd (job_preset opts)) w (Some (m2022_halftoner_state_bytes w)))"

text \<open>The lines of the window as ink, from the lines of the page that the client sent.\<close>

definition page_inks :: "pr_options \<Rightarrow> media \<Rightarrow> cups_page_header \<Rightarrow> bytes list \<Rightarrow> bytes list" where
  "page_inks jopts m h ls =
    (let (x0, w) = columns m (unat (cupsWidth h));
         (y0, n) = rows_of m (unat (cupsHeight h))
     in map (ink_row (m2022_tone_build (fst (job_preset jopts))) (the (header_format h)) x0 w) (take n (drop y0 ls)))"

text \<open>The width and the rows of a page, of which the client sent the header and the lines.\<close>

definition printed_page :: "bytes \<Rightarrow> pr_options \<Rightarrow> media \<Rightarrow> pr_options \<times> bytes list \<Rightarrow> nat \<times> bytes list" where
  "printed_page tile jopts m p =
    (let w = snd (columns m (unat (cupsWidth (header (fst p)))))
     in (w, snd (halftone_lines tile (fresh_halftoner jopts w) 0 (page_inks jopts m (header (fst p)) (snd p)))))"

lemma take_drop_snoc:
  "take n (drop k (xs @ [x])) = take n (drop k xs) @ (if k \<le> length xs \<and> length xs < k + n then [x] else [])"
  by (auto simp: not_le)

lemma page_inks_snoc:
  assumes "columns m (unat (cupsWidth h)) = (x0, w)" "rows_of m (unat (cupsHeight h)) = (y0, n)"
  shows "page_inks jopts m h (ds @ [l]) = page_inks jopts m h ds
    @ (if y0 \<le> length ds \<and> length ds < y0 + n
       then [ink_row (m2022_tone_build (fst (job_preset jopts))) (the (header_format h)) x0 w l] else [])"
  unfolding page_inks_def assms Let_def prod.case take_drop_snoc by simp

lemma page_inks_length:
  assumes "rows_of m (unat (cupsHeight h)) = (y0, n)"
  shows "length (page_inks jopts m h ds) = min (length ds - y0) n"
  by (simp add: page_inks_def assms Let_def case_prod_unfold min.commute)

lemma fresh_halftoner_init:
  assumes "m2022_halftoner_init (snd (job_preset opts)) w st = Some ht"
  shows "ht = fresh_halftoner opts w"
proof -
  have "m2022_halftoner_init (snd (job_preset opts)) w (Some (m2022_halftoner_state_bytes w)) = Some ht"
    using assms
    by (cases "ht_method (snd (job_preset opts))")
      (auto simp: m2022_halftoner_init_def Let_def split: option.splits if_splits)
  then show ?thesis by (simp add: fresh_halftoner_def)
qed

lemma fresh_halftoner_params:
  "ht_params (fresh_halftoner opts w) = snd (job_preset opts) \<and> ht_width (fresh_halftoner opts w) = w"
  using halftoner_init_total [of "snd (job_preset opts)" w] halftoner_init_width
  by (auto simp: fresh_halftoner_def)

lemma halftone_lines_nth:
  "\<lbrakk>ht_method (ht_params ht) \<noteq> M2022_HT_FLOYD_STEINBERG; y < length inks\<rbrakk>
   \<Longrightarrow> snd (halftone_lines tile ht k inks) ! y = snd (m2022_halftone_line tile ht (inks ! y) (k + y))"
proof (induction inks arbitrary: k y)
  case (Cons ink inks)
  have "fst (m2022_halftone_line tile ht ink k) = ht"
    using Cons.prems(1) by (cases "ht_method (ht_params ht)") (auto simp: m2022_halftone_line_def Let_def)
  then obtain bits where l: "m2022_halftone_line tile ht ink k = (ht, bits)" by (metis prod.collapse)
  show ?case using Cons l by (cases y) (auto simp: Let_def case_prod_unfold)
qed simp

lemma halftone_lines_length: "length (snd (halftone_lines tile ht k inks)) = length inks"
  by (induction inks arbitrary: ht k) (simp_all add: Let_def case_prod_unfold)

text \<open>Under a screen, which is every method but error diffusion, a pixel is black if and only if its ink, which
  is that of the client's pixel at this place of the window, exceeds the screen's threshold.\<close>

lemma printed_page_pixel:
  assumes "ht_method (snd (job_preset jopts)) \<noteq> M2022_HT_FLOYD_STEINBERG"
    and "columns m (unat (cupsWidth (header (fst p)))) = (x0, w)" "rows_of m (unat (cupsHeight (header (fst p)))) = (y0, n)"
    and "header_format (header (fst p)) = Some fmt" "x < w" "y < n" "y0 + n \<le> length (snd p)"
  shows "pixel (snd (printed_page tile jopts m p) ! y) x \<longleftrightarrow>
    m2022_tone_build (fst (job_preset jopts)) ! unat (gray_at fmt (snd p ! (y0 + y)) (x0 + x))
      > screen_threshold tile (fresh_halftoner jopts w) y x"
proof -
  define ht where "ht = fresh_halftoner jopts w"
  define ink where "ink = page_inks jopts m (header (fst p)) (snd p) ! y"
  have ht: "ht_method (ht_params ht) \<noteq> M2022_HT_FLOYD_STEINBERG" "ht_width ht = w"
    using assms(1) fresh_halftoner_params by (simp_all add: ht_def)
  have len: "length (page_inks jopts m (header (fst p)) (snd p)) = n"
    using page_inks_length [OF assms(3)] assms(7) by simp
  have ink: "ink ! x = m2022_tone_build (fst (job_preset jopts)) ! unat (gray_at fmt (snd p ! (y0 + y)) (x0 + x))"
    unfolding ink_def page_inks_def assms(2,3) Let_def prod.case
    using assms(4-7) by (simp add: ink_row_def)
  have "snd (printed_page tile jopts m p) ! y = snd (m2022_halftone_line tile ht ink y)"
    using halftone_lines_nth [OF ht(1), of y "page_inks jopts m (header (fst p)) (snd p)" tile 0] assms(2,6) len
    by (simp add: printed_page_def ht_def ink_def)
  then show ?thesis
    using ordered_line_fresh [OF byte_index_less, of x w] assms(5) ht ink
    by (cases "ht_method (ht_params ht)")
      (auto simp: m2022_halftone_line_def screen_threshold_def Let_def ht_def [symmetric])
qed

text \<open>The same of all its pixels, as a property of a sheet.\<close>

definition screened :: "bytes \<Rightarrow> pr_options \<Rightarrow> media \<Rightarrow> pr_options \<times> bytes list \<Rightarrow> nat \<times> bytes list \<Rightarrow> bool" where
  "screened tile jopts m p sheet \<longleftrightarrow>
    (let h = header (fst p); (x0, w) = columns m (unat (cupsWidth h)); (y0, n) = rows_of m (unat (cupsHeight h))
     in fst sheet = w \<and> length (snd sheet) = n
        \<and> (ht_method (snd (job_preset jopts)) \<noteq> M2022_HT_FLOYD_STEINBERG \<longrightarrow>
            (\<forall>y < n. \<forall>x < w. pixel (snd sheet ! y) x \<longleftrightarrow>
              m2022_tone_build (fst (job_preset jopts))
                ! unat (gray_at (the (header_format h)) (snd p ! (y0 + y)) (x0 + x))
              > screen_threshold tile (fresh_halftoner jopts w) y x)))"

lemma window_inside: "window k len n = (y0, l) \<Longrightarrow> y0 + l \<le> n"
  by (auto simp: window_def split: if_splits)

lemma printed_page_screened:
  assumes "length (snd p) = unat (cupsHeight (header (fst p)))" "header_format (header (fst p)) \<noteq> None"
  shows "screened tile jopts m p (printed_page tile jopts m p)"
proof -
  obtain x0 w where c: "columns m (unat (cupsWidth (header (fst p)))) = (x0, w)" by force
  obtain y0 n where r: "rows_of m (unat (cupsHeight (header (fst p)))) = (y0, n)" by force
  obtain fmt where f: "header_format (header (fst p)) = Some fmt" using assms(2) by blast
  have inside: "y0 + n \<le> length (snd p)" using r window_inside assms(1) by (simp add: rows_of_def)
  then have "length (snd (printed_page tile jopts m p)) = n"
    using page_inks_length [OF r] by (simp add: printed_page_def Let_def halftone_lines_length)
  moreover have "fst (printed_page tile jopts m p) = w" by (simp add: printed_page_def c Let_def)
  ultimately show ?thesis
    using printed_page_pixel [OF _ c r f _ _ inside] by (simp add: screened_def c r f)
qed

section \<open>The callbacks compute it\<close>

text \<open>What a job keeps of its options, and what an open page keeps of its header.\<close>

definition settings :: "pr_options \<Rightarrow> media \<Rightarrow> job_data \<Rightarrow> bool" where
  "settings jopts m j \<longleftrightarrow> j_media j = Some m \<and> j_lut j = m2022_tone_build (fst (job_preset jopts))
     \<and> j_hp j = snd (job_preset jopts)"

definition page_of :: "pr_options \<Rightarrow> media \<Rightarrow> cups_page_header \<Rightarrow> job_data \<Rightarrow> bool" where
  "page_of jopts m h j \<longleftrightarrow> settings jopts m j \<and> m \<in> set MEDIA
     \<and> header_format h = Some (j_fmt j) \<and> j_raster_width j = cupsWidth h
     \<and> m2022_jobmap_geometry (Some m) 600 (cupsWidth h) (cupsHeight h) = Some (j_geo j)
     \<and> (j_page_file j \<noteq> None \<longrightarrow> j_bytes_per_line j = cupsBytesPerLine h)"

lemma sint_small: "unat (x :: u32) < 2 ^ 31 \<Longrightarrow> sint x = int (unat x)"
proof -
  assume x: "unat x < 2 ^ 31"
  define n where "n = unat x"
  have "uint x = int n" by (simp add: n_def)
  moreover have "signed_take_bit 31 (int n) = int n"
    using x by (intro signed_take_bit_int_eq_self) (simp_all add: n_def [symmetric])
  ultimately show "sint x = int (unat x)" by (simp add: sint_uint n_def [symmetric])
qed

lemma page_of_window:
  assumes "page_of jopts m h j"
  shows "columns m (unat (cupsWidth h)) = (unat (geo_x0 (j_geo j)), unat (geo_width (j_geo j)))"
    and "rows_of m (unat (cupsHeight h)) = (unat (geo_y0 (j_geo j)), unat (geo_height (j_geo j)))"
    and "unat (geo_x0 (j_geo j)) + unat (geo_width (j_geo j)) \<le> unat (cupsWidth h)"
    and "unat (geo_y0 (j_geo j)) + unat (geo_height (j_geo j)) \<le> unat (cupsHeight h)"
    and "sint (geo_x0 (j_geo j)) = int (unat (geo_x0 (j_geo j)))"
proof -
  have geo: "m2022_jobmap_geometry (Some m) 600 (cupsWidth h) (cupsHeight h) = Some (j_geo j)" "m \<in> set MEDIA"
    using assms by (simp_all add: page_of_def)
  show c: "columns m (unat (cupsWidth h)) = (unat (geo_x0 (j_geo j)), unat (geo_width (j_geo j)))"
    and "rows_of m (unat (cupsHeight h)) = (unat (geo_y0 (j_geo j)), unat (geo_height (j_geo j)))"
    using geometry_window [OF geo] by simp_all
  note raster = geometry_raster [OF geo(1)]
  from geometry_600 [OF geo(2) conjunct1 [OF raster] conjunct2 [OF raster]] geo(1)
  show "unat (geo_x0 (j_geo j)) + unat (geo_width (j_geo j)) \<le> unat (cupsWidth h)"
    "unat (geo_y0 (j_geo j)) + unat (geo_height (j_geo j)) \<le> unat (cupsHeight h)"
    by (auto simp: area_ok_def)
  have "unat (geo_x0 (j_geo j)) \<le> to_pixels (imageable m ! 0)"
    using c by (simp add: columns_def window_def split: if_splits)
  moreover have "to_pixels (imageable m ! 0) \<le> 115"
    using media_engine_ok [OF geo(2)] media_pixels(3) [OF geo(2)] by (simp add: engine_ok_def printable_def margins_def)
  ultimately show "sint (geo_x0 (j_geo j)) = int (unat (geo_x0 (j_geo j)))" by (intro sint_small) simp
qed

lemma line_pipeline_ink:
  assumes "page_of jopts m h j" "columns m (unat (cupsWidth h)) = (x0, w)"
  shows "line_pipeline env j y line = m2022_halftone_line (bluenoise64 env) (j_ht j)
    (ink_row (m2022_tone_build (fst (job_preset jopts))) (the (header_format h)) x0 w line)
    (unat (y - geo_y0 (j_geo j)))"
proof -
  note win = page_of_window [OF assms(1)]
  have w: "unat (geo_x0 (j_geo j)) = x0" "unat (geo_width (j_geo j)) = w" using win(1) assms(2) by simp_all
  define rw where "rw = unat (cupsWidth h)"
  have j: "j_raster_width j = cupsWidth h" "the (header_format h) = j_fmt j"
    "j_lut j = m2022_tone_build (fst (job_preset jopts))"
    using assms(1) by (simp_all add: page_of_def settings_def)
  have fit: "m2022_raster_fit_line (m2022_raster_line_to_gray (j_fmt j) line rw) rw (int x0) w 255 ! x
      = gray_at (j_fmt j) line (x0 + x)" if "x < w" for x
  proof -
    have "x0 + x < rw" using win(3) w that by (simp add: rw_def)
    moreover have "nat (int x0 + int x) = x0 + x" by (simp add: nat_add_distrib)
    ultimately show ?thesis using that by (simp add: fit_line_nth line_to_gray_nth)
  qed
  have "m2022_tone_apply (j_lut j) (m2022_raster_fit_line
        (m2022_raster_line_to_gray (j_fmt j) line (unat (j_raster_width j))) (unat (j_raster_width j))
        (sint (geo_x0 (j_geo j))) w 255) w
      = ink_row (m2022_tone_build (fst (job_preset jopts))) (the (header_format h)) x0 w line"
    unfolding m2022_tone_apply_def ink_row_def j win(5) w(1) rw_def [symmetric]
    using fit by simp
  then show ?thesis by (simp add: line_pipeline_def Let_def w(2))
qed

end
