(* ===== verification/App_Job.thy ===== *)
theory App_Job
  imports App_Page
begin

text \<open>
  Whole jobs through the raster callbacks: a client that calls them as PAPPL does, and what it gets from
  a printer that takes everything. Also what the callbacks do after a failed allocation.
\<close>

section \<open>The client\<close>

text \<open>
  The calls of PAPPL's raster filters: the lines of a page from the top, a page at a time, and the end of
  the job whatever happened before. None is a callback that left its buffers.
\<close>

fun client_lines :: "app_env \<Rightarrow> nat \<Rightarrow> bytes list \<Rightarrow> session \<Rightarrow> (bool \<times> session) option" where
  "client_lines env y [] s = Some (True, s)"
| "client_lines env y (l # ls) s =
    (case cb_rwriteline env (word_of_nat y) l s of
       None \<Rightarrow> None
     | Some (ok, s') \<Rightarrow> if ok then client_lines env (y + 1) ls s' else Some (False, s'))"

definition client_page :: "app_env \<Rightarrow> pr_options \<Rightarrow> nat \<Rightarrow> bytes list \<Rightarrow> session \<Rightarrow> (bool \<times> session) option" where
  "client_page env opts page ls s =
    (let (ok, s1) = cb_rstartpage env opts (word_of_nat page) s
     in if \<not> ok then Some (False, s1)
        else case client_lines env 0 ls s1 of
          None \<Rightarrow> None
        | Some (ok2, s2) \<Rightarrow> if ok2 then Some (cb_rendpage s2) else Some (False, s2))"

fun client_pages ::
  "app_env \<Rightarrow> nat \<Rightarrow> (pr_options \<times> bytes list) list \<Rightarrow> session \<Rightarrow> (bool \<times> session) option" where
  "client_pages env n [] s = Some (True, s)"
| "client_pages env n ((opts, ls) # ps) s =
    (case client_page env opts n ls s of
       None \<Rightarrow> None
     | Some (ok, s') \<Rightarrow> if ok then client_pages env (n + 1) ps s' else Some (False, s'))"

definition client_job ::
  "app_env \<Rightarrow> job_info \<Rightarrow> pr_options \<Rightarrow> (pr_options \<times> bytes list) list \<Rightarrow> session \<Rightarrow> (bool \<times> session) option" where
  "client_job env info opts sheets s =
    (let (ok, s1) = cb_rstartjob env info opts s
     in if \<not> ok then Some (False, s1)
        else case client_pages env 0 sheets s1 of
          None \<Rightarrow> None
        | Some (ok2, s2) \<Rightarrow> (let (ok3, s3) = cb_rendjob s2 in Some (ok2 \<and> ok3, s3)))"

section \<open>The page a session is in\<close>

text \<open>The lines a client sends for a header: as many as it says, each as long as it says.\<close>

definition line_of :: "cups_page_header \<Rightarrow> bytes \<Rightarrow> bool" where
  "line_of h line \<longleftrightarrow> unat (cupsBytesPerLine h) \<le> length line
     \<and> (case header_format h of None \<Rightarrow> False
        | Some fmt \<Rightarrow> m2022_raster_line_bytes fmt (unat (cupsWidth h)) \<le> length line)"

definition client_page_ok :: "pr_options \<times> bytes list \<Rightarrow> bool" where
  "client_page_ok p \<longleftrightarrow> page_supported (header (fst p)) \<and> length (snd p) = unat (cupsHeight (header (fst p)))
     \<and> list_all (line_of (header (fst p))) (snd p)"

lemma line_of_holds: "\<lbrakk>page_of jopts m h j; line_of h line\<rbrakk> \<Longrightarrow> line_holds j line"
  by (auto simp: page_of_def line_of_def line_holds_def)

lemma page_buffers_frame:
  assumes "page_buffers env j rw w = (ok, j')"
  shows "settings jopts m j' = settings jopts m j" "j_hp j' = j_hp j" "j_fmt j' = j_fmt j"
    "j_raster_width j' = j_raster_width j" "j_geo j' = j_geo j" "j_page_file j' = j_page_file j"
  using assms by (auto simp: page_buffers_def settings_def Let_def split: if_splits)

lemma start_page_of:
  assumes "cb_rstartpage env opts page s = (True, s')" "s_data s = Some j" "settings jopts m j" "m \<in> set MEDIA"
    and "j_page_file j = None"
  shows "\<exists>j'. s_data s' = Some j' \<and> page_of jopts m (header opts) j'
    \<and> j_ht j' = fresh_halftoner jopts (unat (geo_width (j_geo j')))"
proof (rule start_page_cases [OF assms(1,2)])
  fix fmt :: pixel_format and g :: jobmap_geometry and j3 :: job_data and ht :: halftoner and e :: "dev_ctx encoder"
  assume fmt: "header_format (header opts) = Some fmt"
    and geo: "m2022_jobmap_geometry (j_media j) 600 (cupsWidth (header opts)) (cupsHeight (header opts)) = Some g"
    and bufs: "page_buffers env (j\<lparr>j_page := page + 1, j_lines_in := 0, j_raster_width := cupsWidth (header opts),
        j_fmt := fmt, j_geo := g\<rparr>) (cupsWidth (header opts)) (geo_width g) = (True, j3)"
    and ht: "m2022_halftoner_init (j_hp j3) (unat (geo_width g))
        (map_option (\<lambda>_. j_ht_state_bytes j3) (j_ht_state j3)) = Some ht"
    and s': "s_data s' = Some (capture_page env (header opts) (j3\<lparr>j_ht := ht, j_enc := e, j_page_open := True\<rparr>))"
  have "settings jopts m j3" using page_buffers_frame(1) [OF bufs] assms(3) by (simp add: settings_def)
  moreover have "j_fmt j3 = fmt" "j_raster_width j3 = cupsWidth (header opts)" "j_geo j3 = g" "j_page_file j3 = None"
    using page_buffers_frame [OF bufs] assms(5) by simp_all
  moreover from calculation(1) have "ht = fresh_halftoner jopts (unat (geo_width g))"
    using fresh_halftoner_init ht by (simp add: settings_def)
  ultimately show ?thesis
    using fmt geo assms(3,4) s' by (auto simp: page_of_def settings_def capture_page_def Let_def)
qed

text \<open>A line leaves the page's parameters alone, and the halftoner as its pixels leave it.\<close>

lemma write_line_of:
  assumes "cb_rwriteline env y line s = Some (True, s')" "s_data s = Some j" "page_of jopts m h j"
  shows "\<exists>j'. s_data s' = Some j' \<and> page_of jopts m h j' \<and> j_geo j' = j_geo j
    \<and> j_ht j' = (if y < geo_y0 (j_geo j) \<or> y \<ge> geo_y0 (j_geo j) + geo_height (j_geo j) then j_ht j
                else fst (line_pipeline env j y line))"
proof -
  have keep: "page_of jopts m h j1 \<and> j_geo j1 = j_geo j" if "capture_line env line j = Some j1" for j1
    using that assms(3)
    by (auto simp: capture_line_def page_of_def settings_def Let_def split: option.splits if_splits)
  have "j_page_open j" using assms(1,2) by (auto simp: cb_rwriteline_def split: if_splits)
  then obtain j1 where j1: "capture_line env line j = Some j1"
    using assms(1,2) by (auto simp: cb_rwriteline_def split: option.splits)
  note frame = capture_line_frame [OF j1]
  obtain ht bits where p: "line_pipeline env j y line = (ht, bits)" by force
  moreover obtain rc e where "m2022_qpdl_write_line (j_enc j1) (Some bits) = (rc, e)" by force
  ultimately have "\<exists>j'. s_data s' = Some j' \<and> settings jopts m j' = settings jopts m j1 \<and> j_fmt j' = j_fmt j1
      \<and> j_raster_width j' = j_raster_width j1 \<and> j_geo j' = j_geo j1
      \<and> j_page_file j' = j_page_file j1 \<and> j_bytes_per_line j' = j_bytes_per_line j1
      \<and> j_ht j' = (if y < geo_y0 (j_geo j) \<or> y \<ge> geo_y0 (j_geo j) + geo_height (j_geo j) then j_ht j else ht)"
    using assms(1,2) \<open>j_page_open j\<close> j1 frame
    by (auto simp: cb_rwriteline_def settings_def Let_def split: if_splits)
  then show ?thesis using keep [OF j1] p unfolding page_of_def by (metis fst_conv)
qed

section \<open>The steps of the client\<close>

lemma printing_data:
  assumes "printing dw base qj done ph s"
  obtains j where "s_data s = Some j" "phase_inv dw base qj done ph j"
  using printing_inv [OF assms] by blast

text \<open>Where a line number is: the comparisons of the code on 32 bits.\<close>

lemma line_in_window:
  fixes y0 n :: u32
  assumes "unat y0 + unat n < 2 ^ 32" "y < 2 ^ 32"
  shows "word_of_nat y < y0 \<or> word_of_nat y \<ge> y0 + n \<longleftrightarrow> \<not> (unat y0 \<le> y \<and> y < unat y0 + unat n)"
    and "unat y0 \<le> y \<Longrightarrow> unat (word_of_nat y - y0) = y - unat y0"
proof -
  have y: "unat (word_of_nat y :: u32) = y" using assms(2) by (simp add: unat_of_nat)
  have "unat (y0 + n) = unat y0 + unat n" using assms(1) by (simp add: unat_word_ariths)
  then show "word_of_nat y < y0 \<or> word_of_nat y \<ge> y0 + n \<longleftrightarrow> \<not> (unat y0 \<le> y \<and> y < unat y0 + unat n)"
    by (auto simp: word_le_nat_alt word_less_nat_alt y)
  show "unat (word_of_nat y - y0) = y - unat y0" if "unat y0 \<le> y"
    using that y by (simp add: unat_sub word_le_nat_alt)
qed

text \<open>
  The rows that an open page has given, and its halftoner, are those of the lines that the client has sent.
\<close>

definition rows_so_far :: "bytes \<Rightarrow> pr_options \<Rightarrow> media \<Rightarrow> cups_page_header \<Rightarrow> bytes list \<Rightarrow> bytes list \<Rightarrow> job_data \<Rightarrow> bool" where
  "rows_so_far tile jopts m h ds lns j \<longleftrightarrow>
    halftone_lines tile (fresh_halftoner jopts (unat (geo_width (j_geo j)))) 0 (page_inks jopts m h ds) = (j_ht j, lns)"

lemma rows_so_far_step:
  assumes "rows_so_far (bluenoise64 env) jopts m h ds lns j" "page_of jopts m h j"
    and "cb_rwriteline env (word_of_nat (length ds)) l s = Some (True, s')" "s_data s = Some j"
    and "length ds < unat (cupsHeight h)"
  shows "\<exists>j'. s_data s' = Some j' \<and> page_of jopts m h j'
    \<and> rows_so_far (bluenoise64 env) jopts m h (ds @ [l]) (lns @ line_out env (word_of_nat (length ds)) l j) j'"
proof -
  obtain j' where j': "s_data s' = Some j'" "page_of jopts m h j'" "j_geo j' = j_geo j"
    "j_ht j' = (if word_of_nat (length ds) < geo_y0 (j_geo j)
        \<or> word_of_nat (length ds) \<ge> geo_y0 (j_geo j) + geo_height (j_geo j) then j_ht j
      else fst (line_pipeline env j (word_of_nat (length ds)) l))"
    using write_line_of [OF assms(3,4,2)] by blast
  note win = page_of_window [OF assms(2)]
  define y0 n where "y0 = unat (geo_y0 (j_geo j))" and "n = unat (geo_height (j_geo j))"
  have "unat (geo_y0 (j_geo j)) + unat (geo_height (j_geo j)) < 2 ^ 32" "length ds < 2 ^ 32"
    using win(4) assms(5) unsigned_less [of "cupsHeight h", where 'a = nat] by simp_all
  note y = line_in_window [OF this, folded y0_def n_def]
  note pipe = line_pipeline_ink [OF assms(2) win(1), of env "word_of_nat (length ds)" l]
  note snoc = page_inks_snoc [OF win(1) win(2), of jopts ds l, folded y0_def n_def]
  have len: "length (page_inks jopts m h ds) = length ds - y0" if "length ds < y0 + n"
    using page_inks_length [OF win(2), of jopts ds] that by (simp add: y0_def n_def)
  have "rows_so_far (bluenoise64 env) jopts m h (ds @ [l]) (lns @ line_out env (word_of_nat (length ds)) l j) j'"
  proof (cases "y0 \<le> length ds \<and> length ds < y0 + n")
    case True
    then show ?thesis
      using assms(1) j'(3,4) y pipe len
      by (simp add: rows_so_far_def snoc halftone_lines_snoc line_out_def case_prod_unfold Let_def)
  next
    case False
    then show ?thesis
      using assms(1) j'(3,4) y(1) by (simp only: rows_so_far_def snoc line_out_def) simp
  qed
  with j' show ?thesis by blast
qed

lemma client_lines_prints:
  assumes "printing good_write base qj done (InPage (length ds) lns) s" "s_data s = Some j" "page_of jopts m h j"
    and "list_all (line_of h) ls" "length (ds @ ls) \<le> unat (cupsHeight h)"
    and "rows_so_far (bluenoise64 env) jopts m h ds lns j"
  shows "\<exists>lns' s' j'. client_lines env (length ds) ls s = Some (True, s')
    \<and> printing good_write base qj done (InPage (length (ds @ ls)) lns') s'
    \<and> s_data s' = Some j' \<and> page_of jopts m h j' \<and> rows_so_far (bluenoise64 env) jopts m h (ds @ ls) lns' j'"
  using assms
proof (induction ls arbitrary: ds lns s j)
  case Nil
  then show ?case by auto
next
  case (Cons l ls)
  from printing_data [OF Cons.prems(1)] Cons.prems(2)
  have inv: "phase_inv good_write base qj done (InPage (length ds) lns) j" by (metis option.inject)
  have less: "length ds < unat (cupsHeight h)" using Cons.prems(5) by simp
  then have y: "unat (word_of_nat (length ds) :: u32) = length ds"
    using unsigned_less [of "cupsHeight h", where 'a = nat] by (simp add: unat_of_nat)
  have "line_holds j l" using line_of_holds [OF Cons.prems(3)] Cons.prems(4) by simp
  then obtain s' where s': "cb_rwriteline env (word_of_nat (length ds)) l s = Some (True, s')"
    using rwriteline_total [OF Cons.prems(2) inv] by blast
  from rows_so_far_step [OF Cons.prems(6,3) s' Cons.prems(2) less] obtain j' where
    j': "s_data s' = Some j'" "page_of jopts m h j'"
      "rows_so_far (bluenoise64 env) jopts m h (ds @ [l]) (lns @ line_out env (word_of_nat (length ds)) l j) j'" by blast
  have step: "printing good_write base qj done
      (InPage (length (ds @ [l])) (lns @ line_out env (word_of_nat (length ds)) l j)) s'"
    using printing.put_line [OF Cons.prems(1,2) _ s'] y by simp
  from Cons.IH [OF step j'(1,2) _ _ j'(3)] Cons.prems(4,5) s'
  show ?case by simp
qed

lemma client_page_prints:
  assumes "printing good_write base qj done Between s" "s_data s = Some j" "settings jopts m j"
    and "client_page_ok (opts, ls)" "memory_ok env"
  shows "\<exists>s' j'. client_page env opts n ls s = Some (True, s')
    \<and> printing good_write base qj (done @ [printed_page (bluenoise64 env) jopts m (opts, ls)]) Between s'
    \<and> s_data s' = Some j' \<and> settings jopts m j'"
proof -
  define h where "h = header opts"
  from printing_data [OF assms(1)] assms(2)
  have inv: "phase_inv good_write base qj done Between j" by (metis option.inject)
  have ok: "page_supported h" "length ls = unat (cupsHeight h)" "list_all (line_of h) ls"
    using assms(4) by (simp_all add: client_page_ok_def h_def)
  obtain s1 where s1: "cb_rstartpage env opts (word_of_nat n) s = (True, s1)"
    using rstartpage_total [OF assms(2) inv ok(1) [unfolded h_def] assms(5)] by (metis prod.collapse)
  have first: "printing good_write base qj done (InPage (length []) []) s1"
    using printing.start_page [OF assms(1) s1] assms(5) by (simp add: memory_ok_def)
  have m: "m \<in> set MEDIA" using inv assms(3) by (auto simp: data_ok_def settings_def)
  obtain j1 where j1: "s_data s1 = Some j1" "page_of jopts m h j1"
    "j_ht j1 = fresh_halftoner jopts (unat (geo_width (j_geo j1)))"
    using start_page_of [OF s1 assms(2,3) m] inv by (auto simp: h_def)
  have "rows_so_far (bluenoise64 env) jopts m h [] [] j1"
    using j1(3) by (simp add: rows_so_far_def page_inks_def case_prod_unfold)
  from client_lines_prints [OF first j1(1,2) ok(3) _ this] ok(2) obtain lns s2 j2 where
    s2: "client_lines env 0 ls s1 = Some (True, s2)"
      "printing good_write base qj done (InPage (length ls) lns) s2"
      "s_data s2 = Some j2" "page_of jopts m h j2" "rows_so_far (bluenoise64 env) jopts m h ls lns j2"
    by auto
  from printing_data [OF s2(2)] s2(3)
  have inv2: "phase_inv good_write base qj done (InPage (length ls) lns) j2" by (metis option.inject)
  obtain s3 where s3: "cb_rendpage s2 = (True, s3)"
    using rendpage_total [OF s2(3) inv2] by (metis prod.collapse)
  obtain j3 where j3: "s_data s3 = Some j3" "settings jopts m j3"
    using s3 s2(3,4) by (auto simp: cb_rendpage_def Let_def page_of_def settings_def split: if_splits prod.splits)
  have "printed_page (bluenoise64 env) jopts m (opts, ls) = (unat (geo_width (j_geo j2)), lns)"
    using s2(5) page_of_window(1) [OF s2(4)] by (simp add: printed_page_def rows_so_far_def h_def)
  moreover have "client_page env opts n ls s = Some (True, s3)"
    using s1 s2(1) s3 by (simp add: client_page_def)
  moreover note printing.end_page [OF s2(2,3) s3]
  ultimately show ?thesis using j3 by auto
qed

lemma client_pages_prints:
  assumes "printing good_write base qj done Between s" "s_data s = Some j" "settings jopts m j"
    and "list_all client_page_ok ps" "memory_ok env"
  shows "\<exists>s' j'. client_pages env n ps s = Some (True, s')
    \<and> printing good_write base qj (done @ map (printed_page (bluenoise64 env) jopts m) ps) Between s'
    \<and> s_data s' = Some j'"
  using assms
proof (induction ps arbitrary: n "done" s j)
  case Nil
  then show ?case by (intro exI [of _ s] exI [of _ j]) simp
next
  case (Cons p ps)
  obtain opts ls where p: "p = (opts, ls)" by force
  have "client_page_ok (opts, ls)" using Cons.prems(4) p by simp
  from client_page_prints [OF Cons.prems(1-3) this Cons.prems(5), of n] obtain s1 j1 where
    s1: "client_page env opts n ls s = Some (True, s1)"
      "printing good_write base qj (done @ [printed_page (bluenoise64 env) jopts m p]) Between s1"
      "s_data s1 = Some j1" "settings jopts m j1" unfolding p by blast
  have "list_all client_page_ok ps" using Cons.prems(4) by simp
  from Cons.IH [OF s1(2-4) this Cons.prems(5), of "n + 1"] s1(1) p show ?case by simp
qed

section \<open>A whole job\<close>

lemma client_job_prints:
  assumes "m2022_media_by_pwg (Some (size_name opts)) = Some m" "texts_ok env" "memory_ok env"
    and "device_write env = (\<lambda>_ data. (int (length data), length data))"
    and "list_all client_page_ok sheets"
  shows "\<exists>s'. client_job env info opts sheets s = Some (True, s') \<and> s_data s' = None
    \<and> s_device s' = device_of s
        @ job_stream (qpdl_job_of env opts m (if opt_copies opts > 0 then opt_copies opts else 1))
            (map (printed_page (bluenoise64 env) opts m) sheets)"
proof -
  define qj where "qj = qpdl_job_of env opts m (if opt_copies opts > 0 then opt_copies opts else 1)"
  define ps where "ps = map (printed_page (bluenoise64 env) opts m) sheets"
  obtain s1 where s1: "cb_rstartjob env info opts s = (True, s1)"
    using rstartjob_total [OF assms(1-4)] by (metis prod.collapse)
  have first: "printing good_write (device_of s) qj [] Between s1"
    using printing.start_job [OF s1 assms(1)] by (simp add: qj_def assms(4))
  obtain j1 where j1: "s_data s1 = Some j1" using printing_data [OF first] by blast
  have "settings opts m j1"
    using s1 j1 assms(1)
    by (auto simp: cb_rstartjob_def settings_def job_preset_def Let_def split: prod.splits if_splits)
  from client_pages_prints [OF first j1 this assms(5,3), of 0] obtain s2 j2 where
    s2: "client_pages env 0 sheets s1 = Some (True, s2)"
      "printing good_write (device_of s) qj ps Between s2" "s_data s2 = Some j2" by (auto simp: ps_def)
  from printing_data [OF s2(2)] s2(3)
  have inv: "phase_inv good_write (device_of s) qj ps Between j2" by (metis option.inject)
  obtain s3 where s3: "cb_rendjob s2 = (True, s3)"
    using rendjob_total [OF s2(3) inv] by (metis prod.collapse)
  from rendjob_stream [OF s3 s2(3) inv] s1 s2(1) s3
  show ?thesis by (simp add: client_job_def qj_def ps_def)
qed

section \<open>The properties\<close>


text \<open>C3: A job that a client sends as PAPPL does goes through to the end when the paper is known, the
  pages are of a supported raster type at 600 dpi and not empty, the date and the version are plain text,
  memory suffices and the device takes the data: every callback succeeds inside its buffers, and the device
  gets exactly the job's stream, whose pages are the client's: of each the printable window of the paper, cut
  out at the paper's margins, as ink by the tone curve of the job's preset, halftoned by its method. Under a
  screen (every method but error diffusion) a dot of the sheet is black if and only if the ink of the client's
  pixel at its place exceeds the screen's threshold there.\<close>

theorem whole_job_prints:
  assumes "m2022_media_by_pwg (Some (size_name opts)) = Some m" "texts_ok env" "memory_ok env"
    and "device_write env = (\<lambda>_ data. (int (length data), length data))"
    and "list_all client_page_ok sheets"
  shows "\<exists>s'. client_job env info opts sheets s = Some (True, s') \<and> s_data s' = None
    \<and> s_device s' = device_of s
        @ job_stream (qpdl_job_of env opts m (if opt_copies opts > 0 then opt_copies opts else 1))
            (map (printed_page (bluenoise64 env) opts m) sheets)
    \<and> list_all (\<lambda>p. screened (bluenoise64 env) opts m p (printed_page (bluenoise64 env) opts m p)) sheets"
proof -
  have "list_all (\<lambda>p. screened (bluenoise64 env) opts m p (printed_page (bluenoise64 env) opts m p)) sheets"
    using assms(5) printed_page_screened by (auto simp: list_all_iff client_page_ok_def page_supported_def)
  with client_job_prints [OF assms] show ?thesis by blast
qed

text \<open>C13: In an open page that the callbacks reached, a line that is as long as its header says is
  read and processed inside the page's buffers, whatever the device does.\<close>

theorem lines_inside_buffers:
  assumes "printing dw base qj done (InPage y0 lns) s" "s_data s = Some j" "line_holds j line"
  shows "cb_rwriteline env y line s \<noteq> None"
proof -
  from printing_data [OF assms(1)] assms(2)
  have "phase_inv dw base qj done (InPage y0 lns) j" by (metis option.inject)
  from rwriteline_safe [OF assms(2) this assms(3)] show ?thesis .
qed

text \<open>When an allocation fails, page_buffers leaves the sizes of the buffers it freed: asked for these
  sizes again it succeeds without allocating, with a buffer that is NULL.\<close>

theorem failed_allocation_is_forgotten:
  assumes "page_buffers env j rw w = (False, j')"
  shows "page_buffers env' j' (j_alloc_raster_width j') (j_alloc_width j') = (True, j')
    \<and> None \<in> {j_gray_full j', j_gray j', j_ink j', j_bits j', j_ht_state j', j_workspace j'}"
  using assms by (auto simp: page_buffers_def Let_def split: if_splits)

section \<open>Concrete jobs\<close>

definition sample_env :: app_env where
  "sample_env =
    \<lparr>device_write = (\<lambda>_ data. (int (length data), length data)), file_read = (\<lambda>_. None),
     file_create = (\<lambda>_. False), file_write = (\<lambda>_ _ _. 0), job_alloc = True, alloc = (\<lambda>_ _. True),
     uninit = (\<lambda>n. replicate n 0), today = ascii ''20260101'', version_string = ascii ''1.0'',
     bluenoise64 = replicate 4096 128\<rparr>"

definition sample_opts :: pr_options where
  "sample_opts =
    \<lparr>size_name = ''iso_a4_210x297mm'', media_source = ''main'', media_type = ''stationery'',
     print_quality = 4, print_content_optimize = PAPPL_CONTENT_AUTO, opt_copies = 2,
     header = \<lparr>cupsWidth = 100, cupsHeight = 2, cupsBitsPerPixel = 8, cupsColorSpace = 18,
               cupsBytesPerLine = 100, HWResolution = (600, 600)\<rparr>\<rparr>"

definition sample_info :: job_info where
  "sample_info = \<lparr>capture_dir = [], job_format = None, job_filename = None, job_id = 1\<rparr>"

definition idle :: session where
  "idle = \<lparr>s_data = None, s_device = [], s_files = []\<rparr>"

lemma sample_media: "m2022_media_by_pwg (Some (size_name sample_opts)) = Some (MEDIA ! 0)"
  by (simp add: m2022_media_by_pwg_def sample_opts_def MEDIA_def medium_def)

lemma sample_memory: "memory_ok sample_env"
  by (simp add: memory_ok_def sample_env_def)

lemma sample_write: "device_write sample_env = (\<lambda>_ data. (int (length data), length data))"
  by (simp add: sample_env_def)

lemma sample_texts: "texts_ok sample_env"
  by code_simp

lemma sample_supported: "page_supported (header sample_opts)"
  by (simp add: page_supported_def sample_opts_def header_format_def)

lemma sample_page: "client_page_ok (sample_opts, replicate 2 (replicate 100 0))"
  by (simp add: client_page_ok_def sample_supported list_all_iff)
    (simp add: line_of_def sample_opts_def header_format_def m2022_raster_line_bytes_def)

lemma sample_job:
  obtains s j where "cb_rstartjob sample_env sample_info sample_opts idle = (True, s)" "s_data s = Some j"
    "printing good_write [] (qpdl_job_of sample_env sample_opts (MEDIA ! 0) 2) [] Between s"
    "phase_inv good_write [] (qpdl_job_of sample_env sample_opts (MEDIA ! 0) 2) [] Between j"
proof -
  obtain s where s: "cb_rstartjob sample_env sample_info sample_opts idle = (True, s)"
    using rstartjob_total [OF sample_media sample_texts sample_memory sample_write] by (metis prod.collapse)
  from printing.start_job [OF s sample_media]
  have p: "printing good_write [] (qpdl_job_of sample_env sample_opts (MEDIA ! 0) 2) [] Between s"
    by (simp add: sample_write device_of_def idle_def) (simp add: sample_opts_def)
  from printing_data [OF p] s p that show thesis by blast
qed

lemma sample_open_page:
  obtains s1 s j where "cb_rstartjob sample_env sample_info sample_opts idle = (True, s1)"
    "cb_rstartpage sample_env sample_opts 0 s1 = (True, s)" "s_data s = Some j"
    "printing good_write [] (qpdl_job_of sample_env sample_opts (MEDIA ! 0) 2) [] (InPage 0 []) s"
    "phase_inv good_write [] (qpdl_job_of sample_env sample_opts (MEDIA ! 0) 2) [] (InPage 0 []) j"
    "page_of sample_opts (MEDIA ! 0) (header sample_opts) j"
proof -
  obtain s1 j1 where s1: "cb_rstartjob sample_env sample_info sample_opts idle = (True, s1)" "s_data s1 = Some j1"
    "printing good_write [] (qpdl_job_of sample_env sample_opts (MEDIA ! 0) 2) [] Between s1"
    "phase_inv good_write [] (qpdl_job_of sample_env sample_opts (MEDIA ! 0) 2) [] Between j1"
    by (rule sample_job)
  have media: "settings sample_opts (MEDIA ! 0) j1"
    using s1(1,2) sample_media
    by (auto simp: cb_rstartjob_def settings_def job_preset_def Let_def split: prod.splits if_splits)
  have known: "MEDIA ! 0 \<in> set MEDIA" by (simp add: MEDIA_def)
  obtain s where s: "cb_rstartpage sample_env sample_opts 0 s1 = (True, s)"
    using rstartpage_total [OF s1(2,4) sample_supported sample_memory] by (metis prod.collapse)
  have p: "printing good_write [] (qpdl_job_of sample_env sample_opts (MEDIA ! 0) 2) [] (InPage 0 []) s"
    using printing.start_page [OF s1(3) s] by (simp add: sample_env_def)
  obtain j where j: "s_data s = Some j" "page_of sample_opts (MEDIA ! 0) (header sample_opts) j"
    using start_page_of [OF s s1(2) media known] s1(4) by auto
  from printing_data [OF p] j(1)
  have "phase_inv good_write [] (qpdl_job_of sample_env sample_opts (MEDIA ! 0) 2) [] (InPage 0 []) j"
    by (metis option.inject)
  from that [OF s1(1) s j(1) p this j(2)] show thesis .
qed


text \<open>Two lines, printed from their start: they are shorter than the paper.\<close>

lemma whole_job_prints_witness:
  "\<exists>s'. client_job sample_env sample_info sample_opts
      [(sample_opts, replicate 2 (replicate 100 0))] idle = Some (True, s')
    \<and> s_device s' = job_stream (qpdl_job_of sample_env sample_opts (MEDIA ! 0) 2)
        [printed_page (replicate 4096 128) sample_opts (MEDIA ! 0) (sample_opts, replicate 2 (replicate 100 0))]"
proof -
  have "list_all client_page_ok [(sample_opts, replicate 2 (replicate 100 0))]" using sample_page by simp
  from whole_job_prints [OF sample_media sample_texts sample_memory sample_write this, of sample_info idle]
  obtain s' where s': "client_job sample_env sample_info sample_opts
      [(sample_opts, replicate 2 (replicate 100 0))] idle = Some (True, s')"
    "s_device s' = device_of idle @ job_stream (qpdl_job_of sample_env sample_opts (MEDIA ! 0)
        (if opt_copies sample_opts > 0 then opt_copies sample_opts else 1))
      (map (printed_page (bluenoise64 sample_env) sample_opts (MEDIA ! 0)) [(sample_opts, replicate 2 (replicate 100 0))])"
    by blast
  have "opt_copies sample_opts = 2" "device_of idle = []" "bluenoise64 sample_env = replicate 4096 128"
    by (simp_all add: sample_opts_def device_of_def idle_def sample_env_def)
  then show ?thesis using s' by simp
qed

lemma lines_inside_buffers_witness:
  "cb_rwriteline sample_env 0 (replicate 100 0) (snd (cb_rstartpage sample_env sample_opts 0
      (snd (cb_rstartjob sample_env sample_info sample_opts idle)))) \<noteq> None"
proof -
  obtain s1 s j where s: "cb_rstartjob sample_env sample_info sample_opts idle = (True, s1)"
    "cb_rstartpage sample_env sample_opts 0 s1 = (True, s)" "s_data s = Some j"
    "printing good_write [] (qpdl_job_of sample_env sample_opts (MEDIA ! 0) 2) [] (InPage 0 []) s"
    "page_of sample_opts (MEDIA ! 0) (header sample_opts) j"
    by (rule sample_open_page)
  have "line_of (header sample_opts) (replicate 100 0)"
    using sample_page by (simp add: client_page_ok_def list_all_iff)
  from lines_inside_buffers [OF s(4,3) line_of_holds [OF s(5) this], of sample_env 0] s(1,2)
  show ?thesis by simp
qed

lemma failed_allocation_is_forgotten_witness:
  "fst (page_buffers sample_env
      (snd (page_buffers (sample_env\<lparr>alloc := (\<lambda>i _. i \<noteq> 2)\<rparr>) (job_zero sample_env []) 100 80)) 0 0)"
proof -
  have "page_buffers (sample_env\<lparr>alloc := (\<lambda>i _. i \<noteq> 2)\<rparr>) (job_zero sample_env []) 100 80
      = (False, snd (page_buffers (sample_env\<lparr>alloc := (\<lambda>i _. i \<noteq> 2)\<rparr>) (job_zero sample_env []) 100 80))"
    by (simp add: page_buffers_def Let_def job_zero_def malloc_def)
  from failed_allocation_is_forgotten [OF this, of sample_env] show ?thesis
    by (simp add: page_buffers_def Let_def job_zero_def malloc_def)
qed

end
