(* ===== verification/Usbdev.thy ===== *)
theory Usbdev
  imports Usb Cstring
begin

text \<open>
  Model of src/app/usbdev.c: the device scheme that connects PAPPL to the USB transport. A callback's
  results are what it returns, what it leaves in PAPPL's buffers and what it hands to PAPPL's own
  callbacks. IPP printer-state reasons are sets of their keywords.
\<close>

section \<open>URIs\<close>

definition M2022_USBDEV_SCHEME :: string where
  "M2022_USBDEV_SCHEME = ''m2022usb''"

definition make_uri :: "usb_info \<Rightarrow> nat \<Rightarrow> string" where
  "make_uri i bufsize =
    snprintf bufsize (M2022_USBDEV_SCHEME @ ''://'' @ hex4 (vid i) @ '':'' @ hex4 (pid i) @ ''?serial='' @ serial i)"

text \<open>\<open>sscanf(p, "%4x:%4x", ...) == 2\<close>.\<close>

definition scan_ids :: "string \<Rightarrow> (u32 \<times> u32) option" where
  "scan_ids p =
    (case scan_hex 4 p of
       None \<Rightarrow> None
     | Some (v, rest) \<Rightarrow>
         if rest = [] \<or> hd rest \<noteq> CHR '':'' then None
         else (case scan_hex 4 (tl rest) of None \<Rightarrow> None | Some (q, _) \<Rightarrow> Some (v, q)))"

definition parse_uri :: "string \<Rightarrow> nat \<Rightarrow> usb_match option" where
  "parse_uri uri serial_size =
    (case strstr uri ''://'' of
       None \<Rightarrow> None
     | Some p0 \<Rightarrow>
         let p = drop 3 p0;
             (v, q) = (case scan_ids p of None \<Rightarrow> (0, 0) | Some (v, q) \<Rightarrow> (ucast v, ucast q));
             s = (case strstr p ''serial='' of
                    None \<Rightarrow> None
                  | Some r \<Rightarrow>
                      let n = strcspn (drop 7 r) ''&/'';
                          n1 = (if n \<ge> serial_size then serial_size - 1 else n)
                      in Some (take n1 (drop 7 r)))
         in Some \<lparr>match_vid = v, match_pid = q, match_serial = s\<rparr>)"

section \<open>Listing and opening\<close>

definition device_info_text :: "usb_info \<Rightarrow> string" where
  "device_info_text i =
    snprintf 256 (manufacturer i @ '' '' @ product_name i @ '' (USB, serial '' @ serial i @ '')'')"

definition device_id_text :: "usb_info \<Rightarrow> string" where
  "device_id_text i =
    snprintf 512 (''MFG:'' @ manufacturer i @ '';MDL:'' @ product_name i @ '';SN:'' @ serial i @ '';CLS:PRINTER;'')"

text \<open>
  The loop over the devices: the result, and the calls of PAPPL's callback \<open>cb\<close>. None is a read outside
  the array of the devices that were listed.
\<close>

function list_loop ::
  "(string \<times> string \<times> string \<Rightarrow> bool) \<Rightarrow> usb_info list \<Rightarrow> nat \<Rightarrow> nat
    \<Rightarrow> (bool \<times> (string \<times> string \<times> string) list) option"
where
  "list_loop cb infos count i =
    (if i < count then
       if i \<ge> length infos then None
       else
         let call = (device_info_text (infos ! i), make_uri (infos ! i) 256, device_id_text (infos ! i))
         in if cb call then Some (True, [call])
            else (case list_loop cb infos count (i + 1) of
                    None \<Rightarrow> None | Some (r, calls) \<Rightarrow> Some (r, call # calls))
     else Some (False, []))"
  by pat_completeness auto
termination by (relation "measure (\<lambda>(cb, infos, count, i). count - i)") auto

declare list_loop.simps [simp del]

text \<open>\<open>usbdev_list\<close>: the result and the calls, or the error that is reported.\<close>

definition usbdev_list ::
  "usb_env \<Rightarrow> (string \<times> string \<times> string \<Rightarrow> bool) \<Rightarrow> usb_sys
    \<Rightarrow> (bool \<times> (string \<times> string \<times> string) list \<times> int \<times> usb_sys) option" where
  "usbdev_list env cb sys =
    (let (rc, infos, count, sys1) = m2022_usb_list env 8 sys
     in if rc \<noteq> 0 then Some (False, [], rc, sys1)
        else (case list_loop cb infos (case count of None \<Rightarrow> 0 | Some n \<Rightarrow> n) 0 of
                None \<Rightarrow> None | Some (r, calls) \<Rightarrow> Some (r, calls, 0, sys1)))"

definition usbdev_open :: "usb_env \<Rightarrow> string \<Rightarrow> usb_sys \<Rightarrow> bool \<times> usb_device option \<times> usb_sys" where
  "usbdev_open env device_uri sys =
    (case parse_uri device_uri 128 of
       None \<Rightarrow> (False, None, sys)
     | Some m \<Rightarrow> (let (rc, dev, sys1) = m2022_usb_open env (Some m) sys
                in if rc \<noteq> 0 then (False, None, sys1) else (True, dev, sys1)))"

definition usbdev_close :: "usb_device option \<Rightarrow> usb_sys \<Rightarrow> usb_device option \<times> usb_sys" where
  "usbdev_close dev sys = (None, m2022_usb_close dev sys)"

section \<open>Reading and writing\<close>

definition usbdev_read :: "(nat \<Rightarrow> int \<times> bytes) \<Rightarrow> usb_device \<Rightarrow> nat \<Rightarrow> int \<times> bytes" where
  "usbdev_read inp dev n =
    (let (rc, data) = m2022_usb_read inp dev n
     in if rc \<noteq> 0 \<and> length data = 0 \<and> rc \<noteq> M2022_USB_ETIMEOUT then (-1, data)
        else (int (length data), data))"

text \<open>\<open>usbdev_write\<close>: \<open>p\<close> is what is left of the buffer; None is not returning.\<close>

partial_function (option) write_loop :: "bulk_out \<Rightarrow> nat \<Rightarrow> bytes \<Rightarrow> pipe \<Rightarrow> (int \<times> pipe) option" where
  "write_loop out nbytes p pp =
    (if p = [] then Some (int nbytes, pp)
     else (case m2022_usb_write out p pp of
             None \<Rightarrow> None
           | Some (rc, written, pp1) \<Rightarrow>
               if rc \<noteq> 0 \<and> written = 0 then Some (-1, pp1)
               else write_loop out nbytes (drop written p) pp1))"

definition usbdev_write :: "bulk_out \<Rightarrow> bytes \<Rightarrow> pipe \<Rightarrow> (int \<times> pipe) option" where
  "usbdev_write out buffer pp = write_loop out (length buffer) buffer pp"

section \<open>Status and device ID\<close>

definition usbdev_status :: "control \<Rightarrow> usb_device \<Rightarrow> string set" where
  "usbdev_status ctrl dev =
    (case m2022_usb_get_port_status ctrl dev of
       (rc, reply) \<Rightarrow>
         if rc \<noteq> 0 then {''other''}
         else
           let status = (case reply of None \<Rightarrow> 0 | Some b \<Rightarrow> b)
           in (if status AND M2022_USB_STATUS_PAPER_EMPTY \<noteq> 0 then {''media-empty''} else {})
              \<union> (if status AND M2022_USB_STATUS_SELECTED = 0 then {''offline''} else {})
              \<union> (if status AND M2022_USB_STATUS_NO_ERROR = 0 then {''other''} else {}))"

definition usbdev_id :: "control \<Rightarrow> usb_device \<Rightarrow> nat \<Rightarrow> bytes option" where
  "usbdev_id ctrl dev bufsize =
    (let (rc, buffer) = m2022_usb_get_device_id ctrl dev bufsize
     in if rc = 0 then buffer else None)"

section \<open>A URI finds its printer\<close>

text \<open>A serial number, empty or not, without the separators of the URI and short enough for the buffers.\<close>

definition serial_ok :: "string \<Rightarrow> bool" where
  "serial_ok s \<longleftrightarrow> length s < 128 \<and> CHR ''&'' \<notin> set s \<and> CHR ''/'' \<notin> set s"

lemma make_uri_text:
  "serial_ok (serial i) \<Longrightarrow>
    make_uri i 256 = ''m2022usb://'' @ hex4 (vid i) @ '':'' @ hex4 (pid i) @ ''?serial='' @ serial i"
  by (simp add: make_uri_def serial_ok_def M2022_USBDEV_SCHEME_def)

lemma scan_ids_text:
  "scan_ids (hex4 v @ '':'' @ hex4 q @ ''?serial='' @ s) = Some (ucast v, ucast q)"
proof -
  have "\<not> is_digit 16 (CHR '':'')" "\<not> is_digit 16 (CHR ''?'')"
    by (simp_all add: is_digit_def digit_value_def Let_def)
  then show ?thesis by (simp add: scan_ids_def scan_hex4)
qed

lemma strstr_serial:
  "strstr (hex4 v @ '':'' @ hex4 q @ ''?serial='' @ s) ''serial='' = Some (''serial='' @ s)"
proof -
  have "hd ''serial='' \<notin> set (hex4 v @ '':'' @ hex4 q @ ''?'')"
    using hex4_chars [of "CHR ''s''" v] hex4_chars [of "CHR ''s''" q] by auto
  from strstr_skips [OF _ this, of "''serial='' @ s"] strstr_here [of "''serial=''" s]
  show ?thesis by simp
qed

lemma strcspn_all: "(\<forall>c \<in> set s. c \<notin> set r) \<Longrightarrow> strcspn s r = length s"
  by (metis strcspn_def takeWhile_eq_all_conv)

lemma parse_make_uri:
  assumes "serial_ok (serial i)"
  shows "parse_uri (make_uri i 256) 128 =
    Some \<lparr>match_vid = vid i, match_pid = pid i, match_serial = Some (serial i)\<rparr>"
proof -
  have "strstr (make_uri i 256) ''://'' = Some (''://'' @ hex4 (vid i) @ '':'' @ hex4 (pid i) @ ''?serial='' @ serial i)"
    by (simp add: make_uri_text [OF assms])
  moreover have "strcspn (serial i) ''&/'' = length (serial i)"
    using assms by (intro strcspn_all) (auto simp: serial_ok_def)
  moreover have "ucast (ucast v :: u32) = v" for v :: u16 by (rule bit_word_eqI) (simp add: bit_simps)
  ultimately show ?thesis
    using assms scan_ids_text strstr_serial
    by (simp add: parse_uri_def Let_def serial_ok_def)
qed

text \<open>C33: The URI that a listed printer gets selects it again when it is opened. When its serial number is
  shorter than 128 characters and has no ampersand and no slash, the URI matches exactly the devices that agree
  with it in vendor, in product and in serial number; but an ID that is zero or a serial number that is empty
  matches any.\<close>

theorem uri_selects_printer:
  assumes "serial_ok (serial i)"
  shows "\<exists>m. parse_uri (make_uri i 256) 128 = Some m
    \<and> (\<forall>i'. matches (Some m) i' \<longleftrightarrow> (vid i = 0 \<or> vid i' = vid i) \<and> (pid i = 0 \<or> pid i' = pid i)
          \<and> (serial i = [] \<or> serial i' = serial i))"
  using parse_make_uri [OF assms] by (auto simp: matches_def)

definition sample_ui :: usb_info where
  "sample_ui =
    \<lparr>vid = 0x04e8, pid = 0x3321, bcd_device = 0x100, bus = 1, address = 4, interface_number = 0, alt_setting = 0,
     protocol = 2, ep_out = 2, ep_in = 0x81, ep_out_max_packet = 512, manufacturer = ''Samsung'',
     product_name = ''M2020 Series'', serial = ''ZF45B8GF''\<rparr>"

lemma uri_selects_printer_witness:
  "\<exists>m. parse_uri ''m2022usb://04e8:3321?serial=ZF45B8GF'' 128 = Some m
    \<and> matches (Some m) sample_ui \<and> \<not> matches (Some m) (sample_ui\<lparr>serial := ''ZF46''\<rparr>)"
proof -
  have uri: "make_uri sample_ui 256 = ''m2022usb://04e8:3321?serial=ZF45B8GF''"
    by (simp add: make_uri_def sample_ui_def M2022_USBDEV_SCHEME_def hex4_def hexdigit_def Let_def)
  have "serial_ok (serial sample_ui)" by (simp add: serial_ok_def sample_ui_def)
  from uri_selects_printer [OF this] show ?thesis
    unfolding uri by (auto simp: sample_ui_def)
qed

section \<open>Listing\<close>

text \<open>What the callback gets for a printer.\<close>

definition listed :: "usb_info \<Rightarrow> string \<times> string \<times> string" where
  "listed i = (device_info_text i, make_uri i 256, device_id_text i)"

lemma list_loop_all:
  assumes "i \<le> length infos"
  shows "list_loop (\<lambda>_. False) infos count i =
    (if count \<le> length infos \<or> count \<le> i then Some (False, map listed (take (count - i) (drop i infos))) else None)"
  using assms
proof (induction "length infos - i" arbitrary: i)
  case 0
  then show ?case by (subst list_loop.simps) auto
next
  case (Suc n)
  then have i: "i < length infos" by simp
  have "list_loop (\<lambda>_. False) infos count (i + 1) =
    (if count \<le> length infos \<or> count \<le> i + 1
     then Some (False, map listed (take (count - (i + 1)) (drop (i + 1) infos))) else None)"
    using Suc by (intro Suc.hyps(1)) simp_all
  moreover have "take (count - i) (drop i infos) = infos ! i # take (count - (i + 1)) (drop (i + 1) infos)"
    if "i < count"
  proof -
    have "count - i = Suc (count - (i + 1))" using that by simp
    then show ?thesis using i by (simp add: Cons_nth_drop_Suc [symmetric])
  qed
  ultimately show ?case
    using i by (subst list_loop.simps) (auto simp: listed_def Let_def)
qed

lemma usb_list_eq:
  assumes "init_rc env = 0" "device_list env = Inr ds"
  shows "m2022_usb_list env n sys =
    (0, take n (map (\<lambda>(k, ui, h). ui) (found_from None 0 ds)), Some (length (candidates None ds)), sys)"
  using assms by (simp add: m2022_usb_list_def enumerate_loop_eq Let_def found_length)

text \<open>usbdev_list reports every printer on the bus, and leaves no handle or context behind, as long as
  there are at most eight; with a ninth, and a callback that wants them all, it reads behind its array.\<close>

theorem usbdev_list_up_to_eight:
  assumes "init_rc env = 0" "device_list env = Inr ds"
  shows "usbdev_list env (\<lambda>_. False) sys =
    (if length (candidates None ds) \<le> 8
     then Some (False, map (\<lambda>(k, ui, h). listed ui) (found_from None 0 ds), 0, sys) else None)"
proof -
  define infos where "infos = map (\<lambda>(k, ui, h). ui) (found_from None 0 ds)"
  have calls: "map (\<lambda>(k, ui, h). listed ui) (found_from None 0 ds) = map listed infos"
    by (simp add: infos_def case_prod_unfold comp_def)
  have len: "length infos = length (candidates None ds)" by (simp add: infos_def found_length)
  have "usbdev_list env (\<lambda>_. False) sys =
      (case list_loop (\<lambda>_. False) (take 8 infos) (length infos) 0 of
         None \<Rightarrow> None | Some (r, calls) \<Rightarrow> Some (r, calls, 0, sys))"
    by (simp add: usbdev_list_def usb_list_eq [OF assms] infos_def [symmetric] len)
  then show ?thesis
    using list_loop_all [of 0 "take 8 infos" "length infos"]
    by (auto simp: len [symmetric] calls)
qed

lemma usbdev_list_up_to_eight_witness:
  "usbdev_list (sample_bus\<lparr>device_list := Inr (replicate 9 sample_printer)\<rparr>) (\<lambda>_. False) no_usb = None"
proof -
  have "candidate None sample_printer"
    by (simp add: candidate_def probe_def sample_printer_def describe_def alt_info_def matches_def)
  then have "candidates None (replicate 9 sample_printer) = [0 ..< 9]"
    by (simp add: candidates_def)
  moreover have "init_rc (sample_bus\<lparr>device_list := Inr (replicate 9 sample_printer)\<rparr>) = 0"
    "device_list (sample_bus\<lparr>device_list := Inr (replicate 9 sample_printer)\<rparr>) = Inr (replicate 9 sample_printer)"
    by (simp_all add: sample_bus_def)
  ultimately show ?thesis
    by (simp only: usbdev_list_up_to_eight length_upt) simp
qed

section \<open>Writing\<close>

lemma write_loop_total:
  assumes "makes_progress out" "nbytes = n + length p"
  shows "\<exists>r pp'. write_loop out nbytes p pp = Some (r, pp')
    \<and> (r = int nbytes \<and> received pp' = received pp @ p
       \<or> r = -1 \<and> (\<exists>k < length p. received pp' = received pp @ take k p))"
  using assms(2)
proof (induction "length p" arbitrary: p n pp rule: less_induct)
  case less
  show ?case
  proof (cases "p = []")
    case True
    then show ?thesis by (subst write_loop.simps) simp
  next
    case False
    obtain rc k pp1 where w: "m2022_usb_write out p pp = Some (rc, k, pp1)"
      using usb_write_loop_returns [OF assms(1)] unfolding m2022_usb_write_def by (metis prod_cases3)
    have k: "k \<le> length p" "received pp1 = received pp @ take k p" "rc = 0 \<longrightarrow> k = length p"
      using usb_write_wrote [OF w] by (simp_all add: wrote_def)
    have step: "write_loop out nbytes p pp =
        (if rc \<noteq> 0 \<and> k = 0 then Some (-1, pp1) else write_loop out nbytes (drop k p) pp1)"
      by (subst write_loop.simps) (simp add: False w)
    show ?thesis
    proof (cases "rc \<noteq> 0 \<and> k = 0")
      case True
      have "0 < length p" "received pp1 = received pp @ take 0 p" using False k True by simp_all
      then show ?thesis unfolding step using True by simp
    next
      case more: False
      then have "length (drop k p) < length p" using k(1,3) False by auto
      moreover have "nbytes = (n + k) + length (drop k p)" using less.prems k(1) by simp
      ultimately obtain r pp' where r: "write_loop out nbytes (drop k p) pp1 = Some (r, pp')"
        "r = int nbytes \<and> received pp' = received pp1 @ drop k p
          \<or> r = -1 \<and> (\<exists>j < length (drop k p). received pp' = received pp1 @ take j (drop k p))"
        using less.hyps [of "drop k p" "n + k" pp1] by blast
      from r(2) have "r = int nbytes \<and> received pp' = received pp @ p
          \<or> r = -1 \<and> (\<exists>j < length p. received pp' = received pp @ take j p)"
      proof (elim disjE conjE exE)
        fix j
        assume j: "r = -1" "j < length (drop k p)" "received pp' = received pp1 @ take j (drop k p)"
        then have "received pp' = received pp @ take (k + j) p" "k + j < length p" by (simp_all add: k(2) take_add)
        with j(1) show ?thesis by blast
      qed (simp add: k(2))
      moreover have "write_loop out nbytes p pp = Some (r, pp')" using step r(1) more by argo
      ultimately show ?thesis by blast
    qed
  qed
qed

text \<open>usbdev_write retries until everything is written or a transfer fails without moving a byte: it
  returns the size it was given exactly when the printer has all of the data, and -1 when it has a proper
  part of it.\<close>

theorem usbdev_write_all_or_error:
  assumes "makes_progress out"
  shows "\<exists>r pp'. usbdev_write out buffer pp = Some (r, pp')
    \<and> (r = int (length buffer) \<and> received pp' = received pp @ buffer
       \<or> r = -1 \<and> (\<exists>k < length buffer. received pp' = received pp @ take k buffer))"
  unfolding usbdev_write_def by (rule write_loop_total [OF assms, of _ 0]) simp

text \<open>A printer that is unplugged after three bytes.\<close>

lemma usbdev_write_all_or_error_witness:
  "\<exists>r pp'. usbdev_write (\<lambda>t r c. if length r < 3 then (0, 1) else (-4, 0)) [1, 2, 3, 4]
      \<lparr>received = [], transfers = 0\<rparr> = Some (r, pp')
    \<and> (received pp' = [1, 2, 3, 4] \<or> (\<exists>k < length [1, 2, 3, 4 :: u8]. received pp' = take k [1, 2, 3, 4]))"
proof -
  have "makes_progress (\<lambda>t r c. if length r < 3 then (0, 1) else (-4, 0))" by (simp add: makes_progress_def)
  from usbdev_write_all_or_error [OF this, of "[1, 2, 3, 4]" "\<lparr>received = [], transfers = 0\<rparr>"]
  show ?thesis unfolding pipe.simps append_Nil by blast
qed

section \<open>Status\<close>

lemma usbdev_status_reasons:
  "usbdev_status ctrl dev =
    (case m2022_usb_get_port_status ctrl dev of
       (rc, reply) \<Rightarrow> if rc \<noteq> 0 then {''other''}
         else set (fst (m2022_usb_status_reasons (case reply of None \<Rightarrow> 0 | Some st \<Rightarrow> st) 4)))"
  by (auto simp: usbdev_status_def m2022_usb_status_reasons_def Let_def split: prod.splits)

end
