(* ===== verification/App_Device.thy ===== *)
theory App_Device
  imports App_Job Usbdev
begin

text \<open>
  The rest of src/app/app.c: the status callback and the driver data that is advertised to clients; and the
  application on its device: a job through the raster callbacks, the USB scheme and the bulk pipe.
  PAPPL's constants are IPP keywords; the sizes of its arrays are parameters.
\<close>

section \<open>Status\<close>

text \<open>
  What \<open>cb_status\<close> hands to \<open>papplPrinterSetReasons\<close>, the reasons to add and to remove: \<open>dev\<close> is None
  when the device does not open, otherwise what \<open>papplDeviceGetStatus\<close> returns. \<open>device_status\<close> is
  \<open>PAPPL_PREASON_DEVICE_STATUS\<close>.
\<close>

definition cb_status :: "string set \<Rightarrow> string set option \<Rightarrow> string set \<times> string set" where
  "cb_status device_status dev =
    (let clear = device_status \<union> {''offline''}
     in case dev of
          None \<Rightarrow> ({''offline''}, clear - {''offline''})
        | Some reasons \<Rightarrow> (reasons, clear - reasons))"

section \<open>Driver data\<close>

definition DRIVER_NAME :: string where "DRIVER_NAME = ''m2022''"
definition MAKE_MODEL :: string where "MAKE_MODEL = ''Samsung Xpress SL-M2022''"
definition DEVICE_ID :: string where "DEVICE_ID = ''MFG:Samsung;MDL:M2020 Series;CMD:SPL;CLS:PRINTER;''"
abbreviation (input) M2022_MEDIA_MARGIN_HMM :: int where "M2022_MEDIA_MARGIN_HMM \<equiv> 441"

definition SOURCES :: "string list" where
  "SOURCES = [''main'', ''manual'']"

definition TYPES :: "string list" where
  "TYPES = [''stationery'', ''stationery-heavyweight'', ''stationery-lightweight'',
            ''stationery-preprinted'', ''cardstock'', ''labels'', ''envelope'']"

record media_col =
  col_size_name :: string
  size_width :: int
  size_length :: int
  left_margin :: int
  right_margin :: int
  top_margin :: int
  bottom_margin :: int
  col_source :: string
  col_type :: string

text \<open>\<open>name_size\<close> is the size of PAPPL's name arrays; the rest of each is zeroed.\<close>

definition fill_media_col :: "nat \<Rightarrow> media \<Rightarrow> media_col" where
  "fill_media_col name_size m =
    \<lparr>col_size_name = take (name_size - 1) (pwg_name m),
     size_width = width_pt m * 2540 sdiv 72, size_length = height_pt m * 2540 sdiv 72,
     left_margin = M2022_MEDIA_MARGIN_HMM, right_margin = M2022_MEDIA_MARGIN_HMM,
     top_margin = M2022_MEDIA_MARGIN_HMM, bottom_margin = M2022_MEDIA_MARGIN_HMM,
     col_source = take (name_size - 1) ''main'', col_type = take (name_size - 1) ''stationery''\<rparr>"

record driver_data =
  drv_format :: string
  make_and_model :: string
  ppm :: nat
  ppm_color :: nat
  has_supplies :: bool
  color_supported :: "string set"
  color_default :: string
  quality_default :: int
  content_default :: pappl_content
  raster_types :: "string set"
  sides_supported :: "string set"
  resolutions :: "(nat \<times> nat) list"
  default_resolution :: "nat \<times> nat"
  borderless :: bool
  left_right :: int
  bottom_top :: int
  num_media :: nat
  media_names :: "string list"
  media_default :: media_col
  media_ready :: "media_col list"
  sources :: "string list"
  types :: "string list"

text \<open>None where \<open>cb_driver\<close> returns false; \<open>max_media\<close> is \<open>PAPPL_MAX_MEDIA\<close>.\<close>

definition cb_driver :: "nat \<Rightarrow> nat \<Rightarrow> string \<Rightarrow> driver_data option" where
  "cb_driver max_media name_size driver_name =
    (if driver_name \<noteq> DRIVER_NAME then None
     else
       let tbl = m2022_media_table
       in case m2022_media_by_pwg (Some m2022_media_default_pwg) of
            None \<Rightarrow> None
          | Some def \<Rightarrow>
              Some \<lparr>drv_format = NATIVE_FORMAT, make_and_model = MAKE_MODEL, ppm = 20, ppm_color = 0,
                    has_supplies = False, color_supported = {''auto'', ''monochrome''},
                    color_default = ''monochrome'', quality_default = M2022_IPP_QUALITY_NORMAL,
                    content_default = PAPPL_CONTENT_AUTO, raster_types = {''sgray_8'', ''black_1''},
                    sides_supported = {''one-sided''}, resolutions = [(ENGINE_DPI, ENGINE_DPI)],
                    default_resolution = (ENGINE_DPI, ENGINE_DPI), borderless = False,
                    left_right = M2022_MEDIA_MARGIN_HMM, bottom_top = M2022_MEDIA_MARGIN_HMM,
                    num_media = length tbl, media_names = take max_media (map pwg_name tbl),
                    media_default = fill_media_col name_size def,
                    media_ready = [fill_media_col name_size def], sources = SOURCES, types = TYPES\<rparr>)"

text \<open>The bits per pixel and the color space of the pages of a raster type, as CUPS defines them.\<close>

fun raster_type_pixels :: "string \<Rightarrow> (u32 \<times> u32) option" where
  "raster_type_pixels s =
    (if s = ''sgray_8'' then Some (8, CUPS_CSPACE_SW)
     else if s = ''black_1'' then Some (1, CUPS_CSPACE_K) else None)"

text \<open>Whatever the driver data offers a client, the callbacks accept: every advertised paper is known and
  has a QPDL code of its own, every paper type has its own PJL name, pages of every raster type at every
  resolution are converted, and manual feed is told from the tray.\<close>

theorem advertised_choices_work:
  assumes "cb_driver max_media name_size name = Some data"
  shows "name = ''m2022''
    \<and> set (map (\<lambda>n. m2022_media_by_pwg (Some n)) (media_names data)) \<subseteq> Some ` set MEDIA
    \<and> distinct (map (\<lambda>m. qpdl_code m) MEDIA)
    \<and> distinct (map (\<lambda>t. m2022_jobmap_paper_type (Some t)) (types data))
    \<and> distinct (map (\<lambda>s. m2022_jobmap_feeder (Some s)) (sources data))
    \<and> set (resolutions data) = {(ENGINE_DPI, ENGINE_DPI)}
    \<and> (\<lambda>t. map_option (\<lambda>(bpp, cs). header_format
            \<lparr>cupsWidth = w, cupsHeight = h, cupsBitsPerPixel = bpp, cupsColorSpace = cs,
             cupsBytesPerLine = b, HWResolution = r\<rparr>) (raster_type_pixels t)) ` raster_types data
        = {Some (Some M2022_PIX_SGRAY_8), Some (Some M2022_PIX_BLACK_1)}"
proof -
  have d: "name = ''m2022''" "media_names data = take max_media (map pwg_name MEDIA)" "types data = TYPES"
    "sources data = SOURCES" "resolutions data = [(600, 600)]" "raster_types data = {''sgray_8'', ''black_1''}"
    using assms by (auto simp: cb_driver_def Let_def DRIVER_NAME_def m2022_media_table_def split: if_splits option.splits)
  have "m2022_media_by_pwg (Some (pwg_name m)) = Some m" if "m \<in> set MEDIA" for m
    using distinct_find [OF distinct_pwg_names that] by (simp add: m2022_media_by_pwg_def)
  then have "set (map (\<lambda>n. m2022_media_by_pwg (Some n)) (media_names data)) \<subseteq> Some ` set MEDIA"
    unfolding d(2) using set_take_subset [of max_media MEDIA] by (auto simp: take_map)
  moreover have "distinct (map (\<lambda>m. qpdl_code m) MEDIA)" by (simp add: MEDIA_def medium_def)
  moreover have "distinct (map (\<lambda>t. m2022_jobmap_paper_type (Some t)) (types data))"
    by (simp add: d(3) TYPES_def m2022_jobmap_paper_type_def paper_type_map_def)
  moreover have "distinct (map (\<lambda>s. m2022_jobmap_feeder (Some s)) (sources data))"
    by (simp add: d(4) SOURCES_def m2022_jobmap_feeder_def)
  ultimately show ?thesis using d(1,5,6) by (simp add: header_format_def)
qed

lemma advertised_choices_work_witness:
  "\<exists>data. cb_driver 256 64 ''m2022'' = Some data
    \<and> set (map (\<lambda>n. m2022_media_by_pwg (Some n)) (media_names data)) \<subseteq> Some ` set MEDIA"
proof -
  have "m2022_media_by_pwg (Some m2022_media_default_pwg) \<noteq> None"
    by (simp add: m2022_media_by_pwg_def m2022_media_default_pwg_def MEDIA_def)
  then obtain data where "cb_driver 256 64 ''m2022'' = Some data"
    by (auto simp: cb_driver_def DRIVER_NAME_def Let_def)
  with advertised_choices_work [OF this] show ?thesis by blast
qed

section \<open>A job through the USB device\<close>

text \<open>
  \<open>papplDeviceWrite\<close> on the scheme of Usbdev, with nothing in between; a call that does not return has no
  result here, so that the theorem below has to show that it does.
\<close>

definition usb_device_write :: "bulk_out \<Rightarrow> bytes \<Rightarrow> bytes \<Rightarrow> int \<times> nat" where
  "usb_device_write out sent data =
    (case usbdev_write out data \<lparr>received = sent, transfers = 0\<rparr> of
       None \<Rightarrow> (-1, 0)
     | Some (r, pp) \<Rightarrow> (r, length (received pp) - length sent))"

text \<open>A printer that takes something of every transfer, whatever status the transfer ends with.\<close>

definition keeps_moving :: "bulk_out \<Rightarrow> bool" where
  "keeps_moving out \<longleftrightarrow> (\<forall>t r c. c \<noteq> [] \<longrightarrow> 0 < snd (out t r c))"

lemma keeps_moving_progress: "keeps_moving out \<Longrightarrow> makes_progress out"
  by (simp add: keeps_moving_def makes_progress_def)

lemma usb_write_loop_moves:
  assumes "usb_write_loop out buf n p = Some r" "keeps_moving out"
  shows "n \<le> fst (snd r) \<and> (n < length buf \<longrightarrow> n < fst (snd r))"
  using assms
proof (induction rule: usb_write_loop.raw_induct [rotated 1, consumes 1])
  case (1 loop out buf n p r)
  define chunk where "chunk = take (min (length buf - n) CHUNK_BYTES) (drop n buf)"
  obtain rc k p1 where w: "bulk_write out p chunk = (rc, k, p1)" by (metis prod_cases3)
  show ?case
  proof (cases "n < length buf")
    case True
    then have "chunk \<noteq> []" by (simp add: chunk_def)
    then have k: "0 < k"
      using 1(3) w by (auto simp: keeps_moving_def bulk_write_def Let_def case_prod_unfold)
    show ?thesis
    proof (cases "rc = 0")
      case True
      then have "loop out buf (n + k) p1 = Some r"
        using 1(2) \<open>n < length buf\<close> w by (simp add: chunk_def [symmetric])
      from 1(1) [OF this 1(3)] k show ?thesis by simp
    next
      case False
      then have "r = (rc, n + k, p1)" using 1(2) True w by (auto simp: chunk_def [symmetric])
      then show ?thesis using k by simp
    qed
  qed (use 1(2) in auto)
qed

text \<open>So the retries of usbdev_write come to an end, with everything written.\<close>

lemma write_loop_moves:
  assumes "keeps_moving out"
  shows "\<exists>pp'. write_loop out nbytes p pp = Some (int nbytes, pp') \<and> received pp' = received pp @ p"
proof (induction "length p" arbitrary: p pp rule: less_induct)
  case less
  show ?case
  proof (cases "p = []")
    case True
    then show ?thesis by (subst write_loop.simps) simp
  next
    case False
    obtain rc k pp1 where w: "m2022_usb_write out p pp = Some (rc, k, pp1)"
      using usb_write_loop_returns [OF keeps_moving_progress [OF assms]] unfolding m2022_usb_write_def
      by (metis prod_cases3)
    have k: "0 < k" "k \<le> length p" "received pp1 = received pp @ take k p"
      using usb_write_loop_moves [OF w [unfolded m2022_usb_write_def] assms] usb_write_wrote [OF w] False
      by (simp_all add: wrote_def)
    have "length (drop k p) < length p" using k(1) False by simp
    from less.hyps [OF this, of pp1] k show ?thesis
      by (subst write_loop.simps) (auto simp: False w)
  qed
qed

lemma usb_device_write_good:
  assumes "keeps_moving out"
  shows "usb_device_write out = good_write"
proof (intro ext)
  fix sent data
  obtain pp where "usbdev_write out data \<lparr>received = sent, transfers = 0\<rparr> = Some (int (length data), pp)"
    "received pp = sent @ data"
    using write_loop_moves [OF assms, of "length data" data "\<lparr>received = sent, transfers = 0\<rparr>"]
    by (auto simp: usbdev_write_def)
  then show "usb_device_write out sent data = (int (length data), length data)"
    by (simp add: usb_device_write_def)
qed

text \<open>C8: Through the USB device to the printer: as long as every bulk transfer moves at least a byte, however
  short it is and even when it ends with an error or a timeout, the retries of the device scheme bring a whole
  job that PAPPL feeds to the callbacks to the printer's side of the pipe: exactly the job's stream, with each
  page cut to the printable window of its paper and halftoned. As for the callbacks, the paper is known, the
  pages are of a supported raster type at 600 dpi and not empty, the texts are plain and memory suffices.\<close>

theorem job_reaches_usb_printer:
  assumes "m2022_media_by_pwg (Some (size_name opts)) = Some m" "texts_ok env" "memory_ok env"
    and "device_write env = usb_device_write out" "keeps_moving out" "list_all client_page_ok sheets"
  shows "\<exists>s'. client_job env ji opts sheets s = Some (True, s')
    \<and> s_device s' = device_of s
        @ job_stream (qpdl_job_of env opts m (if opt_copies opts > 0 then opt_copies opts else 1))
            (map (printed_page (bluenoise64 env) opts m) sheets)"
  using client_job_prints [OF assms(1-3) assms(4) [unfolded usb_device_write_good [OF assms(5)]] assms(6)]
  by blast

text \<open>One byte at a time, and every other transfer times out after it.\<close>

lemma job_reaches_usb_printer_witness:
  "\<exists>s'. client_job (sample_env\<lparr>device_write := usb_device_write (\<lambda>t _ _. (if even t then 0 else -7, 1))\<rparr>)
      sample_info sample_opts [(sample_opts, replicate 2 (replicate 100 0))] idle = Some (True, s')
    \<and> s_device s' = job_stream (qpdl_job_of
          (sample_env\<lparr>device_write := usb_device_write (\<lambda>t _ _. (if even t then 0 else -7, 1))\<rparr>)
          sample_opts (MEDIA ! 0) 2)
        [printed_page (replicate 4096 128) sample_opts (MEDIA ! 0) (sample_opts, replicate 2 (replicate 100 0))]"
proof -
  define out :: bulk_out where "out = (\<lambda>t _ _. (if even t then 0 else -7, 1))"
  define e where "e = sample_env\<lparr>device_write := usb_device_write out\<rparr>"
  have e: "texts_ok e" "memory_ok e" "device_write e = usb_device_write out" "bluenoise64 e = replicate 4096 128"
    using sample_texts sample_memory by (simp_all add: e_def texts_ok_def memory_ok_def sample_env_def)
  have n: "keeps_moving out" by (simp add: keeps_moving_def out_def)
  have p: "list_all client_page_ok [(sample_opts, replicate 2 (replicate 100 0))]" using sample_page by simp
  have "opt_copies sample_opts = 2" "device_of idle = []"
    by (simp_all add: sample_opts_def device_of_def idle_def)
  with job_reaches_usb_printer [OF sample_media e(1-3) n p, of sample_info idle] e(4)
  show ?thesis unfolding e_def [symmetric] out_def [symmetric] by auto
qed

end
