(* ===== verification/Service.thy ===== *)
theory Service
  imports Cstring
begin

text \<open>
  Model of the pure part of src/service/service.c: XML escaping, the launchd property list, the log
  rotation entry, the parser of launchctl's output and the choice of a user ID.
\<close>

section \<open>Where things are\<close>

definition M2022_SERVICE_LABEL :: string where "M2022_SERVICE_LABEL = ''com.m2022airbridge.daemon''"
definition M2022_SERVICE_USER :: string where "M2022_SERVICE_USER = ''_m2022airbridge''"
definition M2022_SERVICE_BINARY :: string where "M2022_SERVICE_BINARY = ''/usr/local/bin/m2022-airbridge''"
definition M2022_SERVICE_PLIST :: string where
  "M2022_SERVICE_PLIST = ''/Library/LaunchDaemons/'' @ M2022_SERVICE_LABEL @ ''.plist''"
definition M2022_SERVICE_SUPPORT_DIR :: string where
  "M2022_SERVICE_SUPPORT_DIR = ''/Library/Application Support/M2022AirBridge''"
definition M2022_SERVICE_BACKUP_DIR :: string where
  "M2022_SERVICE_BACKUP_DIR = M2022_SERVICE_SUPPORT_DIR @ ''/backup''"
definition M2022_SERVICE_STATE_FILE :: string where
  "M2022_SERVICE_STATE_FILE = M2022_SERVICE_SUPPORT_DIR @ ''/state.conf''"
definition M2022_SERVICE_QUEUE_MARKER :: string where
  "M2022_SERVICE_QUEUE_MARKER = M2022_SERVICE_SUPPORT_DIR @ ''/queue-created-by-installer''"
definition M2022_SERVICE_SPOOL_DIR :: string where "M2022_SERVICE_SPOOL_DIR = ''/var/spool/m2022-airbridge''"
definition M2022_SERVICE_LOG_DIR :: string where "M2022_SERVICE_LOG_DIR = ''/Library/Logs/M2022AirBridge''"
definition M2022_SERVICE_LOG_FILE :: string where
  "M2022_SERVICE_LOG_FILE = M2022_SERVICE_LOG_DIR @ ''/m2022-airbridge.log''"
definition M2022_SERVICE_NEWSYSLOG :: string where
  "M2022_SERVICE_NEWSYSLOG = ''/etc/newsyslog.d/'' @ M2022_SERVICE_LABEL @ ''.conf''"
abbreviation (input) M2022_SERVICE_PORT :: int where "M2022_SERVICE_PORT \<equiv> 8000"
definition M2022_SERVICE_PRINTER_NAME :: string where "M2022_SERVICE_PRINTER_NAME = ''Samsung M2022''"
definition M2022_SERVICE_QUEUE :: string where "M2022_SERVICE_QUEUE = ''Samsung_M2022''"
definition M2022_VENDOR_QUEUE :: string where "M2022_VENDOR_QUEUE = ''Samsung_M2020_Series''"
definition M2022_VENDOR_PPD :: string where
  "M2022_VENDOR_PPD = ''/etc/cups/ppd/'' @ M2022_VENDOR_QUEUE @ ''.ppd''"
definition M2022_VENDOR_DRIVER_DIR :: string where "M2022_VENDOR_DRIVER_DIR = ''/Library/Printers/Samsung''"
definition M2022_VENDOR_PPD_DIR :: string where
  "M2022_VENDOR_PPD_DIR = ''/Library/Printers/PPDs/Contents/Resources''"
definition M2022_VENDOR_CACHE_DIR :: string where "M2022_VENDOR_CACHE_DIR = ''/Library/Caches/com.sec.printer''"
definition M2022_VENDOR_RECEIPT :: string where "M2022_VENDOR_RECEIPT = ''com.samsung.PrinterDriverInstaller.pkg''"
definition M2022_VENDOR_BACKUP_TAR :: string where
  "M2022_VENDOR_BACKUP_TAR = M2022_SERVICE_BACKUP_DIR @ ''/vendor-driver.tar.gz''"
abbreviation (input) M2022_SERVICE_UID_MIN :: int where "M2022_SERVICE_UID_MIN \<equiv> 300"
abbreviation (input) M2022_SERVICE_UID_MAX :: int where "M2022_SERVICE_UID_MAX \<equiv> 499"

lemmas service_paths = M2022_SERVICE_LABEL_def M2022_SERVICE_USER_def M2022_SERVICE_BINARY_def
  M2022_SERVICE_PLIST_def M2022_SERVICE_SUPPORT_DIR_def M2022_SERVICE_BACKUP_DIR_def
  M2022_SERVICE_STATE_FILE_def M2022_SERVICE_QUEUE_MARKER_def M2022_SERVICE_SPOOL_DIR_def
  M2022_SERVICE_LOG_DIR_def M2022_SERVICE_LOG_FILE_def M2022_SERVICE_NEWSYSLOG_def
  M2022_SERVICE_PRINTER_NAME_def M2022_SERVICE_QUEUE_def M2022_VENDOR_QUEUE_def M2022_VENDOR_PPD_def
  M2022_VENDOR_DRIVER_DIR_def M2022_VENDOR_PPD_DIR_def M2022_VENDOR_CACHE_DIR_def
  M2022_VENDOR_RECEIPT_def M2022_VENDOR_BACKUP_TAR_def

section \<open>The property list\<close>

definition xml_entity :: "char \<Rightarrow> string option" where
  "xml_entity c =
    (if c = CHR ''&'' then Some ''&amp;'' else if c = CHR ''<'' then Some ''&lt;''
     else if c = CHR ''>'' then Some ''&gt;'' else None)"

text \<open>The loop of \<open>xml_escape\<close> with \<open>n\<close> bytes written: what it still writes.\<close>

fun xml_escape_loop :: "string \<Rightarrow> nat \<Rightarrow> nat \<Rightarrow> string" where
  "xml_escape_loop [] n bufsize = []"
| "xml_escape_loop (c # s) n bufsize =
    (if n + 6 < bufsize then
       (case xml_entity c of
          Some rep \<Rightarrow> snprintf (bufsize - n) rep @ xml_escape_loop s (n + length rep) bufsize
        | None \<Rightarrow> c # xml_escape_loop s (n + 1) bufsize)
     else [])"

definition xml_escape :: "string \<Rightarrow> nat \<Rightarrow> string" where
  "xml_escape s bufsize = xml_escape_loop s 0 bufsize"

record service_params =
  printer_name :: "string option"
  sp_port :: int

definition quoted :: "string \<Rightarrow> string" where
  "quoted s = CHR 0x22 # s @ [CHR 0x22]"

text \<open>A line of the property list: indented by \<open>n\<close> tabs.\<close>

definition line :: "nat \<Rightarrow> string \<Rightarrow> string" where
  "line n s = replicate n (CHR 0x09) @ s @ [CHR 0x0A]"

definition key_line :: "nat \<Rightarrow> string \<Rightarrow> string" where
  "key_line n s = line n (''<key>'' @ s @ ''</key>'')"

definition string_line :: "nat \<Rightarrow> string \<Rightarrow> string" where
  "string_line n s = line n (''<string>'' @ s @ ''</string>'')"

definition plist_text :: "int \<Rightarrow> string \<Rightarrow> string" where
  "plist_text port name =
    line 0 (''<?xml version='' @ quoted ''1.0'' @ '' encoding='' @ quoted ''UTF-8'' @ ''?>'')
    @ line 0 (''<!DOCTYPE plist PUBLIC '' @ quoted ''-//Apple//DTD PLIST 1.0//EN'' @ '' ''
        @ quoted ''http://www.apple.com/DTDs/PropertyList-1.0.dtd'' @ ''>'')
    @ line 0 (''<plist version='' @ quoted ''1.0'' @ ''>'')
    @ line 0 ''<dict>''
    @ key_line 1 ''Label'' @ string_line 1 M2022_SERVICE_LABEL
    @ key_line 1 ''ProgramArguments''
    @ line 1 ''<array>''
    @ string_line 2 M2022_SERVICE_BINARY
    @ string_line 2 ''server''
    @ string_line 2 ''--spool'' @ string_line 2 M2022_SERVICE_SPOOL_DIR
    @ string_line 2 ''--log'' @ string_line 2 M2022_SERVICE_LOG_FILE
    @ string_line 2 ''--state'' @ string_line 2 M2022_SERVICE_STATE_FILE
    @ string_line 2 ''--port'' @ string_line 2 (decimal_int port)
    @ string_line 2 ''--name'' @ string_line 2 name
    @ line 1 ''</array>''
    @ key_line 1 ''UserName'' @ string_line 1 M2022_SERVICE_USER
    @ key_line 1 ''GroupName'' @ string_line 1 M2022_SERVICE_USER
    @ key_line 1 ''RunAtLoad'' @ line 1 ''<true/>''
    @ key_line 1 ''KeepAlive'' @ line 1 ''<true/>''
    @ key_line 1 ''ThrottleInterval'' @ line 1 ''<integer>5</integer>''
    @ key_line 1 ''ProcessType'' @ string_line 1 ''Background''
    @ key_line 1 ''EnvironmentVariables''
    @ line 1 ''<dict>'' @ key_line 2 ''HOME'' @ string_line 2 M2022_SERVICE_SUPPORT_DIR
    @ line 1 ''</dict>''
    @ key_line 1 ''StandardOutPath'' @ string_line 1 (M2022_SERVICE_LOG_DIR @ ''/launchd.log'')
    @ key_line 1 ''StandardErrorPath'' @ string_line 1 (M2022_SERVICE_LOG_DIR @ ''/launchd.log'')
    @ line 0 ''</dict>''
    @ line 0 ''</plist>''"

definition name_of :: "service_params option \<Rightarrow> string" where
  "name_of p =
    (case p of None \<Rightarrow> M2022_SERVICE_PRINTER_NAME
     | Some q \<Rightarrow> (case printer_name q of None \<Rightarrow> M2022_SERVICE_PRINTER_NAME | Some n \<Rightarrow> n))"

definition port_of :: "service_params option \<Rightarrow> int" where
  "port_of p = (case p of None \<Rightarrow> M2022_SERVICE_PORT
     | Some q \<Rightarrow> if sp_port q > 0 then sp_port q else M2022_SERVICE_PORT)"

definition m2022_service_plist :: "service_params option \<Rightarrow> nat \<Rightarrow> string" where
  "m2022_service_plist p bufsize = snprintf bufsize (plist_text (port_of p) (xml_escape (name_of p) 256))"

definition m2022_service_newsyslog :: "nat \<Rightarrow> string" where
  "m2022_service_newsyslog bufsize =
    snprintf bufsize (M2022_SERVICE_LOG_FILE @ [CHR 0x09] @ M2022_SERVICE_USER @ '':'' @ M2022_SERVICE_USER
      @ [CHR 0x09] @ ''644'' @ [CHR 0x09] @ ''5'' @ [CHR 0x09] @ ''5000'' @ [CHR 0x09] @ ''*''
      @ [CHR 0x09] @ ''J'' @ [CHR 0x0A])"

section \<open>launchctl and users\<close>

record launchd_state =
  loaded :: bool
  running :: bool
  ld_pid :: int

definition m2022_service_parse_launchctl :: "string option \<Rightarrow> launchd_state" where
  "m2022_service_parse_launchctl txt0 =
    (case txt0 of
       None \<Rightarrow> \<lparr>loaded = False, running = False, ld_pid = 0\<rparr>
     | Some s \<Rightarrow>
         (case strstr s ''state = '' of
            None \<Rightarrow> \<lparr>loaded = False, running = False, ld_pid = 0\<rparr>
          | Some p \<Rightarrow>
              let run = (take 7 (drop 8 p) = ''running'');
                  pid = (case strstr s ''pid = '' of None \<Rightarrow> 0 | Some q \<Rightarrow> atoi (drop 6 q))
              in \<lparr>loaded = True, running = run, ld_pid = (if run then pid else 0)\<rparr>))"

text \<open>The loops of \<open>m2022_service_pick_uid\<close>.\<close>

function pick_from :: "int list \<Rightarrow> int \<Rightarrow> int" where
  "pick_from used uid =
    (if uid \<le> M2022_SERVICE_UID_MAX
     then (if list_ex (\<lambda>u. u = uid) used then pick_from used (uid + 1) else uid)
     else 0)"
  by pat_completeness auto
termination by (relation "measure (\<lambda>(used, uid). nat (500 - uid))") auto

declare pick_from.simps [simp del]

definition m2022_service_pick_uid :: "int list \<Rightarrow> int" where
  "m2022_service_pick_uid used = pick_from used M2022_SERVICE_UID_MIN"

section \<open>Escaping\<close>

lemma xml_entity_length: "xml_entity c = Some rep \<Longrightarrow> length rep \<le> 5 \<and> rep \<noteq> []"
  by (auto simp: xml_entity_def split: if_splits)

lemma xml_escape_loop_length:
  "0 < bufsize \<Longrightarrow> n < bufsize \<Longrightarrow> n + length (xml_escape_loop s n bufsize) < bufsize"
proof (induction s n bufsize rule: xml_escape_loop.induct)
  case (2 c s n bufsize)
  show ?case
  proof (cases "xml_entity c")
    case None
    then show ?thesis using 2 by auto
  next
    case (Some rep)
    note len = xml_entity_length [OF Some]
    show ?thesis
    proof (cases "n + 6 < bufsize")
      case True
      then have "snprintf (bufsize - n) rep = rep" using len by (intro snprintf_fits) linarith
      moreover have "n + length rep + length (xml_escape_loop s (n + length rep) bufsize) < bufsize"
        using 2(2) [OF True Some] 2(3) True len by simp
      ultimately show ?thesis using True Some by simp
    qed (use 2 in simp)
  qed
qed simp

text \<open>The characters that the escaped text stands for, as an XML parser reads it.\<close>

definition xml_char :: "char \<Rightarrow> string" where
  "xml_char c = (case xml_entity c of None \<Rightarrow> [c] | Some rep \<Rightarrow> rep)"

lemma xml_escape_loop_prefix:
  "\<exists>k. xml_escape_loop s n bufsize = concat (map xml_char (take k s))
     \<and> (n + 6 * length s < bufsize \<longrightarrow> k = length s)"
proof (induction s n bufsize rule: xml_escape_loop.induct)
  case (1 n bufsize)
  then show ?case by simp
next
  case (2 c s n bufsize)
  show ?case
  proof (cases "n + 6 < bufsize")
    case False
    then show ?thesis by (intro exI [of _ 0]) simp
  next
    case True
    show ?thesis
    proof (cases "xml_entity c")
      case None
      from 2(1) [OF True None] obtain k where
        "xml_escape_loop s (n + 1) bufsize = concat (map xml_char (take k s))"
        "n + 1 + 6 * length s < bufsize \<longrightarrow> k = length s" by auto
      then show ?thesis using True None by (intro exI [of _ "Suc k"]) (simp add: xml_char_def [of c])
    next
      case (Some rep)
      note len = xml_entity_length [OF Some]
      from 2(2) [OF True Some] obtain k where
        "xml_escape_loop s (n + length rep) bufsize = concat (map xml_char (take k s))"
        "n + length rep + 6 * length s < bufsize \<longrightarrow> k = length s" by auto
      moreover have "snprintf (bufsize - n) rep = rep" using len True by (intro snprintf_fits) linarith
      ultimately show ?thesis using True Some len by (intro exI [of _ "Suc k"]) (simp add: xml_char_def [of c])
    qed
  qed
qed

section \<open>The property list as a whole\<close>

text \<open>The text around the port and the name.\<close>

lemma line_append: "line n (a @ s) = replicate n (CHR 0x09) @ a @ s @ [CHR 0x0A]"
  by (simp add: line_def)

lemma plist_length:
  "length (plist_text port name) = length (plist_text 0 []) - 1 + length (decimal_int port) + length name"
proof -
  have "length (decimal_int 0) = 1" by (simp add: decimal_int_def decimal.simps)
  then show ?thesis by (simp add: plist_text_def string_line_def line_def)
qed

lemma plist_frame: "length (plist_text 0 []) < 3000"
  by code_simp

lemma decimal_length: "n < 10 ^ k \<Longrightarrow> 0 < k \<Longrightarrow> length (decimal n) \<le> k"
proof (induction k arbitrary: n)
  case (Suc k)
  show ?case
  proof (cases "n < 10")
    case True
    then show ?thesis by (subst decimal.simps) simp
  next
    case False
    then have "0 < k" using Suc.prems(1) by (cases k) auto
    moreover have "n div 10 < 10 ^ k" using Suc.prems(1) by (simp add: less_mult_imp_div_less mult.commute)
    ultimately have "length (decimal (n div 10)) \<le> k" using Suc.IH by blast
    then show ?thesis using False by (subst decimal.simps) simp
  qed
qed simp

lemma xml_char_plain: "set (xml_char c) \<inter> {CHR ''<'', CHR ''>''} = {}"
  by (auto simp: xml_char_def xml_entity_def split: if_splits)



lemma pick_from_find:
  "pick_from used uid = (case find (\<lambda>u. u \<notin> set used) [uid .. 499] of None \<Rightarrow> 0 | Some u \<Rightarrow> u)"
proof (induction used uid rule: pick_from.induct)
  case (1 used uid)
  have taken: "list_ex (\<lambda>u. u = uid) used \<longleftrightarrow> uid \<in> set used" by (auto simp: list_ex_iff)
  show ?case
  proof (cases "uid \<le> 499")
    case False
    then show ?thesis by (subst pick_from.simps) simp
  next
    case True
    then have "[uid .. 499] = uid # [uid + 1 .. 499]" by (simp add: upto.simps)
    then show ?thesis using 1 True taken by (subst pick_from.simps) (simp del: upto.simps)
  qed
qed

text \<open>The user ID picked for the service is the least of the hidden range that is not in use, and 0 only
  when all are.\<close>

theorem picked_uid_is_least_free:
  "m2022_service_pick_uid used = (case find (\<lambda>u. u \<notin> set used) [300 .. 499] of None \<Rightarrow> 0 | Some u \<Rightarrow> u)"
  unfolding m2022_service_pick_uid_def by (rule pick_from_find)

end
