(* ===== verification/Service_Plan.thy ===== *)
theory Service_Plan
  imports Service
begin

text \<open>
  Model of the plans of src/service/service.c: what install, uninstall and remove-vendor-driver would do
  to the machine, as lists of steps built from an inspection.
\<close>

section \<open>Steps\<close>

datatype step_kind =
  M2022_STEP_RUN | M2022_STEP_WRITE | M2022_STEP_MKDIR | M2022_STEP_COPY | M2022_STEP_REMOVE
| M2022_STEP_WAIT_IPP | M2022_STEP_NOTE

record step =
  kind :: step_kind
  step_text :: string
  argv :: "string list"
  path :: string
  src :: string
  owner :: string
  mode :: nat
  content :: "string option"
  step_port :: int
  ignore_failure :: bool
  retries :: nat

abbreviation (input) M2022_STEP_MAX_ARGS :: nat where "M2022_STEP_MAX_ARGS \<equiv> 16"
abbreviation (input) M2022_PLAN_MAX :: nat where "M2022_PLAN_MAX \<equiv> 48"

text \<open>A step as \<open>add_step\<close> leaves it; the callers fill in the rest.\<close>

definition new_step :: "step_kind \<Rightarrow> string \<Rightarrow> step" where
  "new_step k s =
    \<lparr>kind = k, step_text = snprintf 160 s, argv = [], path = [], src = [], owner = [], mode = 0,
     content = None, step_port = 0, ignore_failure = False, retries = 0\<rparr>"

text \<open>The loop of \<open>add_run\<close>: at most 15 arguments, in a buffer of 1024 bytes of which \<open>used\<close> are taken.\<close>

fun pack_args :: "string list \<Rightarrow> nat \<Rightarrow> nat \<Rightarrow> string list" where
  "pack_args [] used n = []"
| "pack_args (arg # args) used n =
    (if n + 1 < M2022_STEP_MAX_ARGS then
       (if used + (length arg + 1) > 1024 then []
        else arg # pack_args args (used + (length arg + 1)) (n + 1))
     else [])"

definition run :: "string \<Rightarrow> string list \<Rightarrow> step" where
  "run s args = (new_step M2022_STEP_RUN s)\<lparr>argv := pack_args args 0 0\<rparr>"

definition run_ignoring :: "string \<Rightarrow> string list \<Rightarrow> step" where
  "run_ignoring s args = (run s args)\<lparr>ignore_failure := True\<rparr>"

definition write_step :: "string \<Rightarrow> string \<Rightarrow> string \<Rightarrow> nat \<Rightarrow> step" where
  "write_step s p txt m =
    (new_step M2022_STEP_WRITE s)\<lparr>path := snprintf 512 p, content := Some txt, mode := m\<rparr>"

definition mkdir_step :: "string \<Rightarrow> nat \<Rightarrow> string option \<Rightarrow> step" where
  "mkdir_step p m own =
    (new_step M2022_STEP_MKDIR (snprintf 200 (''create '' @ p)))
      \<lparr>path := snprintf 512 p, owner := snprintf 64 (case own of None \<Rightarrow> [] | Some w \<Rightarrow> w), mode := m\<rparr>"

definition copy_step :: "string \<Rightarrow> string \<Rightarrow> string \<Rightarrow> nat \<Rightarrow> step" where
  "copy_step s from_path p m =
    (new_step M2022_STEP_COPY s)\<lparr>src := snprintf 1024 from_path, path := snprintf 512 p, mode := m\<rparr>"

definition remove_step :: "string \<Rightarrow> step" where
  "remove_step p = (new_step M2022_STEP_REMOVE (snprintf 200 (''remove '' @ p)))\<lparr>path := snprintf 512 p\<rparr>"

definition note_step :: "string \<Rightarrow> step" where
  "note_step s = new_step M2022_STEP_NOTE s"

text \<open>A full plan takes no more steps.\<close>

definition add_step :: "step list \<Rightarrow> step \<Rightarrow> step list" where
  "add_step plan s = (if length plan \<ge> M2022_PLAN_MAX then plan else plan @ [s])"

definition build_plan :: "step list \<Rightarrow> step list" where
  "build_plan steps = foldl add_step [] steps"

lemma build_plan_all: "length steps \<le> M2022_PLAN_MAX \<Longrightarrow> build_plan steps = steps"
proof -
  have "length plan + length steps \<le> M2022_PLAN_MAX \<Longrightarrow> foldl add_step plan steps = plan @ steps" for plan
    by (induction steps arbitrary: plan) (auto simp: add_step_def)
  then show "length steps \<le> M2022_PLAN_MAX \<Longrightarrow> build_plan steps = steps" by (simp add: build_plan_def)
qed

section \<open>The machine and the options\<close>

record service_info =
  as_root :: bool
  user_exists :: bool
  user_uid :: int
  user_gid :: int
  free_uid :: int
  binary_installed :: bool
  plist_exists :: bool
  launchd :: launchd_state
  usb_printer :: bool
  vendor_queue :: bool
  vendor_ppd :: bool
  vendor_driver :: bool
  our_queue :: bool
  our_queue_name :: string
  backup_exists :: bool
  queue_marker :: bool
  support_dir :: bool
  spool_dir_there :: bool
  log_dir :: bool
  state_file_there :: bool
  log_file_there :: bool
  self_path :: string

record plan_options =
  purge :: bool
  keep_vendor :: bool
  test_page :: bool

definition service_owner :: string where
  "service_owner = M2022_SERVICE_USER @ '':'' @ M2022_SERVICE_USER"

section \<open>Installing\<close>

definition stop_steps :: "service_info \<Rightarrow> step list" where
  "stop_steps i =
    (if loaded (launchd i)
     then [run_ignoring ''stop the running service'' [''launchctl'', ''bootout'', ''system/'' @ M2022_SERVICE_LABEL]]
     else [])"

definition dscl_create :: "string \<Rightarrow> string \<Rightarrow> string list \<Rightarrow> step" where
  "dscl_create s p args = run s ([''dscl'', ''.'', ''-create'', p] @ args)"

definition user_steps :: "service_info \<Rightarrow> step list" where
  "user_steps i =
    (if user_exists i then []
     else
       let uid = snprintf 16 (decimal_int (free_uid i));
           g = ''/Groups/'' @ M2022_SERVICE_USER; u = ''/Users/'' @ M2022_SERVICE_USER
       in [dscl_create ''create the service group'' g [],
           dscl_create ''group id'' g [''PrimaryGroupID'', uid],
           dscl_create ''group name'' g [''RealName'', ''M2022 AirBridge''],
           dscl_create ''create the hidden service user'' u [],
           dscl_create ''user id'' u [''UniqueID'', uid],
           dscl_create ''user group'' u [''PrimaryGroupID'', uid],
           dscl_create ''no login shell'' u [''UserShell'', ''/usr/bin/false''],
           dscl_create ''home is the support directory'' u [''NFSHomeDirectory'', M2022_SERVICE_SUPPORT_DIR],
           dscl_create ''user name'' u [''RealName'', ''M2022 AirBridge''],
           dscl_create ''hidden from the login window'' u [''IsHidden'', ''1'']])"

definition file_steps :: "service_info \<Rightarrow> step list" where
  "file_steps i =
    [mkdir_step M2022_SERVICE_SUPPORT_DIR 488 (Some service_owner),
     mkdir_step M2022_SERVICE_BACKUP_DIR 488 (Some service_owner),
     mkdir_step M2022_SERVICE_SPOOL_DIR 448 (Some service_owner),
     mkdir_step M2022_SERVICE_LOG_DIR 493 (Some service_owner),
     run ''create the log file'' [''touch'', M2022_SERVICE_LOG_FILE],
     run ''owned by the service user'' [''chown'', service_owner, M2022_SERVICE_LOG_FILE],
     run ''readable by everyone'' [''chmod'', ''644'', M2022_SERVICE_LOG_FILE],
     copy_step ''install the binary'' (self_path i) M2022_SERVICE_BINARY 493,
     (run ''check that the service user can open the printer''
        [''sudo'', ''-u'', M2022_SERVICE_USER, M2022_SERVICE_BINARY, ''probe'', ''--quiet''])\<lparr>retries := 5\<rparr>]"

definition sh :: "string \<Rightarrow> string list" where
  "sh cmd = [''sh'', ''-c'', cmd]"

text \<open>A single quote, and a quoted path in a shell command.\<close>

definition q1 :: "string \<Rightarrow> string" where
  "q1 s = CHR 0x27 # s @ [CHR 0x27]"

definition vendor_steps :: "service_info \<Rightarrow> plan_options option \<Rightarrow> step list" where
  "vendor_steps i opts =
    (if vendor_queue i \<and> \<not> (case opts of None \<Rightarrow> False | Some o1 \<Rightarrow> keep_vendor o1) then
       (if vendor_ppd i
        then [copy_step (''back up the Samsung queue'' @ [CHR 0x27] @ ''s PPD'') M2022_VENDOR_PPD
                (M2022_SERVICE_BACKUP_DIR @ ''/'' @ M2022_VENDOR_QUEUE @ ''.ppd'') 420]
        else [])
       @ [run_ignoring (''back up the Samsung queue'' @ [CHR 0x27] @ ''s device URI'')
            (sh (''lpstat -v '' @ M2022_VENDOR_QUEUE @ '' | sed '' @ q1 ''s/^.*: //'' @ '' > ''
                 @ q1 (M2022_SERVICE_BACKUP_DIR @ ''/device-uri.txt''))),
          run_ignoring (''back up the Samsung queue'' @ [CHR 0x27] @ ''s options'')
            (sh (''lpoptions -p '' @ M2022_VENDOR_QUEUE @ '' -l > ''
                 @ q1 (M2022_SERVICE_BACKUP_DIR @ ''/lpoptions.txt''))),
          run ''remove the Samsung queue (one USB owner, ADR-006)'' [''lpadmin'', ''-x'', M2022_VENDOR_QUEUE]]
     else if vendor_queue i
     then [note_step ''keeping the Samsung queue as asked; do not print to both at once'']
     else [])"

definition start_steps :: "service_info \<Rightarrow> service_params option \<Rightarrow> plan_options option \<Rightarrow> step list" where
  "start_steps i p opts =
    (let port = snprintf 16 (decimal_int (port_of p)) in
     [write_step ''write the launchd job'' M2022_SERVICE_PLIST (m2022_service_plist p 4096) 420,
      write_step ''rotate the log with newsyslog'' M2022_SERVICE_NEWSYSLOG (m2022_service_newsyslog 256) 420,
      run ''start the service'' [''launchctl'', ''bootstrap'', ''system'', M2022_SERVICE_PLIST],
      (new_step M2022_STEP_WAIT_IPP ''wait for the printer to answer IPP'')\<lparr>step_port := atoi port\<rparr>]
     @ (if our_queue i then []
        else [run ''add the printer to this Mac (driverless queue)''
                [''lpadmin'', ''-p'', M2022_SERVICE_QUEUE, ''-E'', ''-v'',
                 snprintf 128 (''ipp://localhost:'' @ port @ ''/ipp/print''),
                 ''-m'', ''everywhere'', ''-D'', name_of p, ''-L'', ''USB''],
              write_step ''remember that the installer created the queue'' M2022_SERVICE_QUEUE_MARKER
                (''created by m2022-airbridge install'' @ [CHR 0x0A]) 420])
     @ (if (case opts of None \<Rightarrow> False | Some o1 \<Rightarrow> test_page o1)
        then [run_ignoring ''print a test page''
                [''lp'', ''-d'', if our_queue i then our_queue_name i else M2022_SERVICE_QUEUE,
                 ''/usr/share/cups/data/testprint'']]
        else [])
     @ [note_step ''installed; `m2022-airbridge doctor` checks everything, `status` and `logs` watch it''])"

text \<open>The reasons why there is no plan, on the left.\<close>

datatype refusal = NoPrinter | NoFreeUid | NoExecutable | NothingInstalled | NoVendorDriver

definition m2022_service_install_plan ::
  "service_info \<Rightarrow> service_params option \<Rightarrow> plan_options option \<Rightarrow> refusal + step list" where
  "m2022_service_install_plan i p opts =
    (if \<not> usb_printer i then Inl NoPrinter
     else if \<not> user_exists i \<and> free_uid i = 0 then Inl NoFreeUid
     else if self_path i = [] then Inl NoExecutable
     else Inr (build_plan (stop_steps i @ user_steps i @ file_steps i @ vendor_steps i opts
                           @ start_steps i p opts)))"

section \<open>Uninstalling\<close>

definition restore_steps :: "service_info \<Rightarrow> step list" where
  "restore_steps i =
    (if backup_exists i \<and> \<not> vendor_queue i
     then [run_ignoring ''restore the Samsung queue from the backup (needs the vendor driver)''
             (sh (''lpadmin -p '' @ M2022_VENDOR_QUEUE @ '' -E -v '' @ quoted (''$(cat ''
                  @ q1 (M2022_SERVICE_BACKUP_DIR @ ''/device-uri.txt'') @ '')'') @ '' -P ''
                  @ q1 (M2022_SERVICE_BACKUP_DIR @ ''/'' @ M2022_VENDOR_QUEUE @ ''.ppd'')))]
     else [])"

definition purge_steps :: "service_info \<Rightarrow> step list" where
  "purge_steps i =
    [run ''remove the spool'' [''rm'', ''-rf'', M2022_SERVICE_SPOOL_DIR],
     run ''remove the logs'' [''rm'', ''-rf'', M2022_SERVICE_LOG_DIR],
     run ''remove state, backups and the support directory'' [''rm'', ''-rf'', M2022_SERVICE_SUPPORT_DIR]]
    @ (if user_exists i
       then [run ''delete the service user'' [''dscl'', ''.'', ''-delete'', ''/Users/'' @ M2022_SERVICE_USER],
             run_ignoring ''delete the service group''
               [''dscl'', ''.'', ''-delete'', ''/Groups/'' @ M2022_SERVICE_USER]]
       else [])"

definition m2022_service_uninstall_plan ::
  "service_info \<Rightarrow> plan_options option \<Rightarrow> refusal + step list" where
  "m2022_service_uninstall_plan i opts =
    (if \<not> plist_exists i \<and> \<not> binary_installed i \<and> \<not> user_exists i then Inl NothingInstalled
     else Inr (build_plan (
       (if loaded (launchd i)
        then [run_ignoring ''stop the service'' [''launchctl'', ''bootout'', ''system/'' @ M2022_SERVICE_LABEL]]
        else [])
       @ [remove_step M2022_SERVICE_PLIST, remove_step M2022_SERVICE_NEWSYSLOG]
       @ (if queue_marker i \<and> our_queue i
          then [run_ignoring ''remove the queue the installer created'' [''lpadmin'', ''-x'', our_queue_name i],
                remove_step M2022_SERVICE_QUEUE_MARKER]
          else [])
       @ restore_steps i
       @ [remove_step M2022_SERVICE_BINARY]
       @ (if (case opts of None \<Rightarrow> False | Some o1 \<Rightarrow> purge o1) then purge_steps i
          else [note_step ''kept the state, logs, backups and the service user (uninstall --purge removes them)'']))))"

section \<open>Removing the vendor's driver\<close>

definition backup_command :: string where
  "backup_command =
    ''cd / && find '' @ M2022_VENDOR_PPD_DIR @ ''/. -maxdepth 1 -name '' @ q1 ''Samsung *''
    @ '' -print0 | tar czf '' @ q1 M2022_VENDOR_BACKUP_TAR @ '' --null -T - '' @ M2022_VENDOR_DRIVER_DIR"

definition m2022_service_remove_vendor_plan :: "service_info \<Rightarrow> refusal + step list" where
  "m2022_service_remove_vendor_plan i =
    (if \<not> vendor_driver i then Inl NoVendorDriver
     else Inr (build_plan (
       [note_step (''removing Samsung'' @ [CHR 0x27] @ ''s driver package (Intel-only, unusable after macOS 28); ''
           @ ''a backup is made first''),
        mkdir_step M2022_SERVICE_BACKUP_DIR 488 (if user_exists i then Some service_owner else None),
        run ''back up the driver files and PPDs'' (sh backup_command)]
       @ (if vendor_queue i
          then [run_ignoring ''remove the Samsung queue'' [''lpadmin'', ''-x'', M2022_VENDOR_QUEUE]] else [])
       @ [run ''delete the driver files'' [''rm'', ''-rf'', M2022_VENDOR_DRIVER_DIR],
          run ''delete the Samsung PPDs'' (sh (''rm -f '' @ q1 (M2022_VENDOR_PPD_DIR @ ''/Samsung '') @ ''*'')),
          run_ignoring ''delete the driver cache'' [''rm'', ''-rf'', M2022_VENDOR_CACHE_DIR],
          run_ignoring ''forget the package receipt'' [''pkgutil'', ''--forget'', M2022_VENDOR_RECEIPT],
          note_step (''restore with: sudo tar xzf '' @ q1 M2022_VENDOR_BACKUP_TAR @ '' -C /'')])))"

section \<open>The order of a plan\<close>

text \<open>\<open>Q\<close> does not come before a \<open>P\<close> has come.\<close>

fun precedes :: "('a \<Rightarrow> bool) \<Rightarrow> ('a \<Rightarrow> bool) \<Rightarrow> 'a list \<Rightarrow> bool" where
  "precedes P Q [] = True"
| "precedes P Q (x # xs) = (\<not> Q x \<and> (P x \<or> precedes P Q xs))"

lemma precedes_append:
  "precedes P Q (xs @ ys) \<longleftrightarrow>
    precedes P Q xs \<and> (list_ex P xs \<or> precedes P Q ys)"
  by (induction xs) auto

lemma precedes_none: "list_all (\<lambda>x. \<not> Q x) xs \<Longrightarrow> precedes P Q xs"
  by (induction xs) auto

text \<open>Steps by the first words of their commands and by the paths they write.\<close>

definition runs :: "string list \<Rightarrow> step \<Rightarrow> bool" where
  "runs words s \<longleftrightarrow> kind s = M2022_STEP_RUN \<and> take (length words) (argv s) = words"

definition writes :: "step_kind \<Rightarrow> string \<Rightarrow> step \<Rightarrow> bool" where
  "writes k p s \<longleftrightarrow> kind s = k \<and> path s = p"

lemmas step_simps = runs_def writes_def run_def run_ignoring_def write_step_def mkdir_step_def copy_step_def
  remove_step_def note_step_def new_step_def dscl_create_def sh_def snprintf_def

lemma install_sections_length:
  "length (stop_steps i @ user_steps i @ file_steps i @ vendor_steps i opts @ start_steps i p opts) \<le> 48"
proof -
  have "length (stop_steps i) \<le> 1" by (simp add: stop_steps_def)
  moreover have "length (user_steps i) \<le> 10" by (simp add: user_steps_def Let_def)
  moreover have "length (file_steps i) \<le> 9" by (simp add: file_steps_def)
  moreover have "length (vendor_steps i opts) \<le> 4" by (simp add: vendor_steps_def)
  moreover have "length (start_steps i p opts) \<le> 8" by (simp add: start_steps_def Let_def)
  ultimately show ?thesis by simp
qed

lemma install_plan_sections:
  assumes "m2022_service_install_plan i p opts = Inr plan"
  shows "plan = stop_steps i @ user_steps i @ file_steps i @ vendor_steps i opts @ start_steps i p opts"
  using assms build_plan_all [OF install_sections_length [of i opts p]]
  by (simp add: m2022_service_install_plan_def split: if_splits)

text \<open>A step that ends the plan when it fails.\<close>

definition must :: "(step \<Rightarrow> bool) \<Rightarrow> step \<Rightarrow> bool" where
  "must P s \<longleftrightarrow> P s \<and> \<not> ignore_failure s"

text \<open>The steps that the order is about.\<close>

definition copies_file :: "string \<Rightarrow> string \<Rightarrow> step \<Rightarrow> bool" where
  "copies_file from_path p s \<longleftrightarrow> writes M2022_STEP_COPY p s \<and> src s = snprintf 1024 from_path"

definition waits_for :: "service_params option \<Rightarrow> step \<Rightarrow> bool" where
  "waits_for p s \<longleftrightarrow> kind s = M2022_STEP_WAIT_IPP \<and> step_port s = atoi (snprintf 16 (decimal_int (port_of p)))"

definition vendor_ppd_copy :: string where
  "vendor_ppd_copy = M2022_SERVICE_BACKUP_DIR @ ''/'' @ M2022_VENDOR_QUEUE @ ''.ppd''"

abbreviation (input) bootstraps :: "step \<Rightarrow> bool" where "bootstraps \<equiv> runs [''launchctl'', ''bootstrap'']"
abbreviation (input) probes :: "step \<Rightarrow> bool" where
  "probes \<equiv> runs [''sudo'', ''-u'', M2022_SERVICE_USER, M2022_SERVICE_BINARY, ''probe'']"
abbreviation (input) stops :: "step \<Rightarrow> bool" where
  "stops \<equiv> runs [''launchctl'', ''bootout'', ''system/'' @ M2022_SERVICE_LABEL]"
abbreviation (input) removes_vendor_queue :: "step \<Rightarrow> bool" where
  "removes_vendor_queue \<equiv> runs [''lpadmin'', ''-x'']"
abbreviation (input) adds_queue :: "step \<Rightarrow> bool" where "adds_queue \<equiv> runs [''lpadmin'', ''-p'']"
abbreviation (input) copies_binary :: "step \<Rightarrow> bool" where
  "copies_binary \<equiv> writes M2022_STEP_COPY M2022_SERVICE_BINARY"

lemma user_steps_plain:
  "list_all (\<lambda>s. runs [''dscl'', ''.'', ''-create''] s) (user_steps i)"
  by (simp add: user_steps_def Let_def step_simps service_paths)

lemma runs_words: "runs w s \<Longrightarrow> w' \<noteq> [] \<Longrightarrow> w \<noteq> [] \<Longrightarrow> hd w \<noteq> hd w' \<Longrightarrow> \<not> runs w' s"
  by (cases w; cases w'; cases "argv s") (auto simp: runs_def)

lemmas plan_simps = must_def copies_file_def waits_for_def stop_steps_def user_steps_def file_steps_def vendor_steps_def start_steps_def
  service_owner_def step_simps service_paths


definition sample_machine :: service_info where
  "sample_machine =
    \<lparr>as_root = True, user_exists = False, user_uid = 0, user_gid = 0, free_uid = 300, binary_installed = True, plist_exists = True,
     launchd = \<lparr>loaded = True, running = True, ld_pid = 7\<rparr>, usb_printer = True, vendor_queue = True,
     vendor_ppd = True, vendor_driver = True, our_queue = False, our_queue_name = [], backup_exists = False,
     queue_marker = False, support_dir = False, spool_dir_there = False, log_dir = False,
     state_file_there = False, log_file_there = False, self_path = ''/tmp/m2022-airbridge''\<rparr>"


section \<open>What uninstalling leaves\<close>

text \<open>A step that deletes more than a file of the installer.\<close>

definition destroys :: "step \<Rightarrow> bool" where
  "destroys s \<longleftrightarrow> runs [''rm''] s \<or> runs [''dscl'', ''.'', ''-delete''] s"

text \<open>C32: Uninstalling without --purge deletes no data and no user: no step removes a directory or an account,
  and the only files removed are the binary, its property list, its rotation entry and the queue marker. A
  print queue is removed only when the installer made it.\<close>

theorem uninstall_keeps_data:
  assumes "m2022_service_uninstall_plan i opts = Inr plan" "opts = None \<or> opts = Some o1 \<and> \<not> purge o1"
  shows "list_all (\<lambda>s. \<not> destroys s) plan
    \<and> path ` {s \<in> set plan. kind s = M2022_STEP_REMOVE}
        \<subseteq> {M2022_SERVICE_PLIST, M2022_SERVICE_NEWSYSLOG, M2022_SERVICE_BINARY, M2022_SERVICE_QUEUE_MARKER}
    \<and> (list_ex (runs [''lpadmin'', ''-x'']) plan \<longrightarrow> queue_marker i \<and> our_queue i)"
proof -
  define steps where "steps =
    (if loaded (launchd i)
     then [run_ignoring ''stop the service'' [''launchctl'', ''bootout'', ''system/'' @ M2022_SERVICE_LABEL]] else [])
    @ [remove_step M2022_SERVICE_PLIST, remove_step M2022_SERVICE_NEWSYSLOG]
    @ (if queue_marker i \<and> our_queue i
       then [run_ignoring ''remove the queue the installer created'' [''lpadmin'', ''-x'', our_queue_name i],
             remove_step M2022_SERVICE_QUEUE_MARKER] else [])
    @ restore_steps i @ [remove_step M2022_SERVICE_BINARY]
    @ [note_step ''kept the state, logs, backups and the service user (uninstall --purge removes them)'']"
  have "length steps \<le> 48" by (simp add: steps_def restore_steps_def)
  then have "build_plan steps = steps" by (rule build_plan_all)
  moreover have keep: "(case opts of None \<Rightarrow> False | Some o1 \<Rightarrow> purge o1) = False" using assms(2) by auto
  have "m2022_service_uninstall_plan i opts =
      (if \<not> plist_exists i \<and> \<not> binary_installed i \<and> \<not> user_exists i then Inl NothingInstalled
       else Inr (build_plan steps))"
    unfolding m2022_service_uninstall_plan_def keep if_False steps_def by (rule refl)
  ultimately have "plan = steps" using assms(1) by (simp split: if_splits)
  moreover have "list_all (\<lambda>s. \<not> destroys s) steps"
    by (simp add: steps_def restore_steps_def destroys_def step_simps service_paths q1_def quoted_def)
  moreover have "path ` {s \<in> set steps. kind s = M2022_STEP_REMOVE}
      \<subseteq> {M2022_SERVICE_PLIST, M2022_SERVICE_NEWSYSLOG, M2022_SERVICE_BINARY, M2022_SERVICE_QUEUE_MARKER}"
    by (auto simp: steps_def restore_steps_def step_simps service_paths)
  moreover have "list_ex (runs [''lpadmin'', ''-x'']) steps \<longrightarrow> queue_marker i \<and> our_queue i"
    by (simp add: steps_def restore_steps_def step_simps service_paths q1_def quoted_def)
  ultimately show ?thesis by blast
qed

lemma uninstall_keeps_data_witness:
  "\<exists>plan. m2022_service_uninstall_plan sample_machine None = Inr plan \<and> list_all (\<lambda>s. \<not> destroys s) plan
    \<and> \<not> list_ex (runs [''lpadmin'', ''-x'']) plan"
proof -
  obtain plan where "m2022_service_uninstall_plan sample_machine None = Inr plan"
    by (auto simp: m2022_service_uninstall_plan_def sample_machine_def)
  with uninstall_keeps_data [OF this] show ?thesis by (auto simp: sample_machine_def)
qed

end
