(* ===== verification/Service_Exec.thy ===== *)
theory Service_Exec
  imports Service_Plan
begin

text \<open>
  Model of how src/service/service.c carries out a plan, and of the start, stop and restart commands of
  src/cli/cmd_service.c. The system is asked call by call: the state is the calls made so far, and
  the machine answers the next one knowing them. 0 is success, any other answer an errno or, for a
  program, its exit status. \<open>contents\<close> is what a file holds, and \<open>reads\<close> how many bytes the next
  \<open>fread\<close> of it delivers, as far as there are so many; it is 0 when that read fails. What is printed is
  not modelled.
\<close>

section \<open>The system\<close>

datatype sysc =
  Spawn "string list" | Sleep | OpenRead string | OpenWrite string | Puts string string | CloseFile string
| Mkdir string nat | Chmod string nat | Chown string int int | Rename string string | Unlink string
| Connect int

type_synonym trace = "sysc list"

record machine =
  answer :: "trace \<Rightarrow> sysc \<Rightarrow> int"
  contents :: "trace \<Rightarrow> string \<Rightarrow> string"
  reads :: "trace \<Rightarrow> string \<Rightarrow> nat"
  passwd :: "string \<Rightarrow> (int \<times> int) option"
  groups :: "string \<Rightarrow> int option"

abbreviation (input) EEXIST :: int where "EEXIST \<equiv> 17"
abbreviation (input) ENOENT :: int where "ENOENT \<equiv> 2"

definition call :: "machine \<Rightarrow> sysc \<Rightarrow> trace \<Rightarrow> int \<times> trace" where
  "call mc c tr = (answer mc tr c, tr @ [c])"

text \<open>\<open>m2022_run\<close> without a buffer: the exit status, or -1.\<close>

definition m2022_run :: "machine \<Rightarrow> string list \<Rightarrow> trace \<Rightarrow> int \<times> trace" where
  "m2022_run mc args tr = call mc (Spawn args) tr"

section \<open>Files\<close>

text \<open>The loop of \<open>mkdir_p\<close>: \<open>pre\<close> is what is behind \<open>c\<close>; the first character is not looked at.\<close>

fun mkdir_parents :: "machine \<Rightarrow> string \<Rightarrow> string \<Rightarrow> trace \<Rightarrow> int \<times> trace" where
  "mkdir_parents mc pre [] tr = (0, tr)"
| "mkdir_parents mc pre (c # cs) tr =
    (if c = CHR ''/'' then
       (let (rc, tr1) = call mc (Mkdir pre 493) tr
        in if rc \<noteq> 0 \<and> rc \<noteq> EEXIST then (-1, tr1) else mkdir_parents mc (pre @ [c]) cs tr1)
     else mkdir_parents mc (pre @ [c]) cs tr)"

definition mkdir_p :: "machine \<Rightarrow> string \<Rightarrow> nat \<Rightarrow> trace \<Rightarrow> int \<times> trace" where
  "mkdir_p mc p m tr =
    (let tmp = snprintf 512 p;
         (rc, tr1) = mkdir_parents mc (take 1 tmp) (drop 1 tmp) tr
     in if rc \<noteq> 0 then (-1, tr1)
        else let (rc2, tr2) = call mc (Mkdir tmp m) tr1
             in if rc2 \<noteq> 0 \<and> rc2 \<noteq> EEXIST then (-1, tr2) else call mc (Chmod tmp m) tr2)"

definition chown_named :: "machine \<Rightarrow> string \<Rightarrow> string \<Rightarrow> trace \<Rightarrow> int \<times> trace" where
  "chown_named mc p own tr =
    (if own = [] then (0, tr)
     else
       let user = snprintf 64 own;
           colon = (CHR '':'' \<in> set user);
           name = takeWhile (\<lambda>c. c \<noteq> CHR '':'') user;
           gr = (if colon then groups mc (drop (length name + 1) user) else None)
       in case passwd mc name of
            None \<Rightarrow> (-1, tr)
          | Some (uid, gid) \<Rightarrow> call mc (Chown p uid (case gr of None \<Rightarrow> gid | Some g \<Rightarrow> g)) tr)"

text \<open>The loop of \<open>copy_file\<close>: up to 65536 bytes at a time of \<open>inp\<close>, what is still to be read, until an
  \<open>fread\<close> delivers nothing, be it at the end or for an error; -1 when an \<open>fwrite\<close> is short.\<close>

function copy_chunks :: "machine \<Rightarrow> string \<Rightarrow> string \<Rightarrow> string \<Rightarrow> trace \<Rightarrow> int \<times> trace" where
  "copy_chunks mc from_path tmp inp tr =
    (let n = min (min 65536 (length inp)) (reads mc tr from_path)
     in if n = 0 then (0, tr)
        else let (rc, tr1) = call mc (Puts tmp (take n inp)) tr
             in if rc \<noteq> 0 then (-1, tr1) else copy_chunks mc from_path tmp (drop n inp) tr1)"
  by pat_completeness auto
termination by (relation "measure (\<lambda>(mc, from_path, tmp, inp, tr). length inp)") auto

declare copy_chunks.simps [simp del]

definition install_file :: "machine \<Rightarrow> string \<Rightarrow> string \<Rightarrow> nat \<Rightarrow> trace \<Rightarrow> int \<times> trace" where
  "install_file mc from_path dst m tr =
    (let (rc, tr1) = call mc (OpenRead from_path) tr
     in if rc \<noteq> 0 then (-1, tr1)
        else
          let tmp = snprintf 600 (dst @ ''.new'');
              (rc2, tr2) = call mc (OpenWrite tmp) tr1
          in if rc2 \<noteq> 0 then (-1, tr2)
             else
               let (rc3, tr3) = copy_chunks mc from_path tmp (contents mc tr1 from_path) tr2;
                   (cl, tr4) = call mc (CloseFile tmp) tr3;
                   rc4 = (if cl \<noteq> 0 then -1 else rc3);
                   (rc5, tr5) = (if rc4 = 0 then call mc (Chmod tmp m) tr4 else (rc4, tr4));
                   (rc6, tr6) = (if rc5 = 0 then call mc (Rename tmp dst) tr5 else (rc5, tr5))
               in if rc6 \<noteq> 0 then (rc6, snd (call mc (Unlink tmp) tr6)) else (0, tr6))"

text \<open>A WRITE step: \<open>fopen\<close>, \<open>fputs\<close>, \<open>fclose\<close>, \<open>chmod\<close>, each only after the one before succeeded.\<close>

definition write_file :: "machine \<Rightarrow> string \<Rightarrow> string \<Rightarrow> nat \<Rightarrow> trace \<Rightarrow> int \<times> trace" where
  "write_file mc p txt m tr =
    (let (rc, tr1) = call mc (OpenWrite p) tr
     in if rc \<noteq> 0 then (-1, tr1)
        else let (rc2, tr2) = call mc (Puts p txt) tr1
             in if rc2 \<noteq> 0 then (-1, tr2)
                else let (rc3, tr3) = call mc (CloseFile p) tr2
                     in if rc3 \<noteq> 0 then (-1, tr3) else call mc (Chmod p m) tr3)"

section \<open>Carrying out a step\<close>

text \<open>The attempts after the first failure of a RUN step.\<close>

fun retry :: "machine \<Rightarrow> string list \<Rightarrow> nat \<Rightarrow> int \<Rightarrow> trace \<Rightarrow> int \<times> trace" where
  "retry mc args 0 rc tr = (rc, tr)"
| "retry mc args (Suc n) rc tr =
    (if rc = 0 then (rc, tr)
     else let (rc1, tr1) = m2022_run mc args (snd (call mc Sleep tr)) in retry mc args n rc1 tr1)"

text \<open>\<open>while (!ipp_port_open(port) && tries++ < 60)\<close>: the number of tries at the end.\<close>

function wait_loop :: "machine \<Rightarrow> int \<Rightarrow> nat \<Rightarrow> trace \<Rightarrow> nat \<times> trace" where
  "wait_loop mc port tries tr =
    (let (rc, tr1) = call mc (Connect port) tr
     in if rc = 0 then (tries, tr1)
        else if tries < 60 then wait_loop mc port (tries + 1) (snd (call mc Sleep tr1))
        else (tries + 1, tr1))"
  by pat_completeness auto
termination by (relation "measure (\<lambda>(mc, port, tries, tr). 60 - tries)") auto

declare wait_loop.simps [simp del]

definition do_step :: "machine \<Rightarrow> step \<Rightarrow> trace \<Rightarrow> int \<times> trace" where
  "do_step mc s tr =
    (case kind s of
       M2022_STEP_RUN \<Rightarrow> (let (rc, tr1) = m2022_run mc (argv s) tr in retry mc (argv s) (retries s) rc tr1)
     | M2022_STEP_WRITE \<Rightarrow> write_file mc (path s) (case content s of None \<Rightarrow> [] | Some t \<Rightarrow> t) (mode s) tr
     | M2022_STEP_MKDIR \<Rightarrow>
         (let (rc, tr1) = mkdir_p mc (path s) (mode s) tr
          in if rc = 0 then chown_named mc (path s) (owner s) tr1 else (rc, tr1))
     | M2022_STEP_COPY \<Rightarrow> install_file mc (src s) (path s) (mode s) tr
     | M2022_STEP_REMOVE \<Rightarrow>
         (let (rc, tr1) = call mc (Unlink (path s)) tr in (if rc = 0 \<or> rc = ENOENT then 0 else -1, tr1))
     | M2022_STEP_WAIT_IPP \<Rightarrow>
         (let (tries, tr1) = wait_loop mc (step_port s) 0 tr in (if tries \<le> 60 then 0 else -1, tr1))
     | M2022_STEP_NOTE \<Rightarrow> (0, tr))"

text \<open>The loop over the plan from the \<open>i\<close>-th step.\<close>

fun execute_from :: "machine \<Rightarrow> step list \<Rightarrow> nat \<Rightarrow> trace \<Rightarrow> nat \<times> trace" where
  "execute_from mc [] i tr = (0, tr)"
| "execute_from mc (s # plan) i tr =
    (let (rc, tr1) = do_step mc s tr
     in if rc \<noteq> 0 \<and> \<not> ignore_failure s then (i + 1, tr1) else execute_from mc plan (i + 1) tr1)"

definition m2022_service_execute :: "machine \<Rightarrow> step list \<Rightarrow> trace \<Rightarrow> nat \<times> trace" where
  "m2022_service_execute mc plan tr = execute_from mc plan 0 tr"

section \<open>Commands\<close>

definition run_plan :: "machine \<Rightarrow> bool \<Rightarrow> step list \<Rightarrow> bool \<Rightarrow> trace \<Rightarrow> int \<times> trace" where
  "run_plan mc root plan dry_run tr =
    (if dry_run then (0, tr)
     else if \<not> root then (2, tr)
     else let (rc, tr1) = m2022_service_execute mc plan tr in (if rc = 0 then 0 else 1, tr1))"

definition launchctl :: "machine \<Rightarrow> string list \<Rightarrow> trace \<Rightarrow> int \<times> trace" where
  "launchctl mc args tr =
    (let (rc, tr1) = m2022_run mc (''launchctl'' # args) tr in (if rc = 0 then 0 else 1, tr1))"

definition cmd_service :: "machine \<Rightarrow> bool \<Rightarrow> service_info \<Rightarrow> string \<Rightarrow> trace \<Rightarrow> int \<times> trace" where
  "cmd_service mc root i verb tr =
    (if \<not> root then (2, tr)
     else if \<not> plist_exists i then (2, tr)
     else if verb = ''start'' then
       (if loaded (launchd i) then launchctl mc [''kickstart'', ''system/'' @ M2022_SERVICE_LABEL] tr
        else launchctl mc [''bootstrap'', ''system'', M2022_SERVICE_PLIST] tr)
     else if verb = ''stop'' then
       (if loaded (launchd i) then launchctl mc [''bootout'', ''system/'' @ M2022_SERVICE_LABEL] tr
        else (0, tr))
     else
       (if loaded (launchd i) then launchctl mc [''kickstart'', ''-k'', ''system/'' @ M2022_SERVICE_LABEL] tr
        else launchctl mc [''bootstrap'', ''system'', M2022_SERVICE_PLIST] tr))"

section \<open>Calls are only added\<close>

text \<open>The calls that were made between two states.\<close>

definition calls_since :: "trace \<Rightarrow> trace \<Rightarrow> (sysc \<Rightarrow> bool) \<Rightarrow> bool" where
  "calls_since tr tr' P \<longleftrightarrow> (\<exists>cs. tr' = tr @ cs \<and> list_all P cs)"

lemma calls_since_refl [simp]: "calls_since tr tr P"
  by (simp add: calls_since_def)

lemma calls_since_trans: "\<lbrakk>calls_since a b P; calls_since b c P\<rbrakk> \<Longrightarrow> calls_since a c P"
  by (auto simp: calls_since_def)

lemma call_since: "call mc c tr = (rc, tr') \<Longrightarrow> P c \<Longrightarrow> calls_since tr tr' P"
  by (auto simp: call_def calls_since_def)

lemma mkdir_parents_since:
  assumes "mkdir_parents mc pre cs tr = (rc, tr')" "\<And>p m. P (Mkdir p m)"
  shows "calls_since tr tr' P"
  using assms(1)
proof (induction mc pre cs tr rule: mkdir_parents.induct)
  case (2 mc pre c cs tr)
  obtain rc1 tr1 where c: "call mc (Mkdir pre 493) tr = (rc1, tr1)" by force
  from call_since [of _ _ _ _ _ P, OF c] assms(2) have first: "calls_since tr tr1 P" by blast
  show ?case
  proof (cases "c = CHR ''/''")
    case False
    then show ?thesis using 2 by simp
  next
    case True
    then show ?thesis
      using 2(1) [OF True c [symmetric] refl] 2(3) c first calls_since_trans [OF first]
      by (auto split: if_splits)
  qed
qed simp

lemma mkdir_step_since:
  assumes "do_step mc s tr = (rc, tr')" "kind s = M2022_STEP_MKDIR"
    and "\<And>p m. P (Mkdir p m)" "P (Chmod (snprintf 512 (path s)) (mode s))" "\<And>u g. P (Chown (path s) u g)"
  shows "calls_since tr tr' P"
proof -
  obtain rc1 tr1 where m: "mkdir_p mc (path s) (mode s) tr = (rc1, tr1)" by force
  have one: "calls_since tr tr1 P"
  proof -
    obtain ra ta where a: "mkdir_parents mc (take 1 (snprintf 512 (path s))) (drop 1 (snprintf 512 (path s))) tr
      = (ra, ta)" by force
    note first = mkdir_parents_since [where P = P, OF a assms(3)]
    obtain rb tb where b: "call mc (Mkdir (snprintf 512 (path s)) (mode s)) ta = (rb, tb)" by force
    note second = calls_since_trans [OF first call_since [where P = P, OF b assms(3)]]
    obtain rd td where d: "call mc (Chmod (snprintf 512 (path s)) (mode s)) tb = (rd, td)" by force
    note third = calls_since_trans [OF second call_since [where P = P, OF d assms(4)]]
    show ?thesis using m a b d first second third by (auto simp: mkdir_p_def Let_def split: if_splits)
  qed
  have two: "calls_since tr1 tr2 P" if "chown_named mc (path s) (owner s) tr1 = (rc2, tr2)" for rc2 tr2
    using that call_since [where P = P] assms(5)
    by (auto simp: chown_named_def Let_def split: if_splits option.splits prod.splits)
  show ?thesis
    using assms(1,2) m one two calls_since_trans [OF one two]
    by (auto simp: do_step_def split: if_splits)
qed

text \<open>A call, and the loops of a RUN and of a WAIT step.\<close>

lemma call_snd: "P c \<Longrightarrow> calls_since tr (snd (call mc c tr)) P"
  by (simp add: call_def calls_since_def)

lemma retry_since: "P Sleep \<Longrightarrow> P (Spawn args) \<Longrightarrow> calls_since tr (snd (retry mc args n rc tr)) P"
proof (induction mc args n rc tr rule: retry.induct)
  case (2 mc args n rc tr)
  obtain rc1 tr1 where c: "m2022_run mc args (snd (call mc Sleep tr)) = (rc1, tr1)" by force
  have "calls_since tr tr1 P"
    using calls_since_trans [OF call_snd [of P Sleep] call_since] c 2(2,3) by (simp add: m2022_run_def)
  then show ?case using 2 c calls_since_trans by auto
qed simp

lemma wait_loop_since:
  "P Sleep \<Longrightarrow> P (Connect port) \<Longrightarrow> calls_since tr (snd (wait_loop mc port tries tr)) P"
proof (induction mc port tries tr rule: wait_loop.induct)
  case (1 mc port tries tr)
  obtain rc tr1 where c: "call mc (Connect port) tr = (rc, tr1)" by force
  have one: "calls_since tr tr1 P" using call_since [OF c] 1(3) by simp
  have two: "calls_since tr (snd (call mc Sleep tr1)) P"
    by (rule calls_since_trans [OF one call_snd [where P = P and c = Sleep, OF 1(2)]])
  show ?case
    using 1(1) [OF c [symmetric] refl] 1(2,3) c one calls_since_trans [OF two]
    by (subst wait_loop.simps) auto
qed

lemma write_file_since:
  assumes "P (OpenWrite p)" "P (Puts p txt)" "P (CloseFile p)" "P (Chmod p m)"
  shows "calls_since tr (snd (write_file mc p txt m tr)) P"
proof -
  obtain r1 t1 where a: "call mc (OpenWrite p) tr = (r1, t1)" by force
  obtain r2 t2 where b: "call mc (Puts p txt) t1 = (r2, t2)" by force
  obtain r3 t3 where c: "call mc (CloseFile p) t2 = (r3, t3)" by force
  obtain r4 t4 where d: "call mc (Chmod p m) t3 = (r4, t4)" by force
  note s1 = call_since [where P = P, OF a assms(1)]
  note s2 = calls_since_trans [OF s1 call_since [where P = P, OF b assms(2)]]
  note s3 = calls_since_trans [OF s2 call_since [where P = P, OF c assms(3)]]
  note s4 = calls_since_trans [OF s3 call_since [where P = P, OF d assms(4)]]
  show ?thesis using a b c d s1 s2 s3 s4 by (simp add: write_file_def)
qed

text \<open>Every call of a list was answered with success, one after the other.\<close>

fun all_answered :: "machine \<Rightarrow> trace \<Rightarrow> trace \<Rightarrow> bool" where
  "all_answered mc tr [] = True"
| "all_answered mc tr (c # cs) = (answer mc tr c = 0 \<and> all_answered mc (tr @ [c]) cs)"

lemma all_answered_append:
  "all_answered mc tr (xs @ ys) = (all_answered mc tr xs \<and> all_answered mc (tr @ xs) ys)"
  by (induction xs arbitrary: tr) simp_all

text \<open>What a copy holds: the beginning of its source, and all of it when no read of the source fails.\<close>

definition copied :: "machine \<Rightarrow> string \<Rightarrow> string \<Rightarrow> string \<Rightarrow> bool" where
  "copied mc from_path source copy \<longleftrightarrow>
    copy = take (length copy) source \<and> ((\<forall>tr. 0 < reads mc tr from_path) \<longrightarrow> copy = source)"

lemma copied_Nil: "reads mc tr from_path = 0 \<or> source = [] \<Longrightarrow> copied mc from_path source []"
  by (auto simp: copied_def) (metis less_irrefl)

lemma copied_more:
  "copied mc from_path (drop n source) copy \<Longrightarrow> n \<le> length source \<Longrightarrow> copied mc from_path source (take n source @ copy)"
  unfolding copied_def by (auto simp: min_def take_add [symmetric]) (metis append_take_drop_id take_add)+

lemma copy_chunks_calls:
  "\<exists>chunks. snd (copy_chunks mc from_path tmp inp tr) = tr @ map (Puts tmp) chunks
    \<and> (fst (copy_chunks mc from_path tmp inp tr) = 0 \<longrightarrow>
        all_answered mc tr (map (Puts tmp) chunks) \<and> copied mc from_path inp (concat chunks))"
proof (induction mc from_path tmp inp tr rule: copy_chunks.induct)
  case (1 mc from_path tmp inp tr)
  define n where "n = min (min 65536 (length inp)) (reads mc tr from_path)"
  show ?case
  proof (cases "n = 0")
    case True
    then have "copied mc from_path inp []" by (intro copied_Nil [of _ tr]) (auto simp: n_def min_def split: if_splits)
    then show ?thesis
      using True by (subst (1 2) copy_chunks.simps) (auto simp: n_def [symmetric] intro!: exI [of _ "[]"])
  next
    case False
    have within: "n \<le> length inp" by (simp add: n_def)
    obtain rc tr1 where c: "call mc (Puts tmp (take n inp)) tr = (rc, tr1)" by force
    then have tr1: "tr1 = tr @ [Puts tmp (take n inp)]" "rc = answer mc tr (Puts tmp (take n inp))"
      by (simp_all add: call_def)
    show ?thesis
    proof (cases "rc = 0")
      case True
      from 1 [OF n_def False c [symmetric] refl] True obtain chunks where
        rest: "snd (copy_chunks mc from_path tmp (drop n inp) tr1) = tr1 @ map (Puts tmp) chunks"
        "fst (copy_chunks mc from_path tmp (drop n inp) tr1) = 0 \<longrightarrow> all_answered mc tr1 (map (Puts tmp) chunks)
          \<and> copied mc from_path (drop n inp) (concat chunks)" by auto
      have step: "copy_chunks mc from_path tmp inp tr = copy_chunks mc from_path tmp (drop n inp) tr1"
        using False True c by (subst copy_chunks.simps) (simp add: n_def [symmetric] Let_def)
      show ?thesis
        unfolding step
        by (rule exI [of _ "take n inp # chunks"])
          (use rest tr1 True copied_more [OF _ within] in auto)
    next
      case fail: False
      then show ?thesis
        using False c tr1
        by (subst (1 2) copy_chunks.simps)
          (auto simp: n_def [symmetric] Let_def intro!: exI [of _ "[take n inp]"])
    qed
  qed
qed

section \<open>Replacing a file\<close>

text \<open>The calls that change what a path names.\<close>

fun modifies :: "sysc \<Rightarrow> string \<Rightarrow> bool" where
  "modifies (OpenWrite p) q = (p = q)"
| "modifies (Puts p txt) q = (p = q)"
| "modifies (Mkdir p m) q = (p = q)"
| "modifies (Chmod p m) q = (p = q)"
| "modifies (Chown p u g) q = (p = q)"
| "modifies (Rename a b) q = (a = q \<or> b = q)"
| "modifies (Unlink p) q = (p = q)"
| "modifies _ q = False"

text \<open>The calls of a copy up to the rename.\<close>

definition save_calls :: "string \<Rightarrow> string \<Rightarrow> nat \<Rightarrow> string list \<Rightarrow> trace" where
  "save_calls from_path tmp m chunks =
    [OpenRead from_path, OpenWrite tmp] @ map (Puts tmp) chunks @ [CloseFile tmp, Chmod tmp m]"

text \<open>A copy whose rename was reached: everything before it succeeded, and what was written is what was read.\<close>

definition renamed :: "machine \<Rightarrow> string \<Rightarrow> string \<Rightarrow> string \<Rightarrow> nat \<Rightarrow> trace \<Rightarrow> int \<Rightarrow> trace \<Rightarrow> bool" where
  "renamed mc from_path tmp dst m tr rc cs \<longleftrightarrow>
    (\<exists>chunks. cs = save_calls from_path tmp m chunks @ Rename tmp dst # (if rc = 0 then [] else [Unlink tmp])
      \<and> all_answered mc tr (save_calls from_path tmp m chunks)
      \<and> answer mc (tr @ save_calls from_path tmp m chunks) (Rename tmp dst) = rc
      \<and> copied mc from_path (contents mc (tr @ [OpenRead from_path]) from_path) (concat chunks))"

lemma install_file_calls:
  assumes "install_file mc from_path dst m tr = (rc, tr')" "tmp = snprintf 600 (dst @ ''.new'')"
  shows "\<exists>cs. tr' = tr @ cs
    \<and> (\<forall>c \<in> set cs. c \<in> {OpenRead from_path, OpenWrite tmp, CloseFile tmp, Chmod tmp m, Rename tmp dst, Unlink tmp}
        \<or> (\<exists>t. c = Puts tmp t))
    \<and> (if Rename tmp dst \<in> set cs then renamed mc from_path tmp dst m tr rc cs else rc \<noteq> 0)"
proof -
  obtain r1 t1 where a: "call mc (OpenRead from_path) tr = (r1, t1)" by force
  obtain r2 t2 where b: "call mc (OpenWrite tmp) t1 = (r2, t2)" by force
  obtain r3 t3 where c: "copy_chunks mc from_path tmp (contents mc t1 from_path) t2 = (r3, t3)" by force
  obtain r4 t4 where d: "call mc (CloseFile tmp) t3 = (r4, t4)" by force
  obtain r5 t5 where e: "call mc (Chmod tmp m) t4 = (r5, t5)" by force
  obtain r6 t6 where f: "call mc (Rename tmp dst) t5 = (r6, t6)" by force
  obtain chunks where ch: "t3 = t2 @ map (Puts tmp) chunks"
    "r3 = 0 \<longrightarrow> all_answered mc t2 (map (Puts tmp) chunks)
      \<and> copied mc from_path (contents mc t1 from_path) (concat chunks)"
    using copy_chunks_calls [of mc from_path tmp "contents mc t1 from_path" t2] c by auto
  note made = a b d e f
  have t: "t1 = tr @ [OpenRead from_path]" "t2 = t1 @ [OpenWrite tmp]" "t4 = t3 @ [CloseFile tmp]"
    "t5 = t4 @ [Chmod tmp m]" "t6 = t5 @ [Rename tmp dst]"
    using made by (auto simp: call_def)
  have r: "r1 = answer mc tr (OpenRead from_path)" "r2 = answer mc t1 (OpenWrite tmp)"
    "r4 = answer mc t3 (CloseFile tmp)" "r5 = answer mc t4 (Chmod tmp m)" "r6 = answer mc t5 (Rename tmp dst)"
    using made by (auto simp: call_def)
  have u: "snd (call mc (Unlink tmp) x) = x @ [Unlink tmp]" for x by (simp add: call_def)
  have early: ?thesis if "rc \<noteq> 0" "tr' = tr @ cs" "Rename tmp dst \<notin> set cs"
    "\<forall>c \<in> set cs. c \<in> {OpenRead from_path, OpenWrite tmp, CloseFile tmp, Chmod tmp m, Rename tmp dst, Unlink tmp}
        \<or> (\<exists>t. c = Puts tmp t)" for cs
    using that by (intro exI [of _ cs]) simp
  note unfolded = assms(1) [unfolded install_file_def assms(2) [symmetric] Let_def a b c d e f prod.case]
  consider "r1 \<noteq> 0" | "r1 = 0" "r2 \<noteq> 0" | "r1 = 0" "r2 = 0" "r4 \<noteq> 0 \<or> r3 \<noteq> 0"
    | "r1 = 0" "r2 = 0" "r4 = 0" "r3 = 0" "r5 \<noteq> 0" | "r1 = 0" "r2 = 0" "r4 = 0" "r3 = 0" "r5 = 0" by blast
  then show ?thesis
  proof cases
    case 5
    have all: "all_answered mc tr (save_calls from_path tmp m chunks)"
      "tr @ save_calls from_path tmp m chunks = t5"
      using 5 r ch t by (simp_all add: save_calls_def all_answered_append)
    have "(rc, tr') = (if r6 \<noteq> 0 then (r6, t6 @ [Unlink tmp]) else (0, t6))"
      using assms(1) 5 by (auto simp: install_file_def assms(2) [symmetric] Let_def a b c d e f u split: if_splits)
    then have tr': "tr' = t5 @ Rename tmp dst # (if rc = 0 then [] else [Unlink tmp])" "rc = r6"
      by (auto simp: t(5) split: if_splits)
    define cs where "cs = save_calls from_path tmp m chunks @ Rename tmp dst # (if rc = 0 then [] else [Unlink tmp])"
    have "renamed mc from_path tmp dst m tr rc cs"
      unfolding renamed_def cs_def using all r(5) tr'(2) ch(2) 5 t(1) by (intro exI [of _ chunks]) simp
    moreover have "tr' = tr @ cs" unfolding tr'(1) cs_def all(2) [symmetric] by simp
    moreover have "Rename tmp dst \<in> set cs" by (simp add: cs_def)
    moreover have "\<forall>c \<in> set cs. c \<in> {OpenRead from_path, OpenWrite tmp, CloseFile tmp, Chmod tmp m, Rename tmp dst,
        Unlink tmp} \<or> (\<exists>t. c = Puts tmp t)" by (auto simp: cs_def save_calls_def)
    ultimately show ?thesis by auto
  next
    case 1
    then show ?thesis using unfolded by (intro early [of "[OpenRead from_path]"]) (auto simp: t)
  next
    case 2
    then show ?thesis
      using unfolded by (intro early [of "[OpenRead from_path, OpenWrite tmp]"]) (auto simp: t)
  next
    case 3
    then have "(rc, tr') = (if r4 \<noteq> 0 then -1 else r3, t4 @ [Unlink tmp])"
      using assms(1) by (auto simp: install_file_def assms(2) [symmetric] Let_def a b c d e f u split: if_splits)
    then show ?thesis
      using 3 by (intro early [of "[OpenRead from_path, OpenWrite tmp] @ map (Puts tmp) chunks @ [CloseFile tmp, Unlink tmp]"])
        (auto simp: t ch(1))
  next
    case 4
    then have "(rc, tr') = (r5, t5 @ [Unlink tmp])"
      using assms(1) by (auto simp: install_file_def assms(2) [symmetric] Let_def a b c d e f u split: if_splits)
    then show ?thesis
      using 4 by (intro early [of "save_calls from_path tmp m chunks @ [Unlink tmp]"])
        (auto simp: t ch(1) save_calls_def)
  qed
qed

text \<open>C31: A file is installed without a moment in which its path names anything else than the old file or the
  copy as it was read: the path itself is only ever the target of one rename, that rename is made only after
  every write to the temporary file, its close and its chmod have succeeded, and the result is 0 exactly when
  that rename succeeded too. What it puts in place is the source's content up to the first read that delivers
  nothing, so the whole of it when no read of the source fails.\<close>

theorem file_replaced_atomically:
  assumes "install_file mc from_path dst m tr = (rc, tr')" "length dst < 595"
  shows "\<exists>cs. tr' = tr @ cs \<and> list_all (\<lambda>c. modifies c dst = (c = Rename (dst @ ''.new'') dst)) cs
    \<and> (if Rename (dst @ ''.new'') dst \<in> set cs then renamed mc from_path (dst @ ''.new'') dst m tr rc cs
       else rc \<noteq> 0)"
proof -
  have "dst @ ''.new'' = snprintf 600 (dst @ ''.new'')" using assms(2) by simp
  from install_file_calls [OF assms(1) this] obtain cs where cs: "tr' = tr @ cs"
    "\<forall>c \<in> set cs. c \<in> {OpenRead from_path, OpenWrite (dst @ ''.new''), CloseFile (dst @ ''.new''),
       Chmod (dst @ ''.new'') m, Rename (dst @ ''.new'') dst, Unlink (dst @ ''.new'')} \<or> (\<exists>t. c = Puts (dst @ ''.new'') t)"
    "if Rename (dst @ ''.new'') dst \<in> set cs then renamed mc from_path (dst @ ''.new'') dst m tr rc cs else rc \<noteq> 0"
    by blast
  have "modifies c dst = (c = Rename (dst @ ''.new'') dst)" if "c \<in> set cs" for c
    using bspec [OF cs(2) that] by auto
  then show ?thesis using cs by (intro exI [of _ cs]) (simp add: list_all_iff)
qed

text \<open>A machine on which every call succeeds but the close of \<open>bad\<close>; two bytes are read at a time.\<close>

definition closing :: "string \<Rightarrow> machine" where
  "closing bad = \<lparr>answer = (\<lambda>_ c. if c = CloseFile bad then 28 else 0), contents = (\<lambda>_ _. ''new''),
     reads = (\<lambda>_ _. 2), passwd = (\<lambda>_. None), groups = (\<lambda>_. None)\<rparr>"

lemma closing_install:
  "install_file (closing ''b.new'') ''a'' ''b'' 493 [] = (-1, [OpenRead ''a'', OpenWrite ''b.new'', Puts ''b.new'' ''ne'',
     Puts ''b.new'' ''w'', CloseFile ''b.new'', Unlink ''b.new''])"
  "install_file (closing ''x'') ''a'' ''b'' 493 [] = (0, [OpenRead ''a'', OpenWrite ''b.new'', Puts ''b.new'' ''ne'',
     Puts ''b.new'' ''w'', CloseFile ''b.new'', Chmod ''b.new'' 493, Rename ''b.new'' ''b''])"
  by (simp_all add: install_file_def call_def closing_def copy_chunks.simps Let_def)

lemma file_replaced_atomically_witness:
  "renamed (closing ''x'') ''a'' ''b.new'' ''b'' 493 [] 0 (snd (install_file (closing ''x'') ''a'' ''b'' 493 []))
    \<and> Rename ''b.new'' ''b'' \<notin> set (snd (install_file (closing ''b.new'') ''a'' ''b'' 493 []))
    \<and> fst (install_file (closing ''b.new'') ''a'' ''b'' 493 []) = -1"
  using file_replaced_atomically [OF closing_install(1)] file_replaced_atomically [OF closing_install(2)]
  by (simp add: closing_install)

text \<open>The loop cannot tell a read error from the end of the file: a copy that was cut short after two bytes is
  installed, and the result is 0.\<close>

lemma read_error_unnoticed:
  assumes "mc = (closing ''x'')\<lparr>reads := (\<lambda>tr _. if length tr = 2 then 2 else 0)\<rparr>"
  shows "install_file mc ''a'' ''b'' 493 [] = (0, [OpenRead ''a'', OpenWrite ''b.new'', Puts ''b.new'' ''ne'',
     CloseFile ''b.new'', Chmod ''b.new'' 493, Rename ''b.new'' ''b'']) \<and> contents mc [] ''a'' = ''new''"
  by (simp add: assms install_file_def call_def closing_def copy_chunks.simps Let_def)

text \<open>The calls that a step can make; whatever it does, it adds calls of these to those before.\<close>

definition step_call :: "step \<Rightarrow> sysc \<Rightarrow> bool" where
  "step_call s c \<longleftrightarrow>
    (case kind s of
       M2022_STEP_RUN \<Rightarrow> c \<in> {Spawn (argv s), Sleep}
     | M2022_STEP_WRITE \<Rightarrow>
         c \<in> {OpenWrite (path s), CloseFile (path s), Chmod (path s) (mode s)} \<or> (\<exists>t. c = Puts (path s) t)
     | M2022_STEP_MKDIR \<Rightarrow>
         c = Chmod (snprintf 512 (path s)) (mode s) \<or> (\<exists>p m. c = Mkdir p m) \<or> (\<exists>u g. c = Chown (path s) u g)
     | M2022_STEP_COPY \<Rightarrow>
         (let tmp = snprintf 600 (path s @ ''.new'')
          in c \<in> {OpenRead (src s), OpenWrite tmp, CloseFile tmp, Chmod tmp (mode s), Rename tmp (path s), Unlink tmp}
             \<or> (\<exists>t. c = Puts tmp t))
     | M2022_STEP_REMOVE \<Rightarrow> c = Unlink (path s)
     | M2022_STEP_WAIT_IPP \<Rightarrow> c \<in> {Connect (step_port s), Sleep}
     | M2022_STEP_NOTE \<Rightarrow> False)"

lemma do_step_calls: "calls_since tr (snd (do_step mc s tr)) (step_call s)"
proof (cases "kind s")
  case M2022_STEP_RUN
  obtain rc tr1 where c: "m2022_run mc (argv s) tr = (rc, tr1)" by force
  have "calls_since tr tr1 (step_call s)"
    using call_since [of mc "Spawn (argv s)" tr rc tr1] c M2022_STEP_RUN by (simp add: m2022_run_def step_call_def)
  from calls_since_trans [OF this retry_since] show ?thesis
    by (simp add: do_step_def M2022_STEP_RUN c step_call_def)
next
  case M2022_STEP_WRITE
  then show ?thesis using write_file_since [of "step_call s" "path s"] by (simp add: do_step_def step_call_def)
next
  case M2022_STEP_MKDIR
  obtain rc tr1 where c: "do_step mc s tr = (rc, tr1)" by force
  from mkdir_step_since [OF c M2022_STEP_MKDIR, of "step_call s"] c M2022_STEP_MKDIR show ?thesis
    by (simp add: step_call_def)
next
  case M2022_STEP_COPY
  obtain rc tr1 where c: "install_file mc (src s) (path s) (mode s) tr = (rc, tr1)" by force
  from install_file_calls [OF c refl] c M2022_STEP_COPY show ?thesis
    by (auto simp: do_step_def step_call_def calls_since_def list_all_iff Let_def)
next
  case M2022_STEP_REMOVE
  then show ?thesis using call_snd [of "step_call s" "Unlink (path s)"]
    by (simp add: do_step_def case_prod_unfold Let_def step_call_def)
next
  case M2022_STEP_WAIT_IPP
  then show ?thesis using wait_loop_since [of "step_call s" "step_port s" tr mc 0]
    by (simp add: do_step_def case_prod_unfold Let_def step_call_def)
next
  case M2022_STEP_NOTE
  then show ?thesis by (simp add: do_step_def)
qed

lemma calls_since_mono: "\<lbrakk>calls_since a b P; \<And>c. P c \<Longrightarrow> Q c\<rbrakk> \<Longrightarrow> calls_since a b Q"
  by (auto simp: calls_since_def list_all_iff)

lemma do_step_extends: "calls_since tr (snd (do_step mc s tr)) (\<lambda>_. True)"
  using do_step_calls by (rule calls_since_mono) simp

lemma execute_extends: "execute_from mc plan i tr = (r, tr') \<Longrightarrow> calls_since tr tr' (\<lambda>_. True)"
proof (induction plan arbitrary: i tr)
  case (Cons s plan)
  obtain rc tr1 where c: "do_step mc s tr = (rc, tr1)" by force
  then have "calls_since tr tr1 (\<lambda>_. True)" using do_step_extends [of tr mc s] by simp
  with Cons c show ?case by (auto intro: calls_since_trans split: if_splits)
qed simp

section \<open>Stopping at a failure\<close>

lemma execute_from_append:
  "execute_from mc (xs @ ys) i tr =
    (let (r, tr1) = execute_from mc xs i tr
     in if r \<noteq> 0 then (r, tr1) else execute_from mc ys (i + length xs) tr1)"
proof (induction xs arbitrary: i tr)
  case (Cons s xs)
  then show ?case by (cases "do_step mc s tr") (auto simp: Let_def split: prod.splits)
qed simp

lemma execute_from_failed:
  assumes "execute_from mc plan i tr = (r, tr')" "r \<noteq> 0"
  shows "\<exists>k tr1 rc. r = i + k + 1 \<and> k < length plan \<and> execute_from mc (take k plan) i tr = (0, tr1)
    \<and> do_step mc (plan ! k) tr1 = (rc, tr') \<and> rc \<noteq> 0 \<and> \<not> ignore_failure (plan ! k)"
  using assms
proof (induction plan arbitrary: i tr)
  case (Cons s plan)
  obtain rc tr1 where s: "do_step mc s tr = (rc, tr1)" by force
  show ?case
  proof (cases "rc \<noteq> 0 \<and> \<not> ignore_failure s")
    case True
    then show ?thesis using Cons.prems s by (intro exI [of _ 0]) simp
  next
    case False
    then have "execute_from mc (s # plan) i tr = execute_from mc plan (i + 1) tr1"
      using s by (simp only: execute_from.simps Let_def prod.case if_False)
    then have "execute_from mc plan (i + 1) tr1 = (r, tr')" using Cons.prems(1) by simp
    from Cons.IH [OF this Cons.prems(2)] obtain k tr2 rc2 where
      "r = i + 1 + k + 1" "k < length plan" "execute_from mc (take k plan) (i + 1) tr1 = (0, tr2)"
      "do_step mc (plan ! k) tr2 = (rc2, tr')" "rc2 \<noteq> 0" "\<not> ignore_failure (plan ! k)" by blast
    then show ?thesis
      using s False by (intro exI [of _ "Suc k"] exI [of _ tr2] exI [of _ rc2]) simp
  qed
qed simp

text \<open>C22: A plan that fails says which step failed: the steps before it were carried out, it is one whose
  failure is not ignored, and no later step has touched the machine.\<close>

theorem execute_stops_at_failure:
  assumes "m2022_service_execute mc plan tr = (r, tr')" "r \<noteq> 0"
  shows "r \<le> length plan \<and> \<not> ignore_failure (plan ! (r - 1))
    \<and> (\<exists>tr1. m2022_service_execute mc (take (r - 1) plan) tr = (0, tr1)
        \<and> snd (do_step mc (plan ! (r - 1)) tr1) = tr' \<and> fst (do_step mc (plan ! (r - 1)) tr1) \<noteq> 0)"
proof -
  obtain k tr1 rc where k: "r = 0 + k + 1" "k < length plan" "execute_from mc (take k plan) 0 tr = (0, tr1)"
    "do_step mc (plan ! k) tr1 = (rc, tr')" "rc \<noteq> 0" "\<not> ignore_failure (plan ! k)"
    using execute_from_failed [OF assms [unfolded m2022_service_execute_def]] by blast
  then show ?thesis by (auto simp: m2022_service_execute_def)
qed

definition sample_answers :: machine where
  "sample_answers = \<lparr>answer = (\<lambda>tr c. if c = Unlink ''b'' then 13 else 0), contents = (\<lambda>_ _. []),
                     reads = (\<lambda>_ _. 65536), passwd = (\<lambda>_. None), groups = (\<lambda>_. None)\<rparr>"

lemma execute_stops_at_failure_witness:
  "m2022_service_execute sample_answers [remove_step ''a'', remove_step ''b'', remove_step ''c''] []
      = (2, [Unlink ''a'', Unlink ''b''])
    \<and> \<not> ignore_failure ([remove_step ''a'', remove_step ''b'', remove_step ''c''] ! 1)"
proof -
  have "m2022_service_execute sample_answers [remove_step ''a'', remove_step ''b'', remove_step ''c''] []
      = (2, [Unlink ''a'', Unlink ''b''])"
    by (simp add: m2022_service_execute_def do_step_def call_def sample_answers_def step_simps)
  from execute_stops_at_failure [OF this] this show ?thesis by simp
qed

section \<open>The vendor's driver\<close>

lemma backup_command_length: "length backup_command < 400"
  by code_simp

lemma sh_packed: "length cmd < 1000 \<Longrightarrow> pack_args (sh cmd) 0 0 = sh cmd"
  by (simp add: sh_def)

text \<open>C20: Samsung's driver is deleted only after its backup was made: when the command that deletes it is run
  while the plan of remove-vendor-driver is carried out, the backup command was run before and succeeded.\<close>

theorem vendor_driver_only_after_backup:
  assumes "m2022_service_remove_vendor_plan i = Inr plan" "m2022_service_execute mc plan [] = (r, tr)"
    and "Spawn [''rm'', ''-rf'', M2022_VENDOR_DRIVER_DIR] \<in> set tr"
  shows "\<exists>tr0 tr1. tr = tr0 @ Spawn (sh backup_command) # tr1 \<and> answer mc tr0 (Spawn (sh backup_command)) = 0
    \<and> Spawn [''rm'', ''-rf'', M2022_VENDOR_DRIVER_DIR] \<notin> set tr0"
proof -
  define no_rm where "no_rm = (\<lambda>c. c \<noteq> Spawn [''rm'', ''-rf'', M2022_VENDOR_DRIVER_DIR])"
  define note1 where "note1 = note_step (''removing Samsung'' @ [CHR 0x27]
    @ ''s driver package (Intel-only, unusable after macOS 28); '' @ ''a backup is made first'')"
  define mk where "mk = mkdir_step M2022_SERVICE_BACKUP_DIR 488 (if user_exists i then Some service_owner else None)"
  define backup where "backup = run ''back up the driver files and PPDs'' (sh backup_command)"
  obtain rest where plan: "plan = build_plan (note1 # mk # backup # rest)" and len: "length rest \<le> 6"
    using assms(1) unfolding m2022_service_remove_vendor_plan_def note1_def mk_def backup_def
    by (force split: if_splits)
  have "plan = note1 # mk # backup # rest" unfolding plan using len by (intro build_plan_all) simp
  moreover obtain rc1 tr1 where mkd: "do_step mc mk [] = (rc1, tr1)" by force
  moreover have "do_step mc note1 [] = (0, [])" by (simp add: do_step_def note1_def note_step_def new_step_def)
  moreover have keep: "\<not> ignore_failure mk" "\<not> ignore_failure backup"
    by (simp_all add: mk_def backup_def step_simps)
  ultimately have mid: "(r, tr) = (if rc1 \<noteq> 0 then (2, tr1) else execute_from mc (backup # rest) 2 tr1)"
    using assms(2) by (simp add: m2022_service_execute_def numeral_2_eq_2 split: if_splits)
  have "calls_since [] tr1 no_rm"
    using mkdir_step_since [OF mkd, of no_rm] by (simp add: mk_def step_simps no_rm_def)
  then have clean: "Spawn [''rm'', ''-rf'', M2022_VENDOR_DRIVER_DIR] \<notin> set tr1"
    by (auto simp: calls_since_def no_rm_def list_all_iff)
  define rc2 where "rc2 = answer mc tr1 (Spawn (sh backup_command))"
  have "argv backup = sh backup_command" "kind backup = M2022_STEP_RUN" "retries backup = 0"
    using sh_packed backup_command_length by (simp_all add: backup_def run_def new_step_def)
  then have do: "do_step mc backup tr1 = (rc2, tr1 @ [Spawn (sh backup_command)])"
    by (simp add: do_step_def m2022_run_def call_def rc2_def)
  have "sh backup_command \<noteq> [''rm'', ''-rf'', M2022_VENDOR_DRIVER_DIR]" by (simp add: sh_def)
  with assms(3) clean mid do keep(2)
  have ok: "rc1 = 0" "rc2 = 0" "(r, tr) = execute_from mc rest 3 (tr1 @ [Spawn (sh backup_command)])"
    by (auto simp: numeral_3_eq_3 numeral_2_eq_2 split: if_splits)
  have "calls_since (tr1 @ [Spawn (sh backup_command)]) tr (\<lambda>_. True)"
    using execute_extends ok(3) by metis
  then obtain cs where "tr = tr1 @ Spawn (sh backup_command) # cs" by (auto simp: calls_since_def)
  then show ?thesis using ok(2) clean unfolding rc2_def by blast
qed

lemma vendor_driver_only_after_backup_witness:
  "\<exists>plan tr. m2022_service_remove_vendor_plan sample_machine = Inr plan
    \<and> snd (m2022_service_execute (sample_answers\<lparr>passwd := (\<lambda>_. Some (0, 0))\<rparr>) plan []) = tr
    \<and> (Spawn [''rm'', ''-rf'', M2022_VENDOR_DRIVER_DIR] \<in> set tr \<longrightarrow> Spawn (sh backup_command) \<in> set tr)"
proof -
  obtain plan where p: "m2022_service_remove_vendor_plan sample_machine = Inr plan"
    by (auto simp: m2022_service_remove_vendor_plan_def sample_machine_def)
  obtain r tr where e: "m2022_service_execute (sample_answers\<lparr>passwd := (\<lambda>_. Some (0, 0))\<rparr>) plan [] = (r, tr)" by force
  from vendor_driver_only_after_backup [OF p e] p e show ?thesis by auto
qed

end
