(* ===== verification/Cups.thy ===== *)
theory Cups
  imports Cprint
begin

text \<open>
  Model of src/cups: the list of print queues (queues.c) and one Get-Printer-Attributes request (ipp.c).
  What libcups answers is the environment.
\<close>

section \<open>Queues\<close>

text \<open>A destination as \<open>cupsGetDests\<close> lists it; \<open>cd_option\<close> is \<open>cupsGetOption\<close> on its options.\<close>

record cups_dest =
  cd_name :: string
  cd_instance :: "string option"
  cd_is_default :: int
  cd_option :: "string \<Rightarrow> string option"

record cups_queue =
  q_name :: string
  q_make_model :: string
  q_device_uri :: string
  q_state :: int
  q_state_reasons :: string
  q_is_default :: bool

text \<open>\<open>strncpy\<close> of at most \<open>dstlen - 1\<close> bytes, and the end of the string.\<close>

definition copy_opt :: "cups_dest \<Rightarrow> string \<Rightarrow> nat \<Rightarrow> string" where
  "copy_opt d name dstlen =
    take (dstlen - 1) (case cd_option d name of None \<Rightarrow> [] | Some v \<Rightarrow> v)"

definition queue_of :: "cups_dest \<Rightarrow> cups_queue" where
  "queue_of d =
    \<lparr>q_name = take 127 (cd_name d),
     q_make_model = copy_opt d ''printer-make-and-model'' 256,
     q_device_uri = copy_opt d ''device-uri'' 512,
     q_state = (case cd_option d ''printer-state'' of None \<Rightarrow> 0 | Some s \<Rightarrow> atoi s),
     q_state_reasons = copy_opt d ''printer-state-reasons'' 512,
     q_is_default = (cd_is_default d \<noteq> 0)\<rparr>"

text \<open>The loop over the destinations: what is in the array of \<open>cap\<close> queues, and the number of queues.\<close>

fun queues_loop :: "nat \<Rightarrow> cups_dest list \<Rightarrow> cups_queue list \<Rightarrow> nat \<Rightarrow> cups_queue list \<times> nat" where
  "queues_loop cap [] out count = (out, count)"
| "queues_loop cap (d # ds) out count =
    (if cd_instance d \<noteq> None then queues_loop cap ds out count
     else queues_loop cap ds (if count < cap then out @ [queue_of d] else out) (count + 1))"

definition m2022_cups_queues :: "cups_dest list \<Rightarrow> nat \<Rightarrow> cups_queue list \<times> nat" where
  "m2022_cups_queues dests cap = queues_loop cap dests [] 0"

definition m2022_cups_state_name :: "int \<Rightarrow> string" where
  "m2022_cups_state_name state =
    (if state = 3 then ''idle'' else if state = 4 then ''processing'' else if state = 5 then ''stopped''
     else ''unknown'')"

section \<open>Printer attributes\<close>

datatype ipp_tag = IPP_TAG_NAME | IPP_TAG_URI | IPP_TAG_TEXT | IPP_TAG_ENUM | IPP_TAG_KEYWORD

text \<open>An attribute of a response: its first value as a string or an integer, and all of it as text.\<close>

record ipp_attribute =
  at_string :: string
  at_integer :: int
  at_text :: string

type_synonym ipp_response = "string \<Rightarrow> ipp_tag \<Rightarrow> ipp_attribute option"

text \<open>
  The request that is sent, and libcups: whether a connection can be made, the printer's URI in a buffer
  of 512 bytes, the response with the last status, and the last error as text.
\<close>

record ipp_request =
  rq_uri :: string
  rq_wanted :: "string list"
  rq_resource :: string

record ipp_env =
  ie_connect :: "string \<Rightarrow> int \<Rightarrow> bool"
  ie_uri :: "string \<Rightarrow> int \<Rightarrow> string \<Rightarrow> string"
  ie_request :: "ipp_request \<Rightarrow> ipp_response option \<times> int"
  ie_error :: string

record ipp_printer =
  ip_name :: string
  ip_uuid :: string
  ip_make_model :: string
  ip_state :: int
  ip_reasons :: string
  ip_version :: string

definition ipp_printer_zero :: ipp_printer where
  "ipp_printer_zero =
    \<lparr>ip_name = [], ip_uuid = [], ip_make_model = [], ip_state = 0, ip_reasons = [], ip_version = []\<rparr>"

definition wanted :: "string list" where
  "wanted =
    [''printer-name'', ''printer-uuid'', ''printer-make-and-model'', ''printer-state'',
     ''printer-state-reasons'', ''printer-firmware-string-version'']"

abbreviation (input) IPP_STATUS_OK_EVENTS_COMPLETE :: int where "IPP_STATUS_OK_EVENTS_COMPLETE \<equiv> 7"

text \<open>\<open>snprintf\<close> of the string value when the attribute is there.\<close>

definition attr_string :: "ipp_response \<Rightarrow> string \<Rightarrow> ipp_tag \<Rightarrow> nat \<Rightarrow> string" where
  "attr_string r name tag n = (case r name tag of None \<Rightarrow> [] | Some a \<Rightarrow> snprintf n (at_string a))"

definition m2022_ipp_printer_state :: "ipp_env \<Rightarrow> string \<Rightarrow> int \<Rightarrow> string \<Rightarrow> int \<times> ipp_printer" where
  "m2022_ipp_printer_state env host port resource =
    (if \<not> ie_connect env host port
     then (-1, ipp_printer_zero\<lparr>ip_reasons := snprintf 512 (ie_error env)\<rparr>)
     else
       let uri = take 511 (ie_uri env host port resource);
           (response, last) = ie_request env \<lparr>rq_uri = uri, rq_wanted = wanted, rq_resource = resource\<rparr>
       in case response of
            None \<Rightarrow> (-2, ipp_printer_zero\<lparr>ip_reasons := snprintf 512 (ie_error env)\<rparr>)
          | Some r \<Rightarrow>
              if last > IPP_STATUS_OK_EVENTS_COMPLETE
              then (-2, ipp_printer_zero\<lparr>ip_reasons := snprintf 512 (ie_error env)\<rparr>)
              else
                (0, \<lparr>ip_name = attr_string r ''printer-name'' IPP_TAG_NAME 128,
                     ip_uuid = attr_string r ''printer-uuid'' IPP_TAG_URI 64,
                     ip_make_model = attr_string r ''printer-make-and-model'' IPP_TAG_TEXT 128,
                     ip_state = (case r ''printer-state'' IPP_TAG_ENUM of None \<Rightarrow> 0 | Some a \<Rightarrow> at_integer a),
                     ip_reasons = (case r ''printer-state-reasons'' IPP_TAG_KEYWORD of
                                     None \<Rightarrow> [] | Some a \<Rightarrow> take 511 (at_text a)),
                     ip_version = attr_string r ''printer-firmware-string-version'' IPP_TAG_TEXT 64\<rparr>))"

section \<open>What callers get\<close>

text \<open>The queues of the list: the destinations that are no instances.\<close>

definition real_queues :: "cups_dest list \<Rightarrow> cups_queue list" where
  "real_queues ds = map queue_of (filter (\<lambda>d. cd_instance d = None) ds)"

lemma queues_loop_eq:
  "length out = min count cap \<Longrightarrow>
   queues_loop cap ds out count = (out @ take (cap - count) (real_queues ds), count + length (real_queues ds))"
proof (induction ds arbitrary: out count)
  case (Cons d ds)
  then show ?case
  proof (cases "count < cap")
    case True
    then have "cap - count = Suc (cap - Suc count)" by simp
    then show ?thesis using Cons True by (simp add: real_queues_def)
  next
    case False
    then show ?thesis using Cons by (simp add: real_queues_def)
  qed
qed (simp add: real_queues_def)

lemma cups_queues_eq: "m2022_cups_queues ds cap = (take cap (real_queues ds), length (real_queues ds))"
  using queues_loop_eq [of "[]" 0 cap ds] by (simp add: m2022_cups_queues_def)

text \<open>A queue's fields fit the struct's arrays.\<close>

definition queue_fits :: "cups_queue \<Rightarrow> bool" where
  "queue_fits q \<longleftrightarrow> length (q_name q) < 128 \<and> length (q_make_model q) < 256 \<and> length (q_device_uri q) < 512
     \<and> length (q_state_reasons q) < 512"

lemma queue_of_fits: "queue_fits (queue_of d)"
  by (simp add: queue_fits_def queue_of_def copy_opt_def min_less_iff_disj)

definition printer_fits :: "ipp_printer \<Rightarrow> bool" where
  "printer_fits p \<longleftrightarrow> length (ip_name p) < 128 \<and> length (ip_uuid p) < 64 \<and> length (ip_make_model p) < 128
     \<and> length (ip_reasons p) < 512 \<and> length (ip_version p) < 64"

lemma attr_string_less: "0 < n \<Longrightarrow> length (attr_string r name tag n) < n"
  by (simp add: attr_string_def split: option.split)

lemma printer_state_fits:
  assumes "m2022_ipp_printer_state env host port resource = (rc, p)"
  shows "printer_fits p"
proof -
  have err: "printer_fits (ipp_printer_zero\<lparr>ip_reasons := snprintf 512 s\<rparr>)" for s
    by (simp add: printer_fits_def ipp_printer_zero_def)
  obtain response last where r: "ie_request env \<lparr>rq_uri = take 511 (ie_uri env host port resource),
      rq_wanted = wanted, rq_resource = resource\<rparr> = (response, last)" by force
  show ?thesis
  proof (cases "ie_connect env host port \<and> response \<noteq> None \<and> last \<le> 7")
    case True
    then obtain a where a: "response = Some a" by blast
    have "length (case a ''printer-state-reasons'' IPP_TAG_KEYWORD of None \<Rightarrow> [] | Some b \<Rightarrow> take 511 (at_text b)) < 512"
      by (simp add: min_less_iff_disj split: option.split)
    then show ?thesis
      using assms r True a by (auto simp: m2022_ipp_printer_state_def Let_def printer_fits_def attr_string_less)
  next
    case False
    then have "\<exists>s. p = ipp_printer_zero\<lparr>ip_reasons := snprintf 512 s\<rparr>"
      using assms r by (cases response) (auto simp: m2022_ipp_printer_state_def Let_def split: if_splits)
    then show ?thesis using err by blast
  qed
qed

lemma printer_state_codes:
  assumes "m2022_ipp_printer_state env host port resource = (rc, p)"
  shows "rc \<in> {0, -1, -2} \<and> (rc = -1 \<longleftrightarrow> \<not> ie_connect env host port)"
proof -
  obtain response last where r: "ie_request env \<lparr>rq_uri = take 511 (ie_uri env host port resource),
      rq_wanted = wanted, rq_resource = resource\<rparr> = (response, last)" by force
  show ?thesis
    using assms r by (cases response) (auto simp: m2022_ipp_printer_state_def Let_def split: if_splits)
qed

end
