(* ===== verification/Service_Inspect.thy ===== *)
theory Service_Inspect
  imports Service_Plan Cups Usb
begin

text \<open>
  Model of how src/service/service.c looks at the machine: the output of a program that is run to ask a
  question (\<open>m2022_run\<close> with a buffer), and \<open>m2022_service_inspect\<close>. Nothing here changes the machine;
  what its parts answer is the environment.
\<close>

section \<open>Asking a program\<close>

text \<open>
  A program that was run with its output in a pipe: whether the pipe and the process could be made, all
  that it writes, what \<open>read\<close> answers at an offset for a room (0 is the end, negative an error), and how
  it ended: \<open>None\<close> is a signal.
\<close>

record child =
  ch_pipe :: bool
  ch_spawn :: int
  ch_output :: string
  ch_read :: "nat \<Rightarrow> nat \<Rightarrow> int"
  ch_wait :: int
  ch_status :: "int option"

text \<open>The loop over \<open>read\<close>: how many bytes are in the buffer of \<open>bufsize\<close> at its end.\<close>

function drain :: "child \<Rightarrow> nat \<Rightarrow> nat \<Rightarrow> nat" where
  "drain c bufsize n =
    (if n + 1 < bufsize then
       let got = ch_read c n (bufsize - 1 - n);
           k = min (nat got) (min (bufsize - 1 - n) (length (ch_output c) - n))
       in if got > 0 \<and> k > 0 then drain c bufsize (n + k) else n
     else n)"
  by pat_completeness auto
termination by (relation "measure (\<lambda>(c, bufsize, n). bufsize - n)") auto

declare drain.simps [simp del]

text \<open>The result, and the text in the buffer.\<close>

definition m2022_run_output :: "child \<Rightarrow> nat \<Rightarrow> int \<times> string" where
  "m2022_run_output c bufsize =
    (if \<not> ch_pipe c then (-1, [])
     else if ch_spawn c \<noteq> 0 then (-1, [])
     else
       let buf = take (drain c bufsize 0) (ch_output c)
       in if ch_wait c < 0 then (-1, buf)
          else (case ch_status c of None \<Rightarrow> (-1, buf) | Some rc \<Rightarrow> (rc, buf)))"

section \<open>The inspection\<close>

text \<open>
  The machine: user IDs are the \<open>pw_uid\<close> of every entry of the user database, in its order;
  \<open>ns_there\<close> is \<open>stat\<close>, \<open>ns_executable\<close> is \<open>access\<close> with \<open>X_OK\<close>.
\<close>

record inspect_env =
  ns_root :: bool
  ns_user :: "string \<Rightarrow> (int \<times> int) option"
  ns_uids :: "int list"
  ns_executable :: "string \<Rightarrow> bool"
  ns_there :: "string \<Rightarrow> bool"
  ns_run :: "string list \<Rightarrow> child"
  ns_usb :: usb_env
  ns_usb_sys :: usb_sys
  ns_dests :: "cups_dest list"
  ns_exec_path :: "string option"
  ns_realpath :: "string \<Rightarrow> string option"

text \<open>The loop over the user database with an array of 256.\<close>

fun uids_in_use :: "int list \<Rightarrow> int list \<Rightarrow> int list" where
  "uids_in_use [] used = used"
| "uids_in_use (u # us) used =
    (if length used < 256 then
       uids_in_use us (if u \<ge> M2022_SERVICE_UID_MIN \<and> u \<le> M2022_SERVICE_UID_MAX then used @ [u] else used)
     else used)"

text \<open>The URI of a queue that DNS-SD found: blanks of the name are written \<open>%20\<close>.\<close>

definition needle_dnssd :: string where
  "needle_dnssd =
    concat (map (\<lambda>c. if c = CHR '' '' then ''%20'' else [c])
      (snprintf 256 (M2022_SERVICE_PRINTER_NAME @ ''._ipp'')))"

definition needle_local :: string where
  "needle_local = snprintf 64 (''localhost:'' @ decimal_int M2022_SERVICE_PORT @ ''/ipp/print'')"

text \<open>One turn of the loop over the queues: vendor queue, our queue and its name.\<close>

definition see_queue :: "cups_queue \<Rightarrow> bool \<times> bool \<times> string \<Rightarrow> bool \<times> bool \<times> string" where
  "see_queue q st =
    (case st of (vendor, ours, name) \<Rightarrow>
       if q_name q = M2022_VENDOR_QUEUE then (True, ours, name)
       else if strstr (q_device_uri q) needle_dnssd \<noteq> None \<or> strstr (q_device_uri q) needle_local \<noteq> None
       then (vendor, True, snprintf 128 (q_name q))
       else st)"

text \<open>
  The printers and the queues are looked at through arrays of 8 and 32 elements; both loops go on to the
  number that was found. The result is \<open>None\<close> when one of them reads behind its array.
\<close>

definition see_printers :: "inspect_env \<Rightarrow> bool option" where
  "see_printers env =
    (case m2022_usb_list (ns_usb env) 8 (ns_usb_sys env) of
       (rc, devs, n, sys) \<Rightarrow>
         if rc \<noteq> 0 then Some False
         else
           let ndev = (case n of None \<Rightarrow> 0 | Some k \<Rightarrow> k)
           in if ndev > length devs then None
              else Some (list_ex (\<lambda>d. vid d = 0x04e8 \<and> pid d = 0x3321) (take ndev devs)))"

definition see_queues :: "inspect_env \<Rightarrow> (bool \<times> bool \<times> string) option" where
  "see_queues env =
    (let (queues, nq) = m2022_cups_queues (ns_dests env) 32
     in if nq > length queues then None else Some (fold see_queue (take nq queues) (False, False, [])))"

definition see_launchd :: "inspect_env \<Rightarrow> launchd_state" where
  "see_launchd env =
    (let (rc, out) = m2022_run_output (ns_run env [''launchctl'', ''print'', ''system/'' @ M2022_SERVICE_LABEL]) 4096
     in if rc \<ge> 0 then m2022_service_parse_launchctl (Some out)
        else \<lparr>loaded = False, running = False, ld_pid = 0\<rparr>)"

definition see_self :: "inspect_env \<Rightarrow> string" where
  "see_self env =
    (case ns_exec_path env of
       None \<Rightarrow> []
     | Some raw \<Rightarrow> (case ns_realpath env raw of None \<Rightarrow> snprintf 1024 raw | Some p \<Rightarrow> p))"

definition m2022_service_inspect :: "inspect_env \<Rightarrow> service_info option" where
  "m2022_service_inspect env =
    (case (see_printers env, see_queues env) of
       (Some printer, Some (vendor, ours, name)) \<Rightarrow>
         let user = ns_user env M2022_SERVICE_USER
         in Some
          \<lparr>as_root = ns_root env,
           user_exists = (user \<noteq> None),
           user_uid = (case user of None \<Rightarrow> 0 | Some (u, g) \<Rightarrow> u),
           user_gid = (case user of None \<Rightarrow> 0 | Some (u, g) \<Rightarrow> g),
           free_uid = m2022_service_pick_uid (uids_in_use (ns_uids env) []),
           binary_installed = ns_executable env M2022_SERVICE_BINARY,
           plist_exists = ns_there env M2022_SERVICE_PLIST,
           launchd = see_launchd env,
           usb_printer = printer,
           vendor_queue = vendor,
           vendor_ppd = ns_there env M2022_VENDOR_PPD,
           vendor_driver = ns_there env M2022_VENDOR_DRIVER_DIR,
           our_queue = ours,
           our_queue_name = name,
           backup_exists = ns_there env (M2022_SERVICE_BACKUP_DIR @ ''/'' @ M2022_VENDOR_QUEUE @ ''.ppd''),
           queue_marker = ns_there env M2022_SERVICE_QUEUE_MARKER,
           support_dir = ns_there env M2022_SERVICE_SUPPORT_DIR,
           spool_dir_there = ns_there env M2022_SERVICE_SPOOL_DIR,
           log_dir = ns_there env M2022_SERVICE_LOG_DIR,
           state_file_there = ns_there env M2022_SERVICE_STATE_FILE,
           log_file_there = ns_there env M2022_SERVICE_LOG_FILE,
           self_path = see_self env\<rparr>
     | _ \<Rightarrow> None)"

section \<open>What a program's output can be\<close>

lemma drain_bound: "n < bufsize \<Longrightarrow> drain c bufsize n < bufsize"
proof (induction c bufsize n rule: drain.induct)
  case (1 c bufsize n)
  then show ?case by (subst drain.simps) (auto simp: Let_def)
qed

lemma run_output_cut: "0 < bufsize \<Longrightarrow> length (snd (m2022_run_output c bufsize)) < bufsize"
  using drain_bound [of 0 bufsize c] by (auto simp: m2022_run_output_def Let_def split: option.splits)

text \<open>A pipe that gives at least a byte while there are any: then everything that fits arrives.\<close>

definition reads_on :: "child \<Rightarrow> bool" where
  "reads_on c \<longleftrightarrow> (\<forall>n room. n < length (ch_output c) \<and> 0 < room \<longrightarrow> 0 < ch_read c n room)"

lemma drain_all:
  "\<lbrakk>reads_on c; n \<le> length (ch_output c); n < bufsize\<rbrakk> \<Longrightarrow> drain c bufsize n = min (length (ch_output c)) (bufsize - 1)"
proof (induction c bufsize n rule: drain.induct)
  case (1 c bufsize n)
  show ?case
  proof (cases "n + 1 < bufsize \<and> n < length (ch_output c)")
    case False
    then show ?thesis using 1(3,4) by (subst drain.simps) (auto simp: Let_def)
  next
    case True
    define got where "got = ch_read c n (bufsize - 1 - n)"
    define k where "k = min (nat got) (min (bufsize - 1 - n) (length (ch_output c) - n))"
    have got: "got > 0" using 1(2) True by (simp add: reads_on_def got_def)
    then have k: "k > 0" "n + k \<le> length (ch_output c)" "n + k < bufsize" using True by (auto simp: k_def)
    have "drain c bufsize (n + k) = min (length (ch_output c)) (bufsize - 1)"
      using 1(1) [OF _ got_def k_def] True got k 1(2) by simp
    moreover have "drain c bufsize n = (if got > 0 \<and> k > 0 then drain c bufsize (n + k) else n)"
      using True by (subst drain.simps) (simp add: Let_def got_def k_def)
    ultimately show ?thesis using got k(1) by simp
  qed
qed

lemma run_output_whole:
  assumes "reads_on c" "0 < bufsize" "ch_pipe c" "ch_spawn c = 0" "ch_wait c \<ge> 0" "ch_status c = Some rc"
  shows "m2022_run_output c bufsize = (rc, take (bufsize - 1) (ch_output c))"
  using drain_all [OF assms(1), of 0 bufsize] assms(2-6)
  by (simp add: m2022_run_output_def Let_def min_def)

lemma uids_in_use_eq:
  "length used \<le> 256 \<Longrightarrow>
   uids_in_use us used = take 256 (used @ filter (\<lambda>u. 300 \<le> u \<and> u \<le> 499) us)"
proof (induction us arbitrary: used)
  case (Cons u us)
  show ?case
  proof (cases "length used < 256")
    case True
    then show ?thesis using Cons.IH [of used] Cons.IH [of "used @ [u]"] by simp
  next
    case False
    then show ?thesis using Cons.prems by simp
  qed
qed simp

lemma fold_see_queue:
  assumes "fold see_queue qs st = (vendor, ours, name)" "case st of (v, u, n) \<Rightarrow> length n < 128 \<and> (\<not> u \<longrightarrow> n = [])"
  shows "length name < 128 \<and> (\<not> ours \<longrightarrow> name = [])"
  using assms
proof (induction qs arbitrary: st)
  case (Cons q qs)
  obtain v u n where st: "st = (v, u, n)" by (metis prod_cases3)
  have "case see_queue q st of (v, u, n) \<Rightarrow> length n < 128 \<and> (\<not> u \<longrightarrow> n = [])"
    using Cons.prems(2) by (simp add: st see_queue_def)
  with Cons.IH [of "see_queue q st"] Cons.prems(1) show ?case by simp
qed auto

lemma find_in: "find P xs = Some x \<Longrightarrow> x \<in> set xs \<and> P x"
  by (auto simp: find_Some_iff)

text \<open>Which arrays are too small.\<close>

lemma see_printers_none:
  "see_printers env = None \<longleftrightarrow>
    init_rc (ns_usb env) = 0 \<and> (\<exists>ds. device_list (ns_usb env) = Inr ds \<and> 8 < length (candidates None ds))"
proof (cases "init_rc (ns_usb env) = 0")
  case False
  then show ?thesis by (simp add: see_printers_def m2022_usb_list_def)
next
  case init: True
  show ?thesis
  proof (cases "device_list (ns_usb env)")
    case (Inl rc)
    then show ?thesis using init by (auto simp: see_printers_def m2022_usb_list_def)
  next
    case (Inr ds)
    then show ?thesis
      using init found_length [of None ds]
      by (simp add: see_printers_def m2022_usb_list_def enumerate_loop_eq Let_def min_def)
  qed
qed

lemma see_queues_none: "see_queues env = None \<longleftrightarrow> 32 < length (real_queues (ns_dests env))"
  by (simp add: see_queues_def cups_queues_eq min_def)

section \<open>Properties\<close>

text \<open>C29: The inspection stays inside its arrays exactly when there are at most eight USB printers and at most
  32 print queues: with a ninth printer or a 33rd queue it reads elements that were never stored.\<close>

theorem inspect_inside_arrays:
  "m2022_service_inspect env \<noteq> None \<longleftrightarrow>
    \<not> (init_rc (ns_usb env) = 0 \<and> (\<exists>ds. device_list (ns_usb env) = Inr ds \<and> 8 < length (candidates None ds)))
    \<and> \<not> 32 < length (real_queues (ns_dests env))"
  unfolding see_printers_none [symmetric] see_queues_none [symmetric] m2022_service_inspect_def
  by (cases "see_printers env"; cases "see_queues env") (auto simp: Let_def)

text \<open>C24: What the inspection returns is well formed: the texts fit the arrays of the struct, a job that runs
  is loaded, a process ID belongs to a running job, the queue has a name only when there is one, and the user
  ID to create is 0 or a hidden one that no user has (while at most 256 users are in that range).\<close>

theorem inspect_well_formed:
  assumes "m2022_service_inspect env = Some i" "\<And>p q. ns_realpath env p = Some q \<Longrightarrow> length q < 1024"
  shows "length (our_queue_name i) < 128 \<and> length (self_path i) < 1024
    \<and> (running (launchd i) \<longrightarrow> loaded (launchd i)) \<and> (ld_pid (launchd i) \<noteq> 0 \<longrightarrow> running (launchd i))
    \<and> (\<not> our_queue i \<longrightarrow> our_queue_name i = [])
    \<and> (\<not> user_exists i \<longrightarrow> user_uid i = 0 \<and> user_gid i = 0)
    \<and> (free_uid i = 0 \<or> 300 \<le> free_uid i \<and> free_uid i \<le> 499
        \<and> (length (filter (\<lambda>u. 300 \<le> u \<and> u \<le> 499) (ns_uids env)) \<le> 256 \<longrightarrow> free_uid i \<notin> set (ns_uids env)))"
proof -
  obtain printer vendor ours name where p: "see_printers env = Some printer"
    and q: "see_queues env = Some (vendor, ours, name)"
    using assms(1) by (auto simp: m2022_service_inspect_def split: option.splits)
  have name: "length name < 128 \<and> (\<not> ours \<longrightarrow> name = [])"
  proof -
    have "\<exists>qs. fold see_queue qs (False, False, []) = (vendor, ours, name)"
      using q by (auto simp: see_queues_def case_prod_unfold Let_def split: if_splits)
    then show ?thesis using fold_see_queue by fastforce
  qed
  have self: "length (see_self env) < 1024"
    using assms(2) by (auto simp: see_self_def split: option.splits)
  have ld: "(running (see_launchd env) \<longrightarrow> loaded (see_launchd env))
      \<and> (ld_pid (see_launchd env) \<noteq> 0 \<longrightarrow> running (see_launchd env))"
    by (auto simp: see_launchd_def m2022_service_parse_launchctl_def Let_def case_prod_unfold split: option.splits)
  define used where "used = uids_in_use (ns_uids env) []"
  define f where "f = m2022_service_pick_uid used"
  have f: "f = (case find (\<lambda>u. u \<notin> set used) [300 .. 499] of None \<Rightarrow> 0 | Some u \<Rightarrow> u)"
    unfolding f_def m2022_service_pick_uid_def by (rule pick_from_find)
  have uid: "f = 0 \<or> 300 \<le> f \<and> f \<le> 499 \<and> f \<notin> set used"
  proof (cases "find (\<lambda>u. u \<notin> set used) [300 .. 499]")
    case (Some u)
    from find_in [OF this] have "u \<in> {300 .. 499}" "u \<notin> set used" unfolding set_upto by blast+
    then show ?thesis using f unfolding Some by simp
  qed (simp add: f)
  have "f \<notin> set (ns_uids env)"
    if "300 \<le> f" "f \<le> 499" "f \<notin> set used" "length (filter (\<lambda>u. 300 \<le> u \<and> u \<le> 499) (ns_uids env)) \<le> 256"
    using that by (simp add: used_def uids_in_use_eq)
  moreover have "our_queue_name i = name" "self_path i = see_self env" "launchd i = see_launchd env"
    "our_queue i = ours" "free_uid i = f" "\<not> user_exists i \<longrightarrow> user_uid i = 0 \<and> user_gid i = 0"
    using assms(1)
    by (cases "ns_user env M2022_SERVICE_USER"; auto simp: m2022_service_inspect_def p q f_def used_def Let_def)+
  ultimately show ?thesis using name self ld uid by simp blast
qed

text \<open>A machine without printers, on which the service runs.\<close>

definition quiet_machine :: inspect_env where
  "quiet_machine =
    \<lparr>ns_root = False, ns_user = (\<lambda>_. None), ns_uids = [0, 300], ns_executable = (\<lambda>_. True), ns_there = (\<lambda>_. True),
     ns_run = (\<lambda>_. \<lparr>ch_pipe = True, ch_spawn = 0, ch_output = ''state = running'', ch_read = (\<lambda>_ n. int n),
                  ch_wait = 0, ch_status = Some 0\<rparr>),
     ns_usb = \<lparr>init_rc = 0, device_list = Inr [], usb_alloc = True\<rparr>, ns_usb_sys = no_usb, ns_dests = [],
     ns_exec_path = Some ''/tmp/m'', ns_realpath = (\<lambda>_. None)\<rparr>"

lemma inspect_well_formed_witness:
  "\<exists>i. m2022_service_inspect quiet_machine = Some i \<and> length (self_path i) < 1024
    \<and> (free_uid i = 0 \<or> free_uid i \<notin> {0, 300})"
proof -
  have "m2022_service_inspect quiet_machine \<noteq> None"
    by (simp add: m2022_service_inspect_def see_printers_def see_queues_def quiet_machine_def
        m2022_usb_list_def m2022_cups_queues_def Let_def)
  then obtain i where i: "m2022_service_inspect quiet_machine = Some i" by blast
  have "length q < 1024" if "ns_realpath quiet_machine p = Some q" for p q
    using that by (simp add: quiet_machine_def)
  from inspect_well_formed [OF i this] i show ?thesis by (auto simp: quiet_machine_def)
qed

end
