(* ===== verification/Service_Commands.thy ===== *)
theory Service_Commands
  imports Service_Exec Service_Inspect
begin

text \<open>
  Model of the printing of plans in src/service/service.c and of the other commands of
  src/cli/cmd_service.c: install, uninstall, remove-vendor-driver, status and logs. Their calls go to the
  machine of the theory \<open>Service_Exec\<close>; the exit status and the text on the terminal are the results.
\<close>

section \<open>Printing a plan\<close>

text \<open>A word of a RUN step, with the blank before it.\<close>

definition print_arg :: "string \<Rightarrow> string" where
  "print_arg a =
    (if CHR 0x27 \<in> set a then '' '' @ dquote @ a @ dquote
     else if CHR '' '' \<in> set a \<or> a = [] then '' '' @ [CHR 0x27] @ a @ [CHR 0x27]
     else '' '' @ a)"

definition print_step :: "step \<Rightarrow> string" where
  "print_step s =
    (case kind s of
       M2022_STEP_RUN \<Rightarrow> ''+'' @ concat (map print_arg (argv s)) @ newline
     | M2022_STEP_WRITE \<Rightarrow>
         ''+ write '' @ path s @ '' ('' @ decimal (case content s of None \<Rightarrow> 0 | Some t \<Rightarrow> length t)
         @ '' bytes, mode '' @ octal4 (mode s) @ '')'' @ newline
     | M2022_STEP_MKDIR \<Rightarrow>
         ''+ mkdir -p '' @ q1 (path s) @ '' (mode '' @ octal4 (mode s)
         @ (if owner s \<noteq> [] then '', owner '' else []) @ owner s @ '')'' @ newline
     | M2022_STEP_COPY \<Rightarrow>
         ''+ cp '' @ q1 (src s) @ '' '' @ q1 (path s) @ '' (mode '' @ octal4 (mode s) @ '')'' @ newline
     | M2022_STEP_REMOVE \<Rightarrow> ''+ rm -f '' @ q1 (path s) @ newline
     | M2022_STEP_WAIT_IPP \<Rightarrow> ''+ wait for IPP on localhost:'' @ decimal_int (step_port s) @ newline
     | M2022_STEP_NOTE \<Rightarrow> ''# '' @ step_text s @ newline)"

definition m2022_plan_print :: "step list \<Rightarrow> string" where
  "m2022_plan_print plan =
    concat (map (\<lambda>s. (if kind s \<noteq> M2022_STEP_NOTE then ''# '' @ step_text s @ newline else []) @ print_step s) plan)"

section \<open>Running a plan\<close>

text \<open>
  \<open>run_plan\<close> with what a dry run prints; the steps that are carried out print themselves, which is not
  repeated here.
\<close>

definition run_plan_text :: "bool \<Rightarrow> step list \<Rightarrow> string" where
  "run_plan_text dry_run plan =
    (if dry_run then ''# dry run: nothing below is executed'' @ newline @ m2022_plan_print plan else [])"

section \<open>install, uninstall, remove-vendor-driver\<close>

record install_choices =
  il_dry_run :: bool
  il_opts :: plan_options
  il_params :: service_params

definition no_options :: plan_options where
  "no_options = \<lparr>purge = False, keep_vendor = False, test_page = False\<rparr>"

function install_args_loop :: "string list \<Rightarrow> install_choices \<Rightarrow> install_choices option" where
  "install_args_loop [] a = Some a"
| "install_args_loop (arg # rest) a =
    (if arg = ''--dry-run'' then install_args_loop rest (a\<lparr>il_dry_run := True\<rparr>)
     else if arg = ''--keep-vendor-queue'' then
       install_args_loop rest (a\<lparr>il_opts := (il_opts a)\<lparr>keep_vendor := True\<rparr>\<rparr>)
     else if arg = ''--test-page'' then install_args_loop rest (a\<lparr>il_opts := (il_opts a)\<lparr>test_page := True\<rparr>\<rparr>)
     else if arg = ''--name'' \<and> rest \<noteq> [] then
       install_args_loop (tl rest) (a\<lparr>il_params := (il_params a)\<lparr>printer_name := Some (hd rest)\<rparr>\<rparr>)
     else if arg = ''--port'' \<and> rest \<noteq> [] then
       install_args_loop (tl rest) (a\<lparr>il_params := (il_params a)\<lparr>sp_port := atoi (hd rest)\<rparr>\<rparr>)
     else None)"
  by pat_completeness auto
termination by (relation "measure (\<lambda>(args, a). length args)") auto

definition install_args :: "string list \<Rightarrow> install_choices option" where
  "install_args args =
    install_args_loop args
      \<lparr>il_dry_run = False, il_opts = no_options, il_params = \<lparr>printer_name = None, sp_port = 0\<rparr>\<rparr>"

text \<open>\<open>None\<close> is a read behind an array of the inspection.\<close>

definition cmd_install ::
  "machine \<Rightarrow> inspect_env \<Rightarrow> string list \<Rightarrow> trace \<Rightarrow> (int \<times> trace \<times> string) option" where
  "cmd_install mc env args tr =
    (case install_args args of
       None \<Rightarrow> Some (2, tr, [])
     | Some a \<Rightarrow>
         (case m2022_service_inspect env of
            None \<Rightarrow> None
          | Some i \<Rightarrow>
              Some (case m2022_service_install_plan i (Some (il_params a)) (Some (il_opts a)) of
                Inl why \<Rightarrow> (2, tr, [])
              | Inr plan \<Rightarrow>
                  (case run_plan mc (ns_root env) plan (il_dry_run a) tr of
                     (rc, tr') \<Rightarrow> (rc, tr', run_plan_text (il_dry_run a) plan)))))"

fun uninstall_args :: "string list \<Rightarrow> bool \<Rightarrow> plan_options \<Rightarrow> (bool \<times> plan_options) option" where
  "uninstall_args [] dry opts = Some (dry, opts)"
| "uninstall_args (arg # rest) dry opts =
    (if arg = ''--dry-run'' then uninstall_args rest True opts
     else if arg = ''--purge'' then uninstall_args rest dry (opts\<lparr>purge := True\<rparr>)
     else None)"

definition cmd_uninstall ::
  "machine \<Rightarrow> inspect_env \<Rightarrow> string list \<Rightarrow> trace \<Rightarrow> (int \<times> trace \<times> string) option" where
  "cmd_uninstall mc env args tr =
    (case uninstall_args args False no_options of
       None \<Rightarrow> Some (2, tr, [])
     | Some (dry, opts) \<Rightarrow>
         (case m2022_service_inspect env of
            None \<Rightarrow> None
          | Some i \<Rightarrow>
              Some (case m2022_service_uninstall_plan i (Some opts) of
                Inl why \<Rightarrow> (2, tr, [])
              | Inr plan \<Rightarrow>
                  (case run_plan mc (ns_root env) plan dry tr of
                     (rc, tr') \<Rightarrow> (rc, tr', run_plan_text dry plan)))))"

fun remove_vendor_args :: "string list \<Rightarrow> bool \<Rightarrow> bool option" where
  "remove_vendor_args [] dry = Some dry"
| "remove_vendor_args (arg # rest) dry = (if arg = ''--dry-run'' then remove_vendor_args rest True else None)"

definition cmd_remove_vendor ::
  "machine \<Rightarrow> inspect_env \<Rightarrow> string list \<Rightarrow> trace \<Rightarrow> (int \<times> trace \<times> string) option" where
  "cmd_remove_vendor mc env args tr =
    (case remove_vendor_args args False of
       None \<Rightarrow> Some (2, tr, [])
     | Some dry \<Rightarrow>
         (case m2022_service_inspect env of
            None \<Rightarrow> None
          | Some i \<Rightarrow>
              Some (case m2022_service_remove_vendor_plan i of
                Inl why \<Rightarrow> (2, tr, [])
              | Inr plan \<Rightarrow>
                  (case run_plan mc (ns_root env) plan dry tr of
                     (rc, tr') \<Rightarrow> (rc, tr', run_plan_text dry plan)))))"

section \<open>status and logs\<close>

text \<open>An unknown option of status is skipped.\<close>

function status_port :: "string list \<Rightarrow> int \<Rightarrow> int" where
  "status_port [] port = port"
| "status_port (arg # rest) port =
    (if arg = ''--port'' \<and> rest \<noteq> [] then status_port (tl rest) (atoi (hd rest)) else status_port rest port)"
  by pat_completeness auto
termination by (relation "measure (\<lambda>(args, p). length args)") auto

definition status_text :: "service_info \<Rightarrow> int \<Rightarrow> int \<Rightarrow> ipp_printer \<Rightarrow> string" where
  "status_text i port rc ipp =
    ''service:  '' @
      (if \<not> plist_exists i then ''not installed''
       else if \<not> loaded (launchd i) then ''installed, not loaded (m2022-airbridge start)''
       else if running (launchd i) then ''running'' else ''loaded, not running (launchd will retry)'') @ newline
    @ (if ld_pid (launchd i) > 0 then ''pid:      '' @ decimal_int (ld_pid (launchd i)) @ newline else [])
    @ ''printer:  '' @ (if usb_printer i then ''Samsung SL-M2022 on USB'' else ''no SL-M2022 on USB'') @ newline
    @ (if rc = 0 then
         ''ipp:      '' @ ip_name ipp @ '' on port '' @ decimal_int port @ '', ''
         @ m2022_cups_state_name (ip_state ipp)
         @ (if ip_reasons ipp \<noteq> [] \<and> ip_reasons ipp \<noteq> ''none'' then '', '' @ ip_reasons ipp else []) @ newline
       else ''ipp:      no answer on localhost:'' @ decimal_int port @ '' ('' @ ip_reasons ipp @ '')'' @ newline)
    @ ''queue:    '' @ (if our_queue i then our_queue_name i else ''none on this Mac'') @ newline
    @ (if vendor_queue i then
         ''warning:  the Samsung queue '' @ M2022_VENDOR_QUEUE
         @ '' still exists; do not print to both (ADR-006)'' @ newline else [])
    @ ''log:      '' @ M2022_SERVICE_LOG_FILE @ newline"

definition cmd_status :: "inspect_env \<Rightarrow> ipp_env \<Rightarrow> string list \<Rightarrow> (int \<times> string) option" where
  "cmd_status env ienv args =
    (let port = status_port args M2022_SERVICE_PORT
     in case m2022_service_inspect env of
          None \<Rightarrow> None
        | Some i \<Rightarrow>
            let (rc, ipp) = m2022_ipp_printer_state ienv ''localhost'' port ''/ipp/print''
            in Some (if running (launchd i) \<and> rc = 0 \<and> ip_state ipp \<noteq> 5 then 0 else 1,
                     status_text i port rc ipp))"

function logs_args :: "string list \<Rightarrow> string \<Rightarrow> bool \<Rightarrow> (string \<times> bool) option" where
  "logs_args [] n follow = Some (n, follow)"
| "logs_args (arg # rest) n follow =
    (if arg = ''-n'' \<and> rest \<noteq> [] then logs_args (tl rest) (hd rest) follow
     else if arg = ''-f'' then logs_args rest n True
     else None)"
  by pat_completeness auto
termination by (relation "measure (\<lambda>(args, n, f). length args)") auto

text \<open>The exit status, or the program that takes the process over; \<open>execs\<close> is whether \<open>execvp\<close> succeeds.\<close>

definition cmd_logs :: "bool \<Rightarrow> bool \<Rightarrow> string list \<Rightarrow> int + string list" where
  "cmd_logs readable execs args =
    (case logs_args args ''100'' False of
       None \<Rightarrow> Inl 2
     | Some (n, follow) \<Rightarrow>
         if \<not> readable then Inl 2
         else
           let tail_argv = [''tail'', ''-n'', n] @ (if follow then [''-f''] else []) @ [M2022_SERVICE_LOG_FILE]
           in if execs then Inr tail_argv else Inl 2)"

section \<open>Reading a printed command\<close>

text \<open>How a shell splits a line into words: blanks separate, both quotes group. Expansions are left out.\<close>

datatype quoting = Plain | Single | Double

fun sh_split :: "quoting \<Rightarrow> string option \<Rightarrow> string \<Rightarrow> string list option" where
  "sh_split q w [] = (if q = Plain then Some (case w of None \<Rightarrow> [] | Some v \<Rightarrow> [v]) else None)"
| "sh_split q w (c # cs) =
    (let v = (case w of None \<Rightarrow> [] | Some v \<Rightarrow> v)
     in case q of
          Plain \<Rightarrow>
            if c = CHR '' '' \<or> c = CHR 0x0A then
              (case w of None \<Rightarrow> sh_split Plain None cs
               | Some v \<Rightarrow> map_option ((#) v) (sh_split Plain None cs))
            else if c = CHR 0x27 then sh_split Single (Some v) cs
            else if c = CHR 0x22 then sh_split Double (Some v) cs
            else sh_split Plain (Some (v @ [c])) cs
        | Single \<Rightarrow> if c = CHR 0x27 then sh_split Plain (Some v) cs else sh_split Single (Some (v @ [c])) cs
        | Double \<Rightarrow> if c = CHR 0x22 then sh_split Plain (Some v) cs else sh_split Double (Some (v @ [c])) cs)"

lemma split_single: "CHR 0x27 \<notin> set a \<Longrightarrow> sh_split Single (Some v) (a @ CHR 0x27 # rest) = sh_split Plain (Some (v @ a)) rest"
  by (induction a arbitrary: v) auto

lemma split_double: "CHR 0x22 \<notin> set a \<Longrightarrow> sh_split Double (Some v) (a @ CHR 0x22 # rest) = sh_split Plain (Some (v @ a)) rest"
  by (induction a arbitrary: v) auto

lemma split_plain:
  "set a \<inter> {CHR '' '', CHR 0x0A, CHR 0x27, CHR 0x22} = {} \<Longrightarrow>
     sh_split Plain (Some v) (a @ rest) = sh_split Plain (Some (v @ a)) rest"
  by (induction a arbitrary: v) auto

lemma split_plain_start:
  "a \<noteq> [] \<Longrightarrow> set a \<inter> {CHR '' '', CHR 0x0A, CHR 0x27, CHR 0x22} = {} \<Longrightarrow>
     sh_split Plain None (a @ rest) = sh_split Plain (Some a) rest"
  using split_plain [of "tl a" "[hd a]" rest] by (cases a) auto

text \<open>Words that the printing keeps apart: no line break, and a double quote only inside single quotes.\<close>

definition word_ok :: "string \<Rightarrow> bool" where
  "word_ok a \<longleftrightarrow> CHR 0x0A \<notin> set a \<and> (CHR 0x22 \<in> set a \<longrightarrow> CHR '' '' \<in> set a \<and> CHR 0x27 \<notin> set a)"

lemma split_print_arg:
  assumes "word_ok a" "rest \<noteq> []" "hd rest \<in> {CHR '' '', CHR 0x0A}"
  shows "sh_split Plain None (print_arg a @ rest) = map_option ((#) a) (sh_split Plain None rest)"
proof -
  obtain r rs where rest: "rest = r # rs" "r = CHR '' '' \<or> r = CHR 0x0A" using assms(2,3) by (cases rest) auto
  have stop: "sh_split Plain (Some a) rest = map_option ((#) a) (sh_split Plain None rest)"
    using rest by auto
  consider "CHR 0x27 \<in> set a" | "CHR 0x27 \<notin> set a" "CHR '' '' \<in> set a \<or> a = []"
    | "CHR 0x27 \<notin> set a" "CHR '' '' \<notin> set a" "a \<noteq> []" by blast
  then show ?thesis
  proof cases
    case 1
    then have "CHR 0x22 \<notin> set a" using assms(1) by (auto simp: word_ok_def)
    with 1 split_double [of a "[]" rest] stop show ?thesis by (simp add: print_arg_def)
  next
    case 2
    with split_single [of a "[]" rest] stop show ?thesis by (auto simp: print_arg_def)
  next
    case 3
    then have "set a \<inter> {CHR '' '', CHR 0x0A, CHR 0x27, CHR 0x22} = {}" using assms(1) by (auto simp: word_ok_def)
    with 3 split_plain_start [of a rest] stop show ?thesis by (simp add: print_arg_def)
  qed
qed

lemma split_print_args:
  "list_all word_ok as \<Longrightarrow> sh_split Plain None (concat (map print_arg as) @ newline) = Some as"
proof (induction as)
  case (Cons a as)
  have "concat (map print_arg as) @ newline \<noteq> []" by simp
  moreover have "hd (concat (map print_arg as) @ newline) \<in> {CHR '' '', CHR 0x0A}"
    by (cases as) (auto simp: print_arg_def)
  ultimately show ?case
    using Cons split_print_arg [of a "concat (map print_arg as) @ newline"] by simp
qed simp

section \<open>Properties\<close>

text \<open>What a plan prints for a command is the command: a shell reads the words of the line as the
  arguments that are run, when a word holds no line break and a double quote only next to a blank and
  without a single quote.\<close>

theorem printed_command_reads_back:
  assumes "kind s = M2022_STEP_RUN" "list_all word_ok (argv s)"
  shows "sh_split Plain None (tl (print_step s)) = Some (argv s)"
  using split_print_args [OF assms(2)] assms(1) by (simp add: print_step_def)

lemma printed_command_reads_back_witness:
  "sh_split Plain None (tl (print_step (run ''user name'' [''dscl'', ''.'', ''M2022 AirBridge'', ''$x'']))) =
    Some [''dscl'', ''.'', ''M2022 AirBridge'', ''$x'']"
proof -
  have "argv (run ''user name'' [''dscl'', ''.'', ''M2022 AirBridge'', ''$x'']) = [''dscl'', ''.'', ''M2022 AirBridge'', ''$x'']"
    by (simp add: run_def)
  moreover have "kind (run ''user name'' [''dscl'', ''.'', ''M2022 AirBridge'', ''$x'']) = M2022_STEP_RUN"
    by (simp add: run_def new_step_def)
  ultimately show ?thesis
    using printed_command_reads_back [of "run ''user name'' [''dscl'', ''.'', ''M2022 AirBridge'', ''$x'']"]
    by (simp add: word_ok_def)
qed

text \<open>C25: A command that is asked for a dry run, or run by somebody else than root, makes no call that could
  change the machine: install, uninstall and remove-vendor-driver return with the trace of calls as it was.\<close>

theorem dry_run_changes_nothing:
  "(\<forall>a rc tr' out. install_args args = Some a \<and> (il_dry_run a \<or> \<not> ns_root env)
        \<and> cmd_install mc env args tr = Some (rc, tr', out) \<longrightarrow> tr' = tr)
   \<and> (\<forall>dry opts rc tr' out. uninstall_args args False no_options = Some (dry, opts) \<and> (dry \<or> \<not> ns_root env)
        \<and> cmd_uninstall mc env args tr = Some (rc, tr', out) \<longrightarrow> tr' = tr)
   \<and> (\<forall>dry rc tr' out. remove_vendor_args args False = Some dry \<and> (dry \<or> \<not> ns_root env)
        \<and> cmd_remove_vendor mc env args tr = Some (rc, tr', out) \<longrightarrow> tr' = tr)"
proof -
  have quiet: "snd (run_plan mc (ns_root env) plan dry tr) = tr" if "dry \<or> \<not> ns_root env" for plan dry
    using that by (auto simp: run_plan_def)
  have same: "tr1 = tr" if "run_plan mc (ns_root env) plan dry tr = (rc, tr1)" "dry \<or> \<not> ns_root env" for plan dry rc tr1
    using quiet [OF that(2), of plan] that(1) by simp
  show ?thesis
    by (intro conjI allI impI)
      (auto simp: cmd_install_def cmd_uninstall_def cmd_remove_vendor_def dest: same
        split: option.splits sum.splits prod.splits)
qed

lemma dry_run_changes_nothing_witness:
  "\<exists>rc out. cmd_install \<lparr>answer = (\<lambda>_ _. 0), contents = (\<lambda>_ _. []), reads = (\<lambda>_ _. 65536), passwd = (\<lambda>_. None), groups = (\<lambda>_. None)\<rparr>
      quiet_machine [''--dry-run''] [Sleep] = Some (rc, [Sleep], out)"
proof -
  define mc where "mc = \<lparr>answer = (\<lambda>_ _. 0), contents = (\<lambda>_ _. []), reads = (\<lambda>_ _. 65536), passwd = (\<lambda>_. None), groups = (\<lambda>_. None)\<rparr>"
  obtain a where a: "install_args [''--dry-run''] = Some a" "il_dry_run a" by (simp add: install_args_def)
  obtain i where "m2022_service_inspect quiet_machine = Some i"
    by (simp add: m2022_service_inspect_def see_printers_def see_queues_def quiet_machine_def
        m2022_usb_list_def m2022_cups_queues_def Let_def)
  then obtain x where "cmd_install mc quiet_machine [''--dry-run''] [Sleep] = Some x"
    using a by (simp add: cmd_install_def)
  then obtain rc tr' out where r: "cmd_install mc quiet_machine [''--dry-run''] [Sleep] = Some (rc, tr', out)"
    by (cases x) auto
  moreover have "tr' = [Sleep]"
    using dry_run_changes_nothing [of "[''--dry-run'']" quiet_machine mc "[Sleep]"] a r by blast
  ultimately show ?thesis by (auto simp: mc_def)
qed

text \<open>The command that restores the Samsung queue is printed inside double quotes although it holds some: read
  back as a shell line it is another command.\<close>

lemma restore_line_misread:
  assumes "backup_exists i" "\<not> vendor_queue i"
  shows "\<exists>s. restore_steps i = [s] \<and> sh_split Plain None (tl (print_step s)) \<noteq> Some (argv s)"
proof -
  define s where "s = run_ignoring ''restore the Samsung queue from the backup (needs the vendor driver)''
     (sh (''lpadmin -p '' @ M2022_VENDOR_QUEUE @ '' -E -v '' @ quoted (''$(cat ''
          @ q1 (M2022_SERVICE_BACKUP_DIR @ ''/device-uri.txt'') @ '')'') @ '' -P ''
          @ q1 (M2022_SERVICE_BACKUP_DIR @ ''/'' @ M2022_VENDOR_QUEUE @ ''.ppd'')))"
  have "restore_steps i = [s]" using assms by (simp add: restore_steps_def s_def)
  moreover have "sh_split Plain None (tl (print_step s)) \<noteq> Some (argv s)" unfolding s_def by code_simp
  ultimately show ?thesis by blast
qed

end
