(* ===== verification/Service_Files.thy ===== *)
theory Service_Files
  imports Service_Exec
begin

text \<open>
  What the plans of src/service/service.c leave on the disk: the regular files with their contents and modes
  as the calls of a trace change them, what a step of each kind makes of them, and what install and uninstall
  add up to. The programs that a plan runs are taken not to touch the files that are looked at here.
\<close>

section \<open>The disk\<close>

type_synonym disk = "string \<rightharpoonup> string \<times> nat"

text \<open>A new file gets the mode 0666 under the usual umask. A call that failed has no effect.\<close>

fun disk_effect :: "sysc \<Rightarrow> disk \<Rightarrow> disk" where
  "disk_effect (OpenWrite p) d = d(p \<mapsto> ([], case d p of None \<Rightarrow> 420 | Some (t, m) \<Rightarrow> m))"
| "disk_effect (Puts p s) d = (case d p of None \<Rightarrow> d | Some (t, m) \<Rightarrow> d(p \<mapsto> (t @ s, m)))"
| "disk_effect (Chmod p m) d = (case d p of None \<Rightarrow> d | Some (t, _) \<Rightarrow> d(p \<mapsto> (t, m)))"
| "disk_effect (Rename a b) d = (case d a of None \<Rightarrow> d | Some f \<Rightarrow> (d(a := None))(b \<mapsto> f))"
| "disk_effect (Unlink p) d = d(p := None)"
| "disk_effect _ d = d"

fun disk_from :: "machine \<Rightarrow> trace \<Rightarrow> trace \<Rightarrow> disk \<Rightarrow> disk" where
  "disk_from mc tr [] d = d"
| "disk_from mc tr (c # cs) d = disk_from mc (tr @ [c]) cs (if answer mc tr c = 0 then disk_effect c d else d)"

definition disk_after :: "machine \<Rightarrow> disk \<Rightarrow> trace \<Rightarrow> disk" where
  "disk_after mc d tr = disk_from mc [] tr d"

lemma disk_from_append: "disk_from mc tr (xs @ ys) d = disk_from mc (tr @ xs) ys (disk_from mc tr xs d)"
  by (induction xs arbitrary: tr d) simp_all

lemma disk_after_call:
  "call mc c tr = (rc, tr') \<Longrightarrow>
   disk_after mc d tr' = (if rc = 0 then disk_effect c (disk_after mc d tr) else disk_after mc d tr)"
  by (auto simp: call_def disk_after_def disk_from_append)

text \<open>The calls that change what is at a path.\<close>

fun alters :: "string \<Rightarrow> sysc \<Rightarrow> bool" where
  "alters q (OpenWrite p) = (p = q)"
| "alters q (Puts p s) = (p = q)"
| "alters q (Chmod p m) = (p = q)"
| "alters q (Rename a b) = (a = q \<or> b = q)"
| "alters q (Unlink p) = (p = q)"
| "alters q _ = False"

lemma disk_effect_other: "\<not> alters q c \<Longrightarrow> disk_effect c d q = d q"
  by (cases c) (auto split: option.splits)

lemma disk_unaltered:
  assumes "calls_since tr tr' (\<lambda>c. \<not> alters q c)"
  shows "disk_after mc d tr' q = disk_after mc d tr q"
proof -
  have "disk_from mc tr cs d q = d q" if "list_all (\<lambda>c. \<not> alters q c) cs" for cs tr d
    using that by (induction cs arbitrary: tr d) (simp_all add: disk_effect_other)
  then show ?thesis using assms by (auto simp: calls_since_def disk_after_def disk_from_append)
qed

section \<open>Steps\<close>

text \<open>The paths that a step works on.\<close>

definition step_alters :: "string \<Rightarrow> step \<Rightarrow> bool" where
  "step_alters q s \<longleftrightarrow>
    (case kind s of
       M2022_STEP_WRITE \<Rightarrow> path s = q
     | M2022_STEP_MKDIR \<Rightarrow> snprintf 512 (path s) = q
     | M2022_STEP_COPY \<Rightarrow> q = path s \<or> q = snprintf 600 (path s @ ''.new'')
     | M2022_STEP_REMOVE \<Rightarrow> path s = q
     | _ \<Rightarrow> False)"

lemma step_call_alters: "step_call s c \<Longrightarrow> alters q c \<Longrightarrow> step_alters q s"
  by (auto simp: step_call_def step_alters_def Let_def split: step_kind.splits)

lemma step_unaltered:
  "\<not> step_alters q s \<Longrightarrow> disk_after mc d (snd (do_step mc s tr)) q = disk_after mc d tr q"
  by (rule disk_unaltered, rule calls_since_mono [OF do_step_calls]) (use step_call_alters in blast)

lemma execute_unaltered:
  "execute_from mc plan i tr = (r, tr') \<Longrightarrow> list_all (\<lambda>s. \<not> step_alters q s) plan \<Longrightarrow>
   disk_after mc d tr' q = disk_after mc d tr q"
proof (induction plan arbitrary: i tr)
  case (Cons s plan)
  obtain rc tr1 where s: "do_step mc s tr = (rc, tr1)" by force
  then have "disk_after mc d tr1 q = disk_after mc d tr q"
    using step_unaltered [of q s mc d tr] Cons.prems(2) by simp
  with Cons s show ?case by (auto split: if_splits)
qed simp

text \<open>A WRITE step leaves the text with the mode.\<close>

lemma write_file_disk:
  assumes "write_file mc p s m tr = (0, tr')"
  shows "disk_after mc d tr' p = Some (s, m)"
proof -
  obtain t1 where a: "call mc (OpenWrite p) tr = (0, t1)" and r: "write_file mc p s m tr
      = (let (rc2, tr2) = call mc (Puts p s) t1
         in if rc2 \<noteq> 0 then (-1, tr2)
            else let (rc3, tr3) = call mc (CloseFile p) tr2 in if rc3 \<noteq> 0 then (-1, tr3) else call mc (Chmod p m) tr3)"
    using assms by (cases "call mc (OpenWrite p) tr") (auto simp: write_file_def split: if_splits)
  obtain t2 t3 where b: "call mc (Puts p s) t1 = (0, t2)" and c: "call mc (CloseFile p) t2 = (0, t3)"
    and e: "call mc (Chmod p m) t3 = (0, tr')"
    using assms r by (auto split: if_splits prod.splits)
  have "\<exists>m'. disk_after mc d t1 p = Some ([], m')" using disk_after_call [OF a, of d] by simp
  then have "\<exists>m'. disk_after mc d t2 p = Some (s, m')" using disk_after_call [OF b, of d] by auto
  then have "\<exists>m'. disk_after mc d t3 p = Some (s, m')" using disk_after_call [OF c, of d] by simp
  then show ?thesis using disk_after_call [OF e, of d] by auto
qed

text \<open>A COPY step leaves what it read of the source with the mode, by way of the file next to it.\<close>

lemma puts_disk:
  "\<lbrakk>all_answered mc tr (map (Puts tmp) chunks); disk_after mc d tr tmp = Some (x, m)\<rbrakk>
   \<Longrightarrow> disk_after mc d (tr @ map (Puts tmp) chunks) tmp = Some (x @ concat chunks, m)"
proof (induction chunks arbitrary: tr x)
  case (Cons ch chunks)
  have "disk_after mc d (tr @ [Puts tmp ch]) tmp = Some (x @ ch, m)"
    using Cons.prems disk_after_call [of mc "Puts tmp ch" tr 0 _ d] by (simp add: call_def)
  from Cons.IH [OF _ this] Cons.prems(1) show ?case by simp
qed simp

lemma install_file_disk:
  assumes "install_file mc from_path dst m tr = (0, tr')" "dst \<noteq> snprintf 600 (dst @ ''.new'')"
  shows "\<exists>bin. disk_after mc d tr' dst = Some (bin, m)
    \<and> copied mc from_path (contents mc (tr @ [OpenRead from_path]) from_path) bin"
proof -
  define tmp where "tmp = snprintf 600 (dst @ ''.new'')"
  from install_file_calls [OF assms(1) tmp_def] obtain chunks where
    tr': "tr' = tr @ save_calls from_path tmp m chunks @ [Rename tmp dst]"
    and saved: "all_answered mc tr (save_calls from_path tmp m chunks)"
    and put: "answer mc (tr @ save_calls from_path tmp m chunks) (Rename tmp dst) = 0"
    and whole: "copied mc from_path (contents mc (tr @ [OpenRead from_path]) from_path) (concat chunks)"
    by (auto simp: renamed_def split: if_splits)
  define t2 where "t2 = tr @ [OpenRead from_path, OpenWrite tmp]"
  define t3 where "t3 = t2 @ map (Puts tmp) chunks"
  have ok: "answer mc (tr @ [OpenRead from_path]) (OpenWrite tmp) = 0" "all_answered mc t2 (map (Puts tmp) chunks)"
    "answer mc t3 (CloseFile tmp) = 0" "answer mc (t3 @ [CloseFile tmp]) (Chmod tmp m) = 0"
    using saved by (simp_all add: save_calls_def all_answered_append t2_def t3_def)
  have "\<exists>m'. disk_after mc d t2 tmp = Some ([], m')"
    using disk_after_call [of mc "OpenWrite tmp" "tr @ [OpenRead from_path]" 0 t2 d] ok(1)
    by (simp add: call_def t2_def)
  then obtain m' where "disk_after mc d t3 tmp = Some (concat chunks, m')"
    using puts_disk [OF ok(2)] by (fastforce simp: t3_def)
  then have "disk_after mc d (t3 @ [CloseFile tmp]) tmp = Some (concat chunks, m')"
    using disk_after_call [of mc "CloseFile tmp" t3 0 _ d] ok(3) by (simp add: call_def)
  then have "disk_after mc d (t3 @ [CloseFile tmp] @ [Chmod tmp m]) tmp = Some (concat chunks, m)"
    using disk_after_call [of mc "Chmod tmp m" "t3 @ [CloseFile tmp]" 0 _ d] ok(4) by (simp add: call_def)
  moreover have "tr' = (t3 @ [CloseFile tmp] @ [Chmod tmp m]) @ [Rename tmp dst]"
    "t3 @ [CloseFile tmp] @ [Chmod tmp m] = tr @ save_calls from_path tmp m chunks"
    by (simp_all add: tr' save_calls_def t3_def t2_def)
  ultimately have "disk_after mc d tr' dst = Some (concat chunks, m)"
    using disk_after_call [of mc "Rename tmp dst" "t3 @ [CloseFile tmp] @ [Chmod tmp m]" 0 tr' d] put
    by (simp add: call_def)
  with whole show ?thesis by blast
qed

text \<open>What a REMOVE step relies on: an \<open>unlink\<close> says that there is no such file only when there is none.\<close>

definition honest :: "machine \<Rightarrow> disk \<Rightarrow> bool" where
  "honest mc d \<longleftrightarrow> (\<forall>tr p. answer mc tr (Unlink p) = ENOENT \<longrightarrow> disk_after mc d tr p = None)"

lemma remove_disk:
  assumes "do_step mc s tr = (0, tr')" "kind s = M2022_STEP_REMOVE" "honest mc d"
  shows "disk_after mc d tr' (path s) = None"
proof -
  obtain rc where c: "call mc (Unlink (path s)) tr = (rc, tr')" and rc: "rc = 0 \<or> rc = ENOENT"
    using assms(1,2) by (auto simp: do_step_def split: prod.splits if_splits)
  have "rc = ENOENT \<Longrightarrow> disk_after mc d tr (path s) = None"
    using assms(3) c by (simp add: honest_def call_def)
  then show ?thesis using disk_after_call [OF c, of d] rc by auto
qed

section \<open>Plans\<close>

text \<open>A step that must succeed was carried out at some time of a run that succeeded, and what it left is there
  at the end when no later step works on that path.\<close>

lemma execute_establishes:
  assumes "execute_from mc (xs @ s # ys) i tr = (0, tr')" "\<not> ignore_failure s"
    and "list_all (\<lambda>y. \<not> step_alters q y) ys"
  shows "\<exists>tr1 tr2. do_step mc s tr1 = (0, tr2) \<and> disk_after mc d tr' q = disk_after mc d tr2 q
    \<and> calls_since tr tr1 (\<lambda>_. True) \<and> calls_since tr2 tr' (\<lambda>_. True)"
proof -
  obtain tr1 where x: "execute_from mc xs i tr = (0, tr1)"
    and y: "execute_from mc (s # ys) (i + length xs) tr1 = (0, tr')"
    using assms(1) by (cases "execute_from mc xs i tr") (auto simp: execute_from_append Let_def split: if_splits)
  obtain rc tr2 where s: "do_step mc s tr1 = (rc, tr2)" by force
  then have "rc = 0" and z: "execute_from mc ys (i + length xs + 1) tr2 = (0, tr')"
    using y assms(2) by (auto split: if_splits)
  with s execute_unaltered [OF z assms(3)] execute_extends [OF x] execute_extends [OF z] show ?thesis by blast
qed

lemma execute_write:
  assumes "execute_from mc (xs @ write_step w p s m # ys) i tr = (0, tr')" "length p < 512"
    and "list_all (\<lambda>y. \<not> step_alters p y) ys"
  shows "disk_after mc d tr' p = Some (s, m)"
proof -
  have "\<not> ignore_failure (write_step w p s m)" by (simp add: write_step_def new_step_def)
  from execute_establishes [OF assms(1) this assms(3), of d] obtain tr1 tr2 where
    st: "do_step mc (write_step w p s m) tr1 = (0, tr2)" "disk_after mc d tr' p = disk_after mc d tr2 p" by blast
  then have "write_file mc p s m tr1 = (0, tr2)" using assms(2) by (simp add: do_step_def write_step_def new_step_def)
  from write_file_disk [OF this] st(2) show ?thesis by simp
qed

lemma execute_remove:
  assumes "execute_from mc (xs @ remove_step p # ys) i tr = (0, tr')" "length p < 512" "honest mc d"
    and "list_all (\<lambda>y. \<not> step_alters p y) ys"
  shows "disk_after mc d tr' p = None"
proof -
  have "\<not> ignore_failure (remove_step p)" by (simp add: remove_step_def new_step_def)
  from execute_establishes [OF assms(1) this assms(4), of d] obtain tr1 tr2 where
    st: "do_step mc (remove_step p) tr1 = (0, tr2)" "disk_after mc d tr' p = disk_after mc d tr2 p" by blast
  from remove_disk [OF st(1) _ assms(3)] st(2) assms(2) show ?thesis by (simp add: remove_step_def new_step_def)
qed

section \<open>Install and uninstall\<close>

lemma step_alters_simps [simp]:
  "step_alters q (run w args) \<longleftrightarrow> False"
  "step_alters q (run_ignoring w args) \<longleftrightarrow> False"
  "step_alters q (dscl_create w p args) \<longleftrightarrow> False"
  "step_alters q ((run w args)\<lparr>retries := n\<rparr>) \<longleftrightarrow> False"
  "step_alters q (note_step w) \<longleftrightarrow> False"
  "step_alters q ((new_step M2022_STEP_WAIT_IPP w)\<lparr>step_port := port\<rparr>) \<longleftrightarrow> False"
  "step_alters q (write_step w p s m) \<longleftrightarrow> snprintf 512 p = q"
  "step_alters q (remove_step p) \<longleftrightarrow> snprintf 512 p = q"
  "step_alters q (mkdir_step p m own) \<longleftrightarrow> snprintf 512 (snprintf 512 p) = q"
  "step_alters q (copy_step w f p m) \<longleftrightarrow> q = snprintf 512 p \<or> q = snprintf 600 (snprintf 512 p @ ''.new'')"
  by (auto simp: step_alters_def run_def run_ignoring_def dscl_create_def note_step_def write_step_def remove_step_def
      mkdir_step_def copy_step_def new_step_def)

definition ppd_backup :: string where
  "ppd_backup = M2022_SERVICE_BACKUP_DIR @ ''/'' @ M2022_VENDOR_QUEUE @ ''.ppd''"

text \<open>What uninstall leaves: the directories, the backup, and the names of unfinished copies.\<close>

definition kept_paths :: "string list" where
  "kept_paths = [M2022_SERVICE_SUPPORT_DIR, M2022_SERVICE_BACKUP_DIR, M2022_SERVICE_SPOOL_DIR, M2022_SERVICE_LOG_DIR,
     M2022_SERVICE_BINARY @ ''.new'', ppd_backup, ppd_backup @ ''.new'']"

definition installed_paths :: "string list" where
  "installed_paths = [M2022_SERVICE_BINARY, M2022_SERVICE_PLIST, M2022_SERVICE_NEWSYSLOG, M2022_SERVICE_QUEUE_MARKER]"

lemma paths_distinct: "distinct (installed_paths @ kept_paths)"
  by code_simp

lemma paths_short: "list_all (\<lambda>p. length p < 500) (installed_paths @ kept_paths)"
  by code_simp

lemmas path_facts = paths_distinct [unfolded installed_paths_def kept_paths_def, simplified]
  paths_short [unfolded installed_paths_def kept_paths_def, simplified]

text \<open>The sections of the install plan.\<close>

lemma stop_steps_alter: "list_all (\<lambda>s. \<not> step_alters q s) (stop_steps i)"
  by (simp add: stop_steps_def)

lemma user_steps_alter: "list_all (\<lambda>s. \<not> step_alters q s) (user_steps i)"
  by (simp add: user_steps_def Let_def)

lemma vendor_steps_alter:
  "q \<noteq> ppd_backup \<Longrightarrow> q \<noteq> ppd_backup @ ''.new'' \<Longrightarrow> list_all (\<lambda>s. \<not> step_alters q s) (vendor_steps i opts)"
  using path_facts by (simp add: vendor_steps_def ppd_backup_def)

lemma file_steps_alter:
  "q \<notin> set kept_paths \<Longrightarrow> q \<noteq> M2022_SERVICE_BINARY \<Longrightarrow> list_all (\<lambda>s. \<not> step_alters q s) (file_steps i)"
  using path_facts by (auto simp: file_steps_def kept_paths_def)

lemma start_steps_alter:
  "q \<noteq> M2022_SERVICE_PLIST \<Longrightarrow> q \<noteq> M2022_SERVICE_NEWSYSLOG \<Longrightarrow> (our_queue i \<or> q \<noteq> M2022_SERVICE_QUEUE_MARKER) \<Longrightarrow>
   list_all (\<lambda>s. \<not> step_alters q s) (start_steps i p opts)"
  using path_facts by (auto simp: start_steps_def Let_def)

lemma uninstall_plan_steps:
  assumes "m2022_service_uninstall_plan i opts = Inr plan"
  shows "\<exists>first middle last. plan = first @ [remove_step M2022_SERVICE_PLIST, remove_step M2022_SERVICE_NEWSYSLOG]
      @ (if queue_marker i \<and> our_queue i
         then [run_ignoring ''remove the queue the installer created'' [''lpadmin'', ''-x'', our_queue_name i],
               remove_step M2022_SERVICE_QUEUE_MARKER] else [])
      @ middle @ [remove_step M2022_SERVICE_BINARY] @ last
    \<and> (\<forall>q. list_all (\<lambda>s. \<not> step_alters q s) (first @ middle @ last))"
proof -
  define first where "first = (if loaded (launchd i)
    then [run_ignoring ''stop the service'' [''launchctl'', ''bootout'', ''system/'' @ M2022_SERVICE_LABEL]] else [])"
  define last where "last = (if (case opts of None \<Rightarrow> False | Some o1 \<Rightarrow> purge o1) then purge_steps i
    else [note_step ''kept the state, logs, backups and the service user (uninstall --purge removes them)''])"
  define queue where "queue = (if queue_marker i \<and> our_queue i
         then [run_ignoring ''remove the queue the installer created'' [''lpadmin'', ''-x'', our_queue_name i],
               remove_step M2022_SERVICE_QUEUE_MARKER] else [])"
  define steps where "steps = first @ [remove_step M2022_SERVICE_PLIST, remove_step M2022_SERVICE_NEWSYSLOG]
      @ queue @ restore_steps i @ [remove_step M2022_SERVICE_BINARY] @ last"
  have "length first \<le> 1" "length queue \<le> 2" "length (restore_steps i) \<le> 1" "length last \<le> 5"
    by (simp_all add: first_def queue_def restore_steps_def last_def purge_steps_def)
  then have "build_plan steps = steps" by (intro build_plan_all) (simp add: steps_def)
  moreover have "m2022_service_uninstall_plan i opts =
    (if \<not> plist_exists i \<and> \<not> binary_installed i \<and> \<not> user_exists i then Inl NothingInstalled else Inr (build_plan steps))"
    unfolding m2022_service_uninstall_plan_def steps_def first_def queue_def last_def by (rule refl)
  ultimately have plan: "plan = steps" using assms by (simp split: if_splits)
  have "list_all (\<lambda>s. \<not> step_alters q s) (first @ restore_steps i @ last)" for q
    by (simp add: first_def last_def restore_steps_def purge_steps_def)
  then show ?thesis unfolding plan steps_def queue_def by blast
qed

text \<open>C18: A successful installation leaves its files: the property list and the rotation entry with exactly the
  texts of m2022_service_plist and m2022_service_newsyslog and mode 0644, the program with mode 0755 and the
  content that the running executable had when it was opened, and the marker when the queue was created. The
  program is whole when no read of the executable fails; otherwise it may be only the beginning of it, since
  the copy takes a read error for the end.\<close>

theorem install_leaves_files:
  assumes "m2022_service_install_plan i p opts = Inr plan" "m2022_service_execute mc plan tr = (0, tr')"
  shows "disk_after mc d tr' M2022_SERVICE_PLIST = Some (m2022_service_plist p 4096, 420)
    \<and> disk_after mc d tr' M2022_SERVICE_NEWSYSLOG = Some (m2022_service_newsyslog 256, 420)
    \<and> (\<exists>tr0 rest bin. tr' = tr0 @ OpenRead (snprintf 1024 (self_path i)) # rest
        \<and> disk_after mc d tr' M2022_SERVICE_BINARY = Some (bin, 493)
        \<and> copied mc (snprintf 1024 (self_path i))
            (contents mc (tr0 @ [OpenRead (snprintf 1024 (self_path i))]) (snprintf 1024 (self_path i))) bin)
    \<and> (\<not> our_queue i \<longrightarrow> disk_after mc d tr' M2022_SERVICE_QUEUE_MARKER
        = Some (''created by m2022-airbridge install'' @ [CHR 0x0A], 420))"
proof (intro conjI impI)
  note plan = install_plan_sections [OF assms(1)]
  have run: "execute_from mc plan 0 tr = (0, tr')" using assms(2) by (simp add: m2022_service_execute_def)
  define before where "before = stop_steps i @ user_steps i @ file_steps i @ vendor_steps i opts"
  define port where "port = snprintf 16 (decimal_int (port_of p))"
  have p1: "plan = before @ write_step ''write the launchd job'' M2022_SERVICE_PLIST (m2022_service_plist p 4096) 420
      # tl (start_steps i p opts)" by (simp add: plan before_def start_steps_def Let_def)
  have "list_all (\<lambda>y. \<not> step_alters M2022_SERVICE_PLIST y) (tl (start_steps i p opts))"
    using path_facts by (auto simp: start_steps_def Let_def)
  from execute_write [OF run [unfolded p1] _ this] show "disk_after mc d tr' M2022_SERVICE_PLIST = Some (m2022_service_plist p 4096, 420)"
    using path_facts by simp
  have p2: "plan = (before @ [hd (start_steps i p opts)])
      @ write_step ''rotate the log with newsyslog'' M2022_SERVICE_NEWSYSLOG (m2022_service_newsyslog 256) 420
      # tl (tl (start_steps i p opts))" by (simp add: plan before_def start_steps_def Let_def)
  have "list_all (\<lambda>y. \<not> step_alters M2022_SERVICE_NEWSYSLOG y) (tl (tl (start_steps i p opts)))"
    using path_facts by (auto simp: start_steps_def Let_def)
  from execute_write [OF run [unfolded p2] _ this] show "disk_after mc d tr' M2022_SERVICE_NEWSYSLOG = Some (m2022_service_newsyslog 256, 420)"
    using path_facts by simp
  have p3: "plan = (stop_steps i @ user_steps i @ take 7 (file_steps i))
      @ copy_step ''install the binary'' (self_path i) M2022_SERVICE_BINARY 493
      # (drop 8 (file_steps i) @ vendor_steps i opts @ start_steps i p opts)"
    by (simp add: plan file_steps_def)
  have tail: "list_all (\<lambda>y. \<not> step_alters M2022_SERVICE_BINARY y)
      (drop 8 (file_steps i) @ vendor_steps i opts @ start_steps i p opts)"
    using path_facts vendor_steps_alter start_steps_alter by (simp add: file_steps_def)
  have keep: "\<not> ignore_failure (copy_step ''install the binary'' (self_path i) M2022_SERVICE_BINARY 493)"
    by (simp add: copy_step_def new_step_def)
  from execute_establishes [OF run [unfolded p3] keep tail, of d] obtain tr1 tr2 where
    st: "do_step mc (copy_step ''install the binary'' (self_path i) M2022_SERVICE_BINARY 493) tr1 = (0, tr2)"
    "disk_after mc d tr' M2022_SERVICE_BINARY = disk_after mc d tr2 M2022_SERVICE_BINARY"
    "calls_since tr2 tr' (\<lambda>_. True)" by blast
  then have inst: "install_file mc (snprintf 1024 (self_path i)) M2022_SERVICE_BINARY 493 tr1 = (0, tr2)"
    using path_facts by (simp add: do_step_def copy_step_def new_step_def)
  have "\<exists>rest. tr2 = tr1 @ OpenRead (snprintf 1024 (self_path i)) # rest"
    using install_file_calls [OF inst refl] by (auto simp: renamed_def save_calls_def split: if_splits)
  then have "\<exists>rest. tr' = tr1 @ OpenRead (snprintf 1024 (self_path i)) # rest"
    using st(3) by (auto simp: calls_since_def)
  then show "\<exists>tr0 rest bin. tr' = tr0 @ OpenRead (snprintf 1024 (self_path i)) # rest
        \<and> disk_after mc d tr' M2022_SERVICE_BINARY = Some (bin, 493)
        \<and> copied mc (snprintf 1024 (self_path i))
            (contents mc (tr0 @ [OpenRead (snprintf 1024 (self_path i))]) (snprintf 1024 (self_path i))) bin"
    using install_file_disk [OF inst, of d] st(2) path_facts by fastforce
  assume new: "\<not> our_queue i"
  have p4: "plan = (before @ take 5 (start_steps i p opts))
      @ write_step ''remember that the installer created the queue'' M2022_SERVICE_QUEUE_MARKER
          (''created by m2022-airbridge install'' @ [CHR 0x0A]) 420 # drop 6 (start_steps i p opts)"
    using new by (simp add: plan before_def start_steps_def Let_def)
  have "list_all (\<lambda>y. \<not> step_alters M2022_SERVICE_QUEUE_MARKER y) (drop 6 (start_steps i p opts))"
    using new path_facts by (auto simp: start_steps_def Let_def)
  from execute_write [OF run [unfolded p4] _ this]
  show "disk_after mc d tr' M2022_SERVICE_QUEUE_MARKER = Some (''created by m2022-airbridge install'' @ [CHR 0x0A], 420)"
    using path_facts by simp
qed

text \<open>A machine on which every call succeeds.\<close>

definition willing :: machine where
  "willing = \<lparr>answer = (\<lambda>_ _. 0), contents = (\<lambda>_ p. ''content of '' @ p), reads = (\<lambda>_ _. 10), passwd = (\<lambda>_. Some (300, 300)),
     groups = (\<lambda>_. Some 300)\<rparr>"

lemma willing_call: "call willing c tr = (0, tr @ [c])"
  by (simp add: call_def willing_def)

lemma willing_passwd: "passwd willing n = Some (300, 300)"
  by (simp add: willing_def)

lemma willing_mkdir: "fst (mkdir_parents willing pre cs tr) = 0"
  by (induction cs arbitrary: pre tr) (simp_all add: willing_call)

lemma willing_copy: "fst (copy_chunks willing from_path tmp inp tr) = 0"
proof (induction "willing" from_path tmp inp tr rule: copy_chunks.induct)
  case (1 from_path tmp inp tr)
  then show ?case by (subst copy_chunks.simps) (simp add: willing_call Let_def)
qed

lemma willing_step: "fst (do_step willing s tr) = 0"
proof (cases "kind s")
  case M2022_STEP_RUN
  have "fst (retry willing args n 0 tr) = 0" for args n tr by (cases n) simp_all
  then show ?thesis by (simp add: do_step_def M2022_STEP_RUN m2022_run_def willing_call)
next
  case M2022_STEP_MKDIR
  have "fst (mkdir_p willing p m tr) = 0" for p m tr
    using willing_mkdir by (simp add: mkdir_p_def Let_def case_prod_unfold willing_call)
  moreover have "fst (chown_named willing p own tr) = 0" for p own tr
    by (simp add: chown_named_def Let_def willing_call willing_passwd)
  ultimately show ?thesis by (simp add: do_step_def M2022_STEP_MKDIR case_prod_unfold)
next
  case M2022_STEP_COPY
  have "fst (install_file willing f p m tr) = 0" for f p m tr
    using willing_copy by (simp add: install_file_def Let_def case_prod_unfold willing_call)
  then show ?thesis by (simp add: do_step_def M2022_STEP_COPY)
qed (simp_all add: do_step_def write_file_def willing_call wait_loop.simps)

lemma willing_execute: "\<exists>tr'. m2022_service_execute willing plan tr = (0, tr')"
proof -
  have "fst (execute_from willing plan i tr) = 0" for i
    using willing_step by (induction plan arbitrary: i tr) (simp_all add: case_prod_unfold)
  then show ?thesis by (metis m2022_service_execute_def prod.collapse)
qed

lemma willing_honest: "honest willing d"
  by (simp add: honest_def willing_def)

lemma sample_install: "\<exists>plan. m2022_service_install_plan sample_machine None None = Inr plan"
  by (simp add: m2022_service_install_plan_def sample_machine_def)

lemma install_leaves_files_witness:
  "\<exists>plan tr'. m2022_service_install_plan sample_machine None None = Inr plan
    \<and> m2022_service_execute willing plan [] = (0, tr')
    \<and> disk_after willing Map.empty tr' M2022_SERVICE_PLIST = Some (m2022_service_plist None 4096, 420)
    \<and> disk_after willing Map.empty tr' M2022_SERVICE_BINARY
      = Some (''content of '' @ snprintf 1024 (self_path sample_machine), 493)"
proof -
  have whole: "copied willing q (contents willing tr q) bin \<Longrightarrow> bin = ''content of '' @ q" for tr q bin
    by (simp add: copied_def willing_def)
  obtain plan where p: "m2022_service_install_plan sample_machine None None = Inr plan" using sample_install by blast
  obtain tr' where e: "m2022_service_execute willing plan [] = (0, tr')" using willing_execute by blast
  from install_leaves_files [OF p e, of Map.empty] p e whole show ?thesis by blast
qed

lemma removed_paths:
  "snprintf 512 M2022_SERVICE_PLIST = M2022_SERVICE_PLIST" "snprintf 512 M2022_SERVICE_NEWSYSLOG = M2022_SERVICE_NEWSYSLOG"
  "snprintf 512 M2022_SERVICE_BINARY = M2022_SERVICE_BINARY"
  "snprintf 512 M2022_SERVICE_QUEUE_MARKER = M2022_SERVICE_QUEUE_MARKER"
  using path_facts by simp_all

text \<open>The steps of the uninstall plan that work on a path.\<close>

lemma uninstall_steps_at:
  assumes "m2022_service_uninstall_plan i opts = Inr plan"
  shows "s \<in> set plan \<and> step_alters q s \<longleftrightarrow>
    s = remove_step q \<and> (q \<in> {M2022_SERVICE_BINARY, M2022_SERVICE_PLIST, M2022_SERVICE_NEWSYSLOG}
      \<or> q = M2022_SERVICE_QUEUE_MARKER \<and> queue_marker i \<and> our_queue i)"
proof -
  obtain first middle last where plan: "plan = first @ [remove_step M2022_SERVICE_PLIST, remove_step M2022_SERVICE_NEWSYSLOG]
      @ (if queue_marker i \<and> our_queue i
         then [run_ignoring ''remove the queue the installer created'' [''lpadmin'', ''-x'', our_queue_name i],
               remove_step M2022_SERVICE_QUEUE_MARKER] else [])
      @ middle @ [remove_step M2022_SERVICE_BINARY] @ last"
    and rest: "\<forall>q. list_all (\<lambda>s. \<not> step_alters q s) (first @ middle @ last)"
    using uninstall_plan_steps [OF assms] by blast
  have none: "s \<in> set (first @ middle @ last) \<Longrightarrow> \<not> step_alters q s" using rest unfolding list_all_iff by blast
  show ?thesis
    using none unfolding plan by (auto simp: removed_paths split: if_splits)
qed

lemma uninstall_unaltered:
  assumes "m2022_service_uninstall_plan i opts = Inr plan" "m2022_service_execute mc plan tr = (0, tr')"
    and "q \<notin> set installed_paths \<or> q = M2022_SERVICE_QUEUE_MARKER \<and> \<not> (queue_marker i \<and> our_queue i)"
  shows "disk_after mc d tr' q = disk_after mc d tr q"
proof (rule execute_unaltered)
  show "execute_from mc plan 0 tr = (0, tr')" using assms(2) by (simp add: m2022_service_execute_def)
  show "list_all (\<lambda>s. \<not> step_alters q s) plan"
    unfolding list_all_iff
    using uninstall_steps_at [OF assms(1), of _ q] assms(3) path_facts by (auto simp: installed_paths_def)
qed

lemma uninstall_removes:
  assumes "m2022_service_uninstall_plan i opts = Inr plan" "m2022_service_execute mc plan tr = (0, tr')" "honest mc d"
    and "q \<in> {M2022_SERVICE_BINARY, M2022_SERVICE_PLIST, M2022_SERVICE_NEWSYSLOG}
      \<or> q = M2022_SERVICE_QUEUE_MARKER \<and> queue_marker i \<and> our_queue i"
  shows "disk_after mc d tr' q = None"
proof -
  have run: "execute_from mc plan 0 tr = (0, tr')" using assms(2) by (simp add: m2022_service_execute_def)
  note at = uninstall_steps_at [OF assms(1), of _ q]
  have member: "remove_step q \<in> set plan" using at [of "remove_step q"] assms(4) by blast
  have short: "length q < 512" using assms(4) path_facts by auto
  obtain xs ys where split: "plan = xs @ remove_step q # ys" "remove_step q \<notin> set ys"
    using split_list_last [OF member] by blast
  then have "\<not> step_alters q y" if "y \<in> set ys" for y using at [of y] that by auto
  then have "list_all (\<lambda>y. \<not> step_alters q y) ys" by (simp add: list_all_iff)
  from execute_remove [OF run [unfolded split(1)] short assms(3) this] show ?thesis .
qed

lemma install_unaltered:
  assumes "m2022_service_install_plan i p opts = Inr plan" "m2022_service_execute mc plan tr = (0, tr')"
    and "q \<notin> set kept_paths"
      "q \<notin> {M2022_SERVICE_BINARY, M2022_SERVICE_PLIST, M2022_SERVICE_NEWSYSLOG}"
      "our_queue i \<or> q \<noteq> M2022_SERVICE_QUEUE_MARKER"
  shows "disk_after mc d tr' q = disk_after mc d tr q"
proof (rule execute_unaltered)
  show "execute_from mc plan 0 tr = (0, tr')" using assms(2) by (simp add: m2022_service_execute_def)
  show "list_all (\<lambda>s. \<not> step_alters q s) plan"
    using install_plan_sections [OF assms(1)] stop_steps_alter user_steps_alter file_steps_alter [OF assms(3)]
      vendor_steps_alter start_steps_alter assms(3-5) by (simp add: kept_paths_def)
qed

text \<open>C19: Uninstalling without --purge undoes an installation: after both succeeded, every file that only the
  steps themselves work on is as it was before the installation, but for the ones kept on purpose (the
  directories, the backup of the Samsung queue) and the names of unfinished copies. The disk had none of the
  installed files before; the queue's marker goes when the installer made the queue and it is still there.\<close>

theorem uninstall_undoes_install:
  assumes "m2022_service_install_plan i p opts = Inr plan" "m2022_service_execute mc plan tr = (0, tr1)"
    and "m2022_service_uninstall_plan i' opts' = Inr plan'" "m2022_service_execute mc plan' tr1 = (0, tr2)"
    and "honest mc d" "\<forall>q \<in> set installed_paths. disk_after mc d tr q = None"
    and "\<not> our_queue i \<longrightarrow> queue_marker i' \<and> our_queue i'" "q \<notin> set kept_paths"
    and "case opts' of None \<Rightarrow> True | Some o1 \<Rightarrow> \<not> purge o1"
  shows "disk_after mc d tr2 q = disk_after mc d tr q"
proof -
  consider (removed) "q \<in> {M2022_SERVICE_BINARY, M2022_SERVICE_PLIST, M2022_SERVICE_NEWSYSLOG}
      \<or> q = M2022_SERVICE_QUEUE_MARKER \<and> queue_marker i' \<and> our_queue i'"
    | (other) "q \<notin> {M2022_SERVICE_BINARY, M2022_SERVICE_PLIST, M2022_SERVICE_NEWSYSLOG}"
        "q = M2022_SERVICE_QUEUE_MARKER \<longrightarrow> our_queue i \<and> \<not> (queue_marker i' \<and> our_queue i')"
    using assms(7) by blast
  then show ?thesis
  proof cases
    case removed
    then have "disk_after mc d tr q = None" using assms(6) by (auto simp: installed_paths_def)
    with uninstall_removes [OF assms(3-5) removed] show ?thesis by simp
  next
    case other
    have "disk_after mc d tr2 q = disk_after mc d tr1 q"
      by (rule uninstall_unaltered [OF assms(3,4)]) (use other in \<open>auto simp: installed_paths_def\<close>)
    moreover have "disk_after mc d tr1 q = disk_after mc d tr q"
      by (rule install_unaltered [OF assms(1,2,8)]) (use other in auto)
    ultimately show ?thesis by simp
  qed
qed

lemma uninstall_undoes_install_witness:
  "\<exists>plan tr1 plan' tr2. m2022_service_install_plan sample_machine None None = Inr plan
    \<and> m2022_service_execute willing plan [] = (0, tr1)
    \<and> m2022_service_uninstall_plan (sample_machine\<lparr>queue_marker := True, our_queue := True\<rparr>) None = Inr plan'
    \<and> m2022_service_execute willing plan' tr1 = (0, tr2)
    \<and> disk_after willing [''/etc/hosts'' \<mapsto> (''localhost'', 420)] tr2 M2022_SERVICE_BINARY = None
    \<and> disk_after willing [''/etc/hosts'' \<mapsto> (''localhost'', 420)] tr2 ''/etc/hosts'' = Some (''localhost'', 420)"
proof -
  define d where "d = [''/etc/hosts'' \<mapsto> (''localhost'', 420 :: nat)]"
  define i' where "i' = sample_machine\<lparr>queue_marker := True, our_queue := True\<rparr>"
  obtain plan where p: "m2022_service_install_plan sample_machine None None = Inr plan" using sample_install by blast
  obtain tr1 where e: "m2022_service_execute willing plan [] = (0, tr1)" using willing_execute by blast
  obtain plan' where p': "m2022_service_uninstall_plan i' None = Inr plan'"
    by (simp add: m2022_service_uninstall_plan_def i'_def sample_machine_def)
  obtain tr2 where e': "m2022_service_execute willing plan' tr1 = (0, tr2)" using willing_execute by blast
  have start: "disk_after willing d [] = d" by (simp add: disk_after_def)
  have hosts: "''/etc/hosts'' \<notin> set (installed_paths @ kept_paths)" by code_simp
  then have clean: "\<forall>q \<in> set installed_paths. disk_after willing d [] q = None" unfolding start by (auto simp: d_def)
  have keep: "case (None :: plan_options option) of None \<Rightarrow> True | Some o1 \<Rightarrow> \<not> purge o1" by simp
  have queue: "\<not> our_queue sample_machine \<longrightarrow> queue_marker i' \<and> our_queue i'" by (simp add: i'_def)
  note same = uninstall_undoes_install [OF p e p' e' willing_honest clean queue _ keep]
  have "disk_after willing d tr2 ''/etc/hosts'' = d ''/etc/hosts''" using same [of "''/etc/hosts''"] hosts start by simp
  moreover have "M2022_SERVICE_BINARY \<notin> set kept_paths" "M2022_SERVICE_BINARY \<in> set installed_paths"
    using path_facts by (simp_all add: kept_paths_def installed_paths_def)
  then have "disk_after willing d tr2 M2022_SERVICE_BINARY = None"
    using same [of M2022_SERVICE_BINARY] clean by simp
  ultimately show ?thesis using p e p' e' unfolding i'_def [symmetric] by (auto simp: d_def)
qed

end
