(* ===== verification/Dnssd.thy ===== *)
theory Dnssd
  imports Cprint
begin

text \<open>
  Model of src/service/dnssd.c: is a service of our name announced on the network, and on which port. The
  clock, \<open>select\<close> and the replies of the DNS-SD daemon are the environment: a list of what each turn of the
  waiting loop meets.
\<close>

section \<open>Time\<close>

record timeval =
  tv_sec :: int
  tv_usec :: int

definition timer_ge :: "timeval \<Rightarrow> timeval \<Rightarrow> bool" where
  "timer_ge a b = (if tv_sec a = tv_sec b then tv_usec a \<ge> tv_usec b else tv_sec a \<ge> tv_sec b)"

definition deadline_of :: "timeval \<Rightarrow> u32 \<Rightarrow> timeval" where
  "deadline_of now ms =
    (let d = \<lparr>tv_sec = tv_sec now + uint (ms div 1000), tv_usec = tv_usec now + uint (ms mod 1000) * 1000\<rparr>
     in if tv_usec d \<ge> 1000000 then \<lparr>tv_sec = tv_sec d + 1, tv_usec = tv_usec d - 1000000\<rparr> else d)"

section \<open>Callbacks\<close>

record browse_ctx =
  bc_name :: string
  bc_found :: bool
  bc_port :: int
  bc_domain :: string
  bc_interface :: u32

record browse_reply =
  br_flags :: u32
  br_interface :: u32
  br_error :: int
  br_name :: string
  br_domain :: string

record resolve_reply =
  rr_error :: int
  rr_port :: u16

abbreviation (input) kDNSServiceFlagsAdd :: u32 where "kDNSServiceFlagsAdd \<equiv> 2"

text \<open>\<open>ntohs\<close> on a little-endian machine.\<close>

definition ntohs :: "u16 \<Rightarrow> u16" where
  "ntohs p = push_bit 8 p OR drop_bit 8 p"

definition resolve_cb :: "resolve_reply \<Rightarrow> browse_ctx \<Rightarrow> browse_ctx" where
  "resolve_cb r b = (if rr_error r = 0 then b\<lparr>bc_port := uint (ntohs (rr_port r))\<rparr> else b)"

definition browse_cb :: "browse_reply \<Rightarrow> browse_ctx \<Rightarrow> browse_ctx" where
  "browse_cb r b =
    (if br_error r = 0 \<and> br_flags r AND kDNSServiceFlagsAdd \<noteq> 0 \<and> br_name r = bc_name b \<and> \<not> bc_found b
     then b\<lparr>bc_found := True, bc_interface := br_interface r, bc_domain := snprintf 256 (br_domain r)\<rparr> else b)"

section \<open>Waiting\<close>

text \<open>
  A turn of the loop of \<open>pump\<close>: the time it reads, what \<open>select\<close> answers, the replies that
  \<open>DNSServiceProcessResult\<close> hands to the callback, and its result. When the list ends nothing more comes and
  \<open>select\<close> waits until the deadline.
\<close>

record 'r tick =
  tk_now :: timeval
  tk_select :: int
  tk_replies :: "'r list"
  tk_result :: int

fun pump :: "('r \<Rightarrow> 'c \<Rightarrow> 'c) \<Rightarrow> timeval \<Rightarrow> ('c \<Rightarrow> bool) \<Rightarrow> 'r tick list \<Rightarrow> 'c \<Rightarrow> 'c" where
  "pump cb deadline finished [] c = c"
| "pump cb deadline finished (t # ts) c =
    (if finished c then c
     else if timer_ge (tk_now t) deadline then c
     else if tk_select t \<le> 0 then c
     else
       let c1 = fold cb (tk_replies t) c
       in if tk_result t \<noteq> 0 then c1 else pump cb deadline finished ts c1)"

record dns_env =
  dn_start :: timeval
  dn_browse_error :: int
  dn_browse :: "browse_reply tick list"
  dn_resolve_error :: "u32 \<Rightarrow> string \<Rightarrow> string \<Rightarrow> int"
  dn_resolve_now :: timeval
  dn_resolve :: "resolve_reply tick list"

text \<open>
  The search for a caller that wants the port: the result and the port. The flag \<open>resolved\<close> that the
  second \<open>pump\<close> watches is never set. The loop around it runs once: after \<open>pump\<close> either the port is set or
  the loop is left.
\<close>

definition m2022_dnssd_find :: "dns_env \<Rightarrow> string \<Rightarrow> u32 \<Rightarrow> bool \<times> int" where
  "m2022_dnssd_find env name timeout_ms =
    (let ctx = \<lparr>bc_name = name, bc_found = False, bc_port = -1, bc_domain = [], bc_interface = 0\<rparr>;
         deadline = deadline_of (dn_start env) timeout_ms
     in if dn_browse_error env \<noteq> 0 then (False, -1)
        else
          let ctx1 = pump browse_cb deadline bc_found (dn_browse env) ctx
          in if \<not> bc_found ctx1 then (False, -1)
             else
               let ctx2 =
                 (if dn_resolve_error env (bc_interface ctx1) name (bc_domain ctx1) = 0 then
                    (if timer_ge (dn_resolve_now env) deadline then ctx1
                     else pump resolve_cb deadline (\<lambda>_. False) (dn_resolve env) ctx1)
                  else ctx1)
               in (True, bc_port ctx2))"

section \<open>What the waiting sees\<close>

text \<open>The turns that the loop reaches when it is not told to stop.\<close>

fun reached :: "timeval \<Rightarrow> 'r tick list \<Rightarrow> 'r tick list" where
  "reached deadline [] = []"
| "reached deadline (t # ts) =
    (if timer_ge (tk_now t) deadline \<or> tk_select t \<le> 0 then []
     else t # (if tk_result t \<noteq> 0 then [] else reached deadline ts))"

text \<open>Without a stop every reply of the window is taken, also those after the first useful one.\<close>

lemma pump_never_finished:
  "pump cb deadline (\<lambda>_. False) ts c = fold cb (concat (map tk_replies (reached deadline ts))) c"
  by (induction ts arbitrary: c) (auto simp: Let_def)

definition announces :: "string \<Rightarrow> browse_reply \<Rightarrow> bool" where
  "announces name r \<longleftrightarrow> br_error r = 0 \<and> br_flags r AND kDNSServiceFlagsAdd \<noteq> 0 \<and> br_name r = name"

lemma fold_browse_name: "bc_name (fold browse_cb rs c) = bc_name c"
  by (induction rs arbitrary: c) (auto simp: browse_cb_def)

lemma fold_browse_found:
  "bc_found (fold browse_cb rs c) \<longleftrightarrow> bc_found c \<or> (\<exists>r \<in> set rs. announces (bc_name c) r)"
  by (induction rs arbitrary: c) (auto simp: browse_cb_def announces_def)

lemma pump_browse_found:
  "bc_found (pump browse_cb deadline bc_found ts c) \<longleftrightarrow>
     bc_found c \<or> (\<exists>t \<in> set (reached deadline ts). \<exists>r \<in> set (tk_replies t). announces (bc_name c) r)"
proof (induction ts arbitrary: c)
  case (Cons t ts)
  show ?case
  proof (cases "bc_found c \<or> timer_ge (tk_now t) deadline \<or> tk_select t \<le> 0")
    case True
    then show ?thesis by auto
  next
    case False
    then show ?thesis
      using Cons [of "fold browse_cb (tk_replies t) c"]
      by (auto simp: Let_def fold_browse_found fold_browse_name)
  qed
qed simp

text \<open>The port is that of the last resolution that succeeded.\<close>

lemma fold_resolve_port:
  "bc_port (fold resolve_cb rs c) =
    (case filter (\<lambda>r. rr_error r = 0) rs of [] \<Rightarrow> bc_port c | ss \<Rightarrow> uint (ntohs (rr_port (last ss))))"
proof (induction rs arbitrary: c)
  case (Cons r rs)
  then show ?case by (auto simp: resolve_cb_def split: list.split)
qed simp

lemma deadline_later:
  assumes "0 \<le> tv_usec now" "tv_usec now < 1000000"
  shows "tv_sec (deadline_of now ms) * 1000000 + tv_usec (deadline_of now ms)
      = tv_sec now * 1000000 + tv_usec now + uint ms * 1000
    \<and> 0 \<le> tv_usec (deadline_of now ms) \<and> tv_usec (deadline_of now ms) < 1000000"
proof -
  have "uint (ms mod 1000) < 1000" "0 \<le> uint (ms mod 1000)" by (simp_all add: uint_mod)
  moreover have "uint ms = uint (ms div 1000) * 1000 + uint (ms mod 1000)"
    by (simp add: uint_mod uint_div)
  ultimately show ?thesis using assms by (auto simp: deadline_of_def Let_def)
qed

section \<open>Properties\<close>

text \<open>The browse finds a printer exactly when an announcement of its name, without an error, is among the
  replies that come before the deadline: an instance that is taken away, another name or a late reply is not
  enough, and the first announcement is.\<close>

theorem dnssd_finds_announced:
  "fst (m2022_dnssd_find env name ms) \<longleftrightarrow>
    dn_browse_error env = 0
    \<and> (\<exists>t \<in> set (reached (deadline_of (dn_start env) ms) (dn_browse env)).
         \<exists>r \<in> set (tk_replies t). announces name r)"
  by (simp add: m2022_dnssd_find_def Let_def pump_browse_found)

text \<open>Once the printer is found, every resolution that succeeds before the deadline is waited for, and the
  last one gives the port; one result does not end the wait.\<close>

lemma dnssd_port_is_last:
  assumes "m2022_dnssd_find env name ms = (True, port)" "\<And>i d. dn_resolve_error env i name d = 0"
    and "\<not> timer_ge (dn_resolve_now env) (deadline_of (dn_start env) ms)"
  shows "port = (case filter (\<lambda>r. rr_error r = 0)
        (concat (map tk_replies (reached (deadline_of (dn_start env) ms) (dn_resolve env)))) of
      [] \<Rightarrow> -1 | ss \<Rightarrow> uint (ntohs (rr_port (last ss))))"
proof -
  have keep: "bc_port (fold browse_cb rs c) = bc_port c" for rs c
    by (induction rs arbitrary: c) (auto simp: browse_cb_def)
  have "bc_port (pump browse_cb dl bc_found ts c) = bc_port c" for dl ts c
    by (induction ts arbitrary: c) (auto simp: Let_def keep)
  then show ?thesis
    using assms by (auto simp: m2022_dnssd_find_def Let_def pump_never_finished fold_resolve_port split: if_splits list.splits)
qed

end
