(* ===== verification/Cmd_Doctor.thy ===== *)
theory Cmd_Doctor
  imports Service_Inspect Dnssd
begin

text \<open>
  Model of src/cli/cmd_doctor.c: the checks, what each reports, and the exit status. The inspection of the
  machine, the DNS-SD browse and the IPP request are those of their theories.
\<close>

section \<open>Reports\<close>

text \<open>The levels 0, 1 and 2.\<close>

datatype severity = Passed | Warning | Failure

fun severity_level :: "severity \<Rightarrow> nat" where
  "severity_level Passed = 0"
| "severity_level Warning = 1"
| "severity_level Failure = 2"

instantiation severity :: linorder
begin

definition less_severity :: "severity \<Rightarrow> severity \<Rightarrow> bool" where
  "less_severity a b \<longleftrightarrow> severity_level a < severity_level b"

definition less_eq_severity :: "severity \<Rightarrow> severity \<Rightarrow> bool" where
  "less_eq_severity a b \<longleftrightarrow> severity_level a \<le> severity_level b"

instance
proof
  fix a b :: severity
  show "a \<le> b \<Longrightarrow> b \<le> a \<Longrightarrow> a = b"
    by (cases a; cases b) (simp_all add: less_eq_severity_def)
qed (auto simp: less_severity_def less_eq_severity_def)

end

record check =
  ck_level :: severity
  ck_name :: string
  ck_detail :: string
  ck_hint :: "string option"

abbreviation (input) mk_check :: "severity \<Rightarrow> string \<Rightarrow> string \<Rightarrow> string option \<Rightarrow> check" where
  "mk_check l n d h \<equiv> \<lparr>ck_level = l, ck_name = n, ck_detail = d, ck_hint = h\<rparr>"

record tally =
  fails :: nat
  warns :: nat
  printed :: string

definition severity_label :: "severity \<Rightarrow> string" where
  "severity_label l = (case l of Passed \<Rightarrow> ''ok  '' | Warning \<Rightarrow> ''WARN'' | Failure \<Rightarrow> ''FAIL'')"

definition report :: "check \<Rightarrow> tally \<Rightarrow> tally" where
  "report c t =
    (let t1 = t\<lparr>printed := printed t @ severity_label (ck_level c) @ '' ''
                @ ck_name c @ replicate (16 - length (ck_name c)) (CHR '' '') @ '' '' @ ck_detail c
                @ (case ck_hint c of
                     None \<Rightarrow> []
                   | Some h \<Rightarrow> if ck_level c > Passed then newline @ ''     -> '' @ h else [])
                @ newline\<rparr>
     in if ck_level c = Failure then t1\<lparr>fails := fails t1 + 1\<rparr>
        else if ck_level c = Warning then t1\<lparr>warns := warns t1 + 1\<rparr>
        else t1)"

section \<open>The log\<close>

text \<open>Days from 1970-01-01 in the Gregorian calendar, for \<open>timegm\<close>.\<close>

definition days_from_civil :: "int \<Rightarrow> int \<Rightarrow> int \<Rightarrow> int" where
  "days_from_civil y m d =
    (let y1 = (if m \<le> 2 then y - 1 else y);
         era = y1 div 400;
         yoe = y1 - era * 400;
         doy = (153 * (if m > 2 then m - 3 else m + 9) + 2) div 5 + d - 1;
         doe = yoe * 365 + yoe div 4 - yoe div 100 + doy
     in era * 146097 + doe - 719468)"

text \<open>A number of \<open>strptime\<close>: up to \<open>width\<close> digits, at least one, with a value in the range.\<close>

definition time_number :: "nat \<Rightarrow> int \<Rightarrow> int \<Rightarrow> string \<Rightarrow> (int \<times> string) option" where
  "time_number width lo hi s =
    (let ds = takeWhile (is_digit 10) (take width s); v = int (digits_value 10 0 ds)
     in if ds = [] \<or> v < lo \<or> v > hi then None else Some (v, drop (length ds) s))"

definition time_char :: "char \<Rightarrow> string \<Rightarrow> string option" where
  "time_char c s = (case s of [] \<Rightarrow> None | d # ds \<Rightarrow> if d = c then Some ds else None)"

text \<open>\<open>strptime\<close> with \<open>"%Y-%m-%dT%H:%M:%S"\<close>, then \<open>timegm\<close>: seconds since 1970.\<close>

definition log_timestamp :: "string \<Rightarrow> int option" where
  "log_timestamp s =
    Option.bind (time_number 4 0 9999 s) (\<lambda>(y, s1).
    Option.bind (Option.bind (time_char (CHR ''-'') s1) (time_number 2 1 12)) (\<lambda>(m, s2).
    Option.bind (Option.bind (time_char (CHR ''-'') s2) (time_number 2 1 31)) (\<lambda>(d, s3).
    Option.bind (Option.bind (time_char (CHR ''T'') s3) (time_number 2 0 23)) (\<lambda>(hh, s4).
    Option.bind (Option.bind (time_char (CHR '':'') s4) (time_number 2 0 59)) (\<lambda>(mm, s5).
    Option.bind (Option.bind (time_char (CHR '':'') s5) (time_number 2 0 60)) (\<lambda>(ss, s6).
    Some (days_from_civil y m d * 86400 + hh * 3600 + mm * 60 + ss)))))))"

definition log_line_age :: "int \<Rightarrow> string \<Rightarrow> int" where
  "log_line_age now s =
    (case dropWhile (\<lambda>c. c \<noteq> CHR ''['') s of
       [] \<Rightarrow> -1
     | b # p \<Rightarrow> (case log_timestamp p of None \<Rightarrow> -1 | Some t \<Rightarrow> now - t))"

text \<open>The pieces that \<open>fgets\<close> with a buffer of 1024 bytes reads: at most 1023 characters, a line at most.\<close>

function fgets_lines :: "string \<Rightarrow> string list" where
  "fgets_lines s =
    (if s = [] then []
     else let n = min 1023 (length (takeWhile (\<lambda>c. c \<noteq> CHR 0x0A) s) + 1)
          in take n s # fgets_lines (drop n s))"
  by pat_completeness auto
termination by (relation "measure length") (auto simp: Let_def)

declare fgets_lines.simps [simp del]

text \<open>The loop over the log: the number of lines, and the last that starts with \<open>E \<close>.\<close>

fun scan_log :: "string list \<Rightarrow> nat \<Rightarrow> string \<Rightarrow> nat \<times> string" where
  "scan_log [] n last_error = (n, last_error)"
| "scan_log (l # ls) n last_error =
    scan_log ls (n + 1) (if take 2 l = ''E '' then snprintf 1024 l else last_error)"

datatype log_file = Log_text string | Log_forbidden | Log_missing

text \<open>
  The one report of \<open>check_log\<close>. For an old error the text two characters behind the first bracket is
  printed; \<open>None\<close> is the case in which that is behind the end of the string.
\<close>

definition check_log :: "int \<Rightarrow> log_file \<Rightarrow> check option" where
  "check_log now f =
    (case f of
       Log_forbidden \<Rightarrow>
         Some (mk_check Warning ''log'' (M2022_SERVICE_LOG_FILE @ '' is not readable by this user'')
           (Some ''run `sudo m2022-airbridge install` again (it makes the log readable) or use sudo''))
     | Log_missing \<Rightarrow>
         Some (mk_check Warning ''log'' ''no log file yet'' (Some (''the service writes '' @ M2022_SERVICE_LOG_FILE)))
     | Log_text s \<Rightarrow>
         let (n, err) = scan_log (fgets_lines s) 0 []
         in if err = [] then
              Some (mk_check Passed ''log'' (snprintf 1200 (decimal n @ '' lines, no errors'')) None)
            else
              let cut = take (strcspn err newline) err;
                  age = log_line_age now cut
              in if age < 0 \<or> age < 15 * 60 then
                   Some (mk_check Warning ''log'' cut
                     (Some ''the last error line; `m2022-airbridge logs` shows more''))
                 else
                   let shown = (case dropWhile (\<lambda>c. c \<noteq> CHR '']'') cut of
                         [] \<Rightarrow> Some cut
                       | p \<Rightarrow> if length p \<ge> 2 then Some (drop 2 p)
                              else if length cut < length err then Some [] else None)
                   in map_option (\<lambda>m. mk_check Passed ''log''
                        (snprintf 1200 (decimal n @ '' lines, last error '' @ decimal_int (age div 60)
                          @ '' min ago: '' @ take 80 m)) None) shown)"

section \<open>The checks\<close>

record doctor_choices =
  da_port :: int
  da_name :: string
  da_no_service :: bool

function doctor_args_loop :: "string list \<Rightarrow> doctor_choices \<Rightarrow> doctor_choices option" where
  "doctor_args_loop [] a = Some a"
| "doctor_args_loop (arg # rest) a =
    (if arg = ''--port'' \<and> rest \<noteq> [] then doctor_args_loop (tl rest) (a\<lparr>da_port := atoi (hd rest)\<rparr>)
     else if arg = ''--name'' \<and> rest \<noteq> [] then doctor_args_loop (tl rest) (a\<lparr>da_name := hd rest\<rparr>)
     else if arg = ''--no-service'' then doctor_args_loop rest (a\<lparr>da_no_service := True\<rparr>)
     else None)"
  by pat_completeness auto
termination by (relation "measure (\<lambda>(args, a). length args)") auto

definition doctor_args :: "string list \<Rightarrow> doctor_choices option" where
  "doctor_args args =
    doctor_args_loop args
      \<lparr>da_port = M2022_SERVICE_PORT, da_name = M2022_SERVICE_PRINTER_NAME, da_no_service = False\<rparr>"

record doctor_env =
  dv_inspect :: inspect_env
  dv_dns :: dns_env
  dv_ipp :: ipp_env
  dv_log :: log_file
  dv_now :: int
  dv_version :: string

text \<open>The checks of the installation: binary, user and launchd job.\<close>

definition check_binary :: "doctor_env \<Rightarrow> service_info \<Rightarrow> check" where
  "check_binary env i =
    (if binary_installed i then
       let out = snd (m2022_run_output (ns_run (dv_inspect env) [M2022_SERVICE_BINARY, ''version'']) 128);
           out = take (strcspn out newline) out
       in if strstr out (dv_version env) \<noteq> None
          then mk_check Passed ''binary'' (snprintf 600 (M2022_SERVICE_BINARY @ '' '' @ dv_version env)) None
          else mk_check Warning ''binary''
                 (snprintf 600 (M2022_SERVICE_BINARY @ '' is '' @ out @ '', this is '' @ dv_version env))
                 (Some ''run `sudo m2022-airbridge install` from the new build'')
     else mk_check Failure ''binary'' (''not installed at '' @ M2022_SERVICE_BINARY)
            (Some ''run `sudo ./build/src/m2022-airbridge install`''))"

definition check_user :: "service_info \<Rightarrow> check" where
  "check_user i =
    (if user_exists i
     then mk_check Passed ''service user''
            (snprintf 600 (M2022_SERVICE_USER @ '' (uid '' @ decimal_int (user_uid i) @ '')'')) None
     else mk_check Failure ''service user'' (M2022_SERVICE_USER @ '' does not exist'')
            (Some ''install creates it''))"

definition check_job :: "service_info \<Rightarrow> check" where
  "check_job i =
    (if \<not> plist_exists i then
       mk_check Failure ''launchd job'' (''no '' @ M2022_SERVICE_PLIST) (Some ''install writes it'')
     else if \<not> loaded (launchd i) then
       mk_check Failure ''launchd job'' ''written but not loaded'' (Some ''run `sudo m2022-airbridge start`'')
     else if \<not> running (launchd i) then
       mk_check Failure ''launchd job'' ''loaded but not running''
         (Some (''launchd retries every 5 s; see '' @ M2022_SERVICE_LOG_DIR @ ''/launchd.log''))
     else mk_check Passed ''launchd job'' (snprintf 600 (''running, pid '' @ decimal_int (ld_pid (launchd i)))) None)"

definition check_usb :: "service_info \<Rightarrow> check" where
  "check_usb i =
    (if usb_printer i then mk_check Passed ''usb printer'' ''Samsung SL-M2022 (04e8:3321) on the bus'' None
     else mk_check Failure ''usb printer'' ''no SL-M2022 on USB''
            (Some ''switch the printer on and check the cable; `m2022-airbridge probe` lists devices''))"

definition check_bonjour :: "doctor_env \<Rightarrow> doctor_choices \<Rightarrow> check" where
  "check_bonjour env a =
    (let (found, found_port) = m2022_dnssd_find (dv_dns env) (da_name a) 3000;
         named = dquote @ da_name a @ dquote
     in if found then
          (if found_port = da_port a \<or> found_port < 0
           then mk_check Passed ''bonjour''
                  (snprintf 600 (named @ '' advertised on port '' @ decimal_int found_port)) None
           else mk_check Warning ''bonjour''
                  (snprintf 600 (named @ '' advertised on port '' @ decimal_int found_port @ '', expected ''
                     @ decimal_int (da_port a)))
                  (Some ''another instance with the same name? check `status`''))
        else mk_check Failure ''bonjour''
               (snprintf 600 (''no _ipp._tcp service called '' @ named @ '' within 3 s''))
               (Some ''the service is not running, or mDNSResponder is blocked; `dns-sd -B _ipp._tcp`''))"

definition check_ipp :: "doctor_env \<Rightarrow> doctor_choices \<Rightarrow> check" where
  "check_ipp env a =
    (let (rc, ipp) = m2022_ipp_printer_state (dv_ipp env) ''localhost'' (da_port a) ''/ipp/print'';
         reasons = (ip_reasons ipp \<noteq> [] \<and> ip_reasons ipp \<noteq> ''none'')
     in if rc = 0 then
          mk_check (if strstr (ip_reasons ipp) ''offline'' \<noteq> None then Warning else Passed) ''ipp''
            (snprintf 600 (ip_name ipp @ '' on localhost:'' @ decimal_int (da_port a) @ '': ''
               @ m2022_cups_state_name (ip_state ipp) @ (if reasons then '', '' else [])
               @ (if reasons then ip_reasons ipp else [])))
            (Some ''the printer is off or not answering; check `usb printer` above'')
        else
          mk_check Failure ''ipp''
            (snprintf 600 (''no answer on localhost:'' @ decimal_int (da_port a) @ '' ('' @ ip_reasons ipp @ '')''))
            (Some ''the service is not running on that port''))"

definition check_queue :: "service_info \<Rightarrow> check" where
  "check_queue i =
    (if our_queue i
     then mk_check Passed ''cups queue'' (snprintf 600 (our_queue_name i @ '' points at this printer'')) None
     else mk_check Warning ''cups queue'' ''no queue on this Mac points at the printer''
            (Some ''System Settings > Printers & Scanners > Add, or `sudo m2022-airbridge install`''))"

definition check_vendor :: "service_info \<Rightarrow> check list" where
  "check_vendor i =
    (if vendor_queue i
     then [mk_check Warning ''vendor queue'' (M2022_VENDOR_QUEUE @ '' still exists'')
             (Some (if vendor_driver i
                    then ''macOS re-adds it while the Samsung driver is installed: `sudo m2022-airbridge ''
                         @ ''remove-vendor-driver` (backs it up first)''
                    else ''two USB owners fight (ADR-006); `lpadmin -x '' @ M2022_VENDOR_QUEUE @ ''`''))]
     else [])"

text \<open>All the checks, in the order in which they are reported.\<close>

definition doctor_checks :: "doctor_env \<Rightarrow> doctor_choices \<Rightarrow> service_info \<Rightarrow> check list option" where
  "doctor_checks env a i =
    (let service = (if da_no_service a then [] else [check_binary env i, check_user i, check_job i]);
         network = [check_usb i, check_bonjour env a, check_ipp env a]
     in if da_no_service a then Some (service @ network)
        else map_option (\<lambda>log. service @ network @ [check_queue i] @ check_vendor i @ [log])
               (check_log (dv_now env) (dv_log env)))"

text \<open>The exit status and the text; \<open>None\<close> is a read behind an array or a string.\<close>

definition cmd_doctor :: "doctor_env \<Rightarrow> string list \<Rightarrow> (int \<times> string) option" where
  "cmd_doctor env args =
    (case doctor_args args of
       None \<Rightarrow> Some (2, [])
     | Some a \<Rightarrow>
         (case m2022_service_inspect (dv_inspect env) of
            None \<Rightarrow> None
          | Some i \<Rightarrow>
              (case doctor_checks env a i of
                 None \<Rightarrow> None
               | Some cs \<Rightarrow>
                   let head = ''m2022-airbridge '' @ dv_version env @ '' doctor'' @ newline;
                       t = fold report cs \<lparr>fails = 0, warns = 0, printed = head\<rparr>
                   in Some (if fails t = 0 then 0 else 1,
                            printed t @ decimal (fails t) @ '' failure(s), '' @ decimal (warns t)
                            @ '' warning(s)'' @ newline))))"

section \<open>The tally\<close>

text \<open>The worst report.\<close>

definition worst :: "check list \<Rightarrow> severity" where
  "worst cs = fold (\<lambda>c m. max (ck_level c) m) cs Passed"

lemma severity_less [simp]:
  "Passed < Warning" "Passed < Failure" "Warning < Failure" "\<not> Failure < s" "s \<le> Failure" "Passed \<le> s"
  by (cases s; simp add: less_severity_def less_eq_severity_def)+

lemma report_counts:
  "fails (fold report cs t) = fails t + length (filter (\<lambda>c. ck_level c = Failure) cs)
   \<and> warns (fold report cs t) = warns t + length (filter (\<lambda>c. ck_level c = Warning) cs)"
proof (induction cs arbitrary: t)
  case (Cons c cs)
  show ?case using Cons.IH [of "report c t"] by (cases "ck_level c") (simp_all add: report_def Let_def)
qed simp

lemma fold_max_failure:
  "fold (\<lambda>c m. max (ck_level c) m) cs s = Failure \<longleftrightarrow> s = Failure \<or> (\<exists>c \<in> set cs. ck_level c = Failure)"
proof (induction cs arbitrary: s)
  case (Cons c cs)
  have "max (ck_level c) s = Failure \<longleftrightarrow> s = Failure \<or> ck_level c = Failure"
    by (auto simp: max_def) (metis severity_less(5) antisym)
  then show ?case using Cons.IH [of "max (ck_level c) s"] by auto
qed simp

lemma worst_failure: "worst cs = Failure \<longleftrightarrow> (\<exists>c \<in> set cs. ck_level c = Failure)"
  by (simp add: worst_def fold_max_failure)

lemma no_fails: "fails (fold report cs \<lparr>fails = 0, warns = 0, printed = h\<rparr>) = 0 \<longleftrightarrow> worst cs < Failure"
proof -
  have "worst cs < Failure \<longleftrightarrow> worst cs \<noteq> Failure"
    by (cases "worst cs") simp_all
  then show ?thesis by (auto simp: report_counts worst_failure filter_empty_conv)
qed

text \<open>When a check fails.\<close>

lemma check_levels:
  "ck_level (check_binary env i) = Failure \<longleftrightarrow> \<not> binary_installed i"
  "ck_level (check_user i) = Failure \<longleftrightarrow> \<not> user_exists i"
  "ck_level (check_job i) = Failure \<longleftrightarrow> \<not> (plist_exists i \<and> loaded (launchd i) \<and> running (launchd i))"
  "ck_level (check_usb i) = Failure \<longleftrightarrow> \<not> usb_printer i"
  "ck_level (check_bonjour env a) = Failure \<longleftrightarrow> \<not> fst (m2022_dnssd_find (dv_dns env) (da_name a) 3000)"
  "ck_level (check_ipp env a) = Failure
     \<longleftrightarrow> fst (m2022_ipp_printer_state (dv_ipp env) ''localhost'' (da_port a) ''/ipp/print'') \<noteq> 0"
  "ck_level (check_queue i) \<noteq> Failure" "list_all (\<lambda>c. ck_level c \<noteq> Failure) (check_vendor i)"
  by (simp_all add: check_binary_def check_user_def check_job_def check_usb_def check_bonjour_def check_ipp_def
      check_queue_def check_vendor_def Let_def case_prod_unfold)

lemma check_log_level: "check_log now f = Some c \<Longrightarrow> ck_level c \<noteq> Failure"
  by (auto simp: check_log_def Let_def split: log_file.splits prod.splits if_splits)

section \<open>Properties\<close>

text \<open>C23: doctor succeeds exactly when a working printer is in place: binary, user, property list, a running
  job (unless --no-service), the printer on USB, the announcement on the network and an answer over IPP. The
  comment at the top of the file (lines 4 to 7) also lists the CUPS queue and the log among what must be in
  place for exit 0; in the code these, like a wrong port, are warnings and change nothing.\<close>

theorem doctor_exit_zero:
  assumes "cmd_doctor env args = Some (rc, out)" "doctor_args args = Some a"
    and "m2022_service_inspect (dv_inspect env) = Some i"
  shows "rc = 0 \<longleftrightarrow>
    (da_no_service a \<or> binary_installed i \<and> user_exists i \<and> plist_exists i \<and> loaded (launchd i)
       \<and> running (launchd i))
    \<and> usb_printer i \<and> fst (m2022_dnssd_find (dv_dns env) (da_name a) 3000)
    \<and> fst (m2022_ipp_printer_state (dv_ipp env) ''localhost'' (da_port a) ''/ipp/print'') = 0"
proof -
  obtain cs where cs: "doctor_checks env a i = Some cs"
    using assms by (auto simp: cmd_doctor_def split: option.splits)
  then have "rc = 0 \<longleftrightarrow> worst cs < Failure"
    using assms by (auto simp: cmd_doctor_def Let_def no_fails split: if_splits)
  moreover have "worst cs < Failure \<longleftrightarrow> (\<forall>c \<in> set cs. ck_level c \<noteq> Failure)"
    using worst_failure [of cs] by (cases "worst cs") auto
  moreover have "(\<forall>c \<in> set cs. ck_level c \<noteq> Failure) \<longleftrightarrow>
    (da_no_service a \<or> ck_level (check_binary env i) \<noteq> Failure \<and> ck_level (check_user i) \<noteq> Failure
       \<and> ck_level (check_job i) \<noteq> Failure)
    \<and> ck_level (check_usb i) \<noteq> Failure \<and> ck_level (check_bonjour env a) \<noteq> Failure
    \<and> ck_level (check_ipp env a) \<noteq> Failure"
    using cs check_log_level check_levels(7,8) [of i]
    by (auto simp: doctor_checks_def list_all_iff split: if_splits)
  ultimately show ?thesis unfolding check_levels by blast
qed

text \<open>A machine on which everything is in place.\<close>

definition healthy_machine :: inspect_env where
  "healthy_machine = quiet_machine\<lparr>ns_user := (\<lambda>_. Some (301, 301)), ns_usb := sample_bus\<rparr>"

definition healthy :: doctor_env where
  "healthy =
    \<lparr>dv_inspect = healthy_machine,
     dv_dns = \<lparr>dn_start = \<lparr>tv_sec = 5, tv_usec = 0\<rparr>, dn_browse_error = 0,
       dn_browse = [\<lparr>tk_now = \<lparr>tv_sec = 6, tv_usec = 0\<rparr>, tk_select = 1,
         tk_replies = [\<lparr>br_flags = 2, br_interface = 4, br_error = 0, br_name = M2022_SERVICE_PRINTER_NAME,
                        br_domain = ''local.''\<rparr>], tk_result = 0\<rparr>],
       dn_resolve_error = (\<lambda>_ _ _. -1), dn_resolve_now = \<lparr>tv_sec = 6, tv_usec = 0\<rparr>, dn_resolve = []\<rparr>,
     dv_ipp = \<lparr>ie_connect = (\<lambda>_ _. True), ie_uri = (\<lambda>_ _ _. []), ie_request = (\<lambda>_. (Some (\<lambda>_ _. None), 0)),
       ie_error = []\<rparr>,
     dv_log = Log_text [], dv_now = 0, dv_version = ''1.0''\<rparr>"

lemma healthy_inspect:
  "\<exists>i. m2022_service_inspect healthy_machine = Some i \<and> usb_printer i \<and> binary_installed i \<and> user_exists i
    \<and> plist_exists i \<and> loaded (launchd i) \<and> running (launchd i)"
proof -
  have none: "probe (sample_printer\<lparr>dev_desc := None\<rparr>) = None" by (simp add: probe_def)
  obtain ui where ui: "probe sample_printer = Some (ui, True)" "vid ui = 0x04e8" "pid ui = 0x3321"
    by (simp add: probe_def sample_printer_def describe_def alt_info_def)
  then have "found_from None 0 [sample_printer\<lparr>dev_desc := None\<rparr>, sample_printer] = [(1, ui, True)]"
    using none by (simp add: matches_def)
  then have "see_printers healthy_machine = Some True"
    using ui(2,3)
    by (simp add: see_printers_def healthy_machine_def quiet_machine_def m2022_usb_list_def sample_bus_def
        enumerate_loop_eq)
  moreover have "see_queues healthy_machine = Some (False, False, [])"
    by (simp add: see_queues_def healthy_machine_def quiet_machine_def m2022_cups_queues_def)
  moreover have "m2022_run_output (ns_run healthy_machine args) 4096 = (0, ''state = running'')" for args
    using run_output_whole [of "ns_run healthy_machine args" 4096 0]
    by (simp add: reads_on_def healthy_machine_def quiet_machine_def)
  then have "see_launchd healthy_machine = \<lparr>loaded = True, running = True, ld_pid = 0\<rparr>"
    by (simp add: see_launchd_def m2022_service_parse_launchctl_def)
  ultimately show ?thesis
    by (simp add: m2022_service_inspect_def Let_def) (simp add: healthy_machine_def quiet_machine_def)
qed

lemma doctor_exit_zero_witness: "\<exists>out. cmd_doctor healthy [] = Some (0, out)"
proof -
  obtain i where i: "m2022_service_inspect (dv_inspect healthy) = Some i" "usb_printer i" "binary_installed i"
    "user_exists i" "plist_exists i" "loaded (launchd i)" "running (launchd i)"
    using healthy_inspect by (auto simp: healthy_def)
  define a where "a = \<lparr>da_port = 8000, da_name = M2022_SERVICE_PRINTER_NAME, da_no_service = False\<rparr>"
  have a: "doctor_args [] = Some a" by (simp add: doctor_args_def a_def)
  have "check_log (dv_now healthy) (dv_log healthy) \<noteq> None"
    by (simp add: check_log_def healthy_def fgets_lines.simps [of "[]"])
  then obtain x where "cmd_doctor healthy [] = Some x"
    using i(1) a by (auto simp: cmd_doctor_def doctor_checks_def Let_def a_def)
  then obtain rc out where r: "cmd_doctor healthy [] = Some (rc, out)" by (cases x) auto
  have "fst (m2022_dnssd_find (dv_dns healthy) (da_name a) 3000)"
    by (simp add: m2022_dnssd_find_def healthy_def a_def deadline_of_def timer_ge_def browse_cb_def Let_def)
  moreover have "fst (m2022_ipp_printer_state (dv_ipp healthy) ''localhost'' (da_port a) ''/ipp/print'') = 0"
    by (simp add: m2022_ipp_printer_state_def healthy_def)
  ultimately have "rc = 0" using doctor_exit_zero [OF r a i(1)] i(2-7) by simp
  with r show ?thesis by blast
qed

end
