(* ===== verification/Json.thy ===== *)
theory Json
  imports Fileio
begin

text \<open>
  JSON as a client reads it: a reader for values with nesting, and what texts it reads as which value. The
  programs' output is shown to be JSON with these rules (theory \<open>Cmd_Probe\<close>). The reader of strings is
  that of the theory \<open>Fileio\<close>.
\<close>

section \<open>A reader\<close>

datatype json =
  JNull | JBool bool | JNum nat | JStr bytes | JArr "json list" | JObj "(bytes \<times> json) list"

definition json_ws :: "u8 \<Rightarrow> bool" where
  "json_ws b \<longleftrightarrow> b = 32 \<or> b = 9 \<or> b = 10 \<or> b = 13"

definition skip_ws :: "bytes \<Rightarrow> bytes" where
  "skip_ws s = dropWhile json_ws s"

definition json_number :: "bytes \<Rightarrow> nat" where
  "json_number ds = foldl (\<lambda>v c. v * 10 + (unat c - 48)) 0 ds"

text \<open>Values, the elements up to the closing bracket, the members up to the closing brace; by depth.\<close>

fun json_value :: "nat \<Rightarrow> bytes \<Rightarrow> (json \<times> bytes) option"
  and json_elems :: "nat \<Rightarrow> bytes \<Rightarrow> (json list \<times> bytes) option"
  and json_members :: "nat \<Rightarrow> bytes \<Rightarrow> ((bytes \<times> json) list \<times> bytes) option" where
  "json_value 0 s = None"
| "json_value (Suc n) s =
    (case skip_ws s of
       [] \<Rightarrow> None
     | c # cs \<Rightarrow>
         if c = 34 then map_option (\<lambda>(t, r). (JStr t, r)) (json_body cs)
         else if c = 91 then
           (if skip_ws cs \<noteq> [] \<and> hd (skip_ws cs) = 93 then Some (JArr [], tl (skip_ws cs))
            else map_option (\<lambda>(vs, r). (JArr vs, r)) (json_elems n cs))
         else if c = 123 then
           (if skip_ws cs \<noteq> [] \<and> hd (skip_ws cs) = 125 then Some (JObj [], tl (skip_ws cs))
            else map_option (\<lambda>(ms, r). (JObj ms, r)) (json_members n cs))
         else if take 4 (c # cs) = ascii ''null'' then Some (JNull, drop 4 (c # cs))
         else if take 4 (c # cs) = ascii ''true'' then Some (JBool True, drop 4 (c # cs))
         else if take 5 (c # cs) = ascii ''false'' then Some (JBool False, drop 5 (c # cs))
         else if is_digit c then
           (let ds = takeWhile is_digit (c # cs) in Some (JNum (json_number ds), drop (length ds) (c # cs)))
         else None)"
| "json_elems 0 s = None"
| "json_elems (Suc n) s =
    (case json_value n s of
       None \<Rightarrow> None
     | Some (v, r) \<Rightarrow>
         (case skip_ws r of
            [] \<Rightarrow> None
          | c # cs \<Rightarrow>
              if c = 93 then Some ([v], cs)
              else if c = 44 then map_option (\<lambda>(vs, r). (v # vs, r)) (json_elems n cs)
              else None))"
| "json_members 0 s = None"
| "json_members (Suc n) s =
    (case skip_ws s of
       [] \<Rightarrow> None
     | q # ks \<Rightarrow>
         if q \<noteq> 34 then None
         else case json_body ks of
           None \<Rightarrow> None
         | Some (k, r) \<Rightarrow>
             (case skip_ws r of
                [] \<Rightarrow> None
              | c # cs \<Rightarrow>
                  if c \<noteq> 58 then None
                  else case json_value n cs of
                    None \<Rightarrow> None
                  | Some (v, r) \<Rightarrow>
                      (case skip_ws r of
                         [] \<Rightarrow> None
                       | c # cs \<Rightarrow>
                           if c = 125 then Some ([(k, v)], cs)
                           else if c = 44 then map_option (\<lambda>(ms, r). ((k, v) # ms, r)) (json_members n cs)
                           else None)))"

section \<open>Texts and their values\<close>

text \<open>The text \<open>s\<close> is read as \<open>v\<close>, whatever follows that is no digit, from some depth on.\<close>

definition denotes :: "json \<Rightarrow> bytes \<Rightarrow> bool" where
  "denotes v s \<longleftrightarrow> (\<exists>n0. \<forall>n \<ge> n0. \<forall>rest. (rest = [] \<or> \<not> is_digit (hd rest)) \<longrightarrow>
     json_value n (s @ rest) = Some (v, rest))"

definition denotes_elems :: "json list \<Rightarrow> bytes \<Rightarrow> bool" where
  "denotes_elems vs s \<longleftrightarrow> (\<exists>n0. \<forall>n \<ge> n0. \<forall>rest. json_elems n (s @ 93 # rest) = Some (vs, rest))"

definition denotes_members :: "(bytes \<times> json) list \<Rightarrow> bytes \<Rightarrow> bool" where
  "denotes_members ms s \<longleftrightarrow> (\<exists>n0. \<forall>n \<ge> n0. \<forall>rest. json_members n (s @ 125 # rest) = Some (ms, rest))"

definition all_ws :: "bytes \<Rightarrow> bool" where
  "all_ws s \<longleftrightarrow> list_all json_ws s"

lemma all_ws_simps [simp]: "all_ws []" "all_ws (b # s) \<longleftrightarrow> json_ws b \<and> all_ws s"
  by (simp_all add: all_ws_def)

lemma skip_ws_append: "all_ws w \<Longrightarrow> skip_ws (w @ s) = skip_ws s"
  by (induction w) (simp_all add: skip_ws_def)

lemma skip_ws_Cons [simp]: "\<not> json_ws c \<Longrightarrow> skip_ws (c # s) = c # s"
  by (simp add: skip_ws_def)

lemma value_ws: "all_ws w \<Longrightarrow> json_value n (w @ s) = json_value n s"
  by (cases n) (simp_all add: skip_ws_append)

lemma members_ws: "all_ws w \<Longrightarrow> json_members n (w @ s) = json_members n s"
  by (cases n) (simp_all add: skip_ws_append)

lemma elems_ws: "all_ws w \<Longrightarrow> json_elems n (w @ s) = json_elems n s"
  by (cases n) (simp_all add: value_ws)

text \<open>Rules for the depth.\<close>

lemma from_SucI: "(\<And>n. n \<ge> m \<Longrightarrow> P (Suc n)) \<Longrightarrow> \<exists>k. \<forall>n \<ge> k. P n"
proof (intro exI [of _ "Suc m"] allI impI)
  fix n assume *: "\<And>n. n \<ge> m \<Longrightarrow> P (Suc n)" and "Suc m \<le> n"
  then obtain k where "n = Suc k" "m \<le> k" by (cases n) auto
  then show "P n" using * by simp
qed

lemma denotes_SucI:
  "(\<And>n rest. n \<ge> m \<Longrightarrow> rest = [] \<or> \<not> is_digit (hd rest) \<Longrightarrow> json_value (Suc n) (s @ rest) = Some (v, rest))
   \<Longrightarrow> denotes v s"
  unfolding denotes_def by (rule from_SucI [where m = m]) blast

lemma denotes_string: "denotes (JStr s) (m2022_json_string (Some s))"
  by (rule denotes_SucI [where m = 0])
    (simp add: m2022_json_string_def json_ws_def json_body_chars)

lemma denotes_null: "denotes JNull (ascii ''null'')"
  by (rule denotes_SucI [where m = 0]) (simp add: ascii_def json_ws_def)

lemma denotes_bool: "denotes (JBool b) (ascii (if b then ''true'' else ''false''))"
  by (rule denotes_SucI [where m = 0]) (cases b; simp add: ascii_def json_ws_def)

text \<open>A text in quotes that needs no escapes.\<close>

definition plain_json :: "string \<Rightarrow> bool" where
  "plain_json k \<longleftrightarrow> list_all (\<lambda>c. json_char c = [c]) (ascii k)"

lemma plain_concat: "plain_json k \<Longrightarrow> concat (map json_char (ascii k)) = ascii k"
  unfolding plain_json_def by (induction k) (auto simp: ascii_def)

lemma denotes_plain: "plain_json k \<Longrightarrow> denotes (JStr (ascii k)) (34 # ascii k @ [34])"
  using denotes_string [of "ascii k"] plain_concat [of k] by (simp add: m2022_json_string_def)

text \<open>Numbers.\<close>

lemma json_number_decimal: "json_number (ascii (decimal n)) = n"
proof (induction n rule: decimal.induct)
  case (1 n)
  have digit: "unat (word_of_nat (48 + k) :: u8) - 48 = k" if "k < 10" for k
  proof -
    have "unat (word_of_nat (48 + k) :: u8) = 48 + k" using that by (intro unat_of_nat_u8) simp
    then show ?thesis by simp
  qed
  show ?case
  proof (cases "n < 10")
    case True
    then show ?thesis using digit [of n] by (subst decimal.simps) (simp add: ascii_def json_number_def del: of_nat_add)
  next
    case False
    then have "ascii (decimal n) = ascii (decimal (n div 10)) @ [word_of_nat (48 + n mod 10)]"
      by (subst decimal.simps) (simp add: ascii_def)
    then show ?thesis using "1.IH" False digit [of "n mod 10"] by (simp add: json_number_def del: of_nat_add)
  qed
qed

lemma digit_no_ws: "is_digit c \<Longrightarrow> \<not> json_ws c \<and> c \<notin> {34, 91, 123, 110, 116, 102}"
  by (auto simp: json_ws_def)

lemma denotes_number: "denotes (JNum n) (ascii (decimal n))"
proof (rule denotes_SucI [where m = 0])
  fix k and rest :: bytes
  assume rest: "rest = [] \<or> \<not> is_digit (hd rest)"
  obtain c cs where d: "ascii (decimal n) = c # cs" using decimal_not_Nil [of n] by (cases "decimal n") (auto simp: ascii_def)
  have all: "\<forall>b \<in> set (ascii (decimal n)). is_digit b" using decimal_digits by blast
  then have c: "is_digit c" by (simp add: d)
  note no = digit_no_ws [OF c]
  have "takeWhile is_digit (ascii (decimal n) @ rest) = ascii (decimal n)"
  proof -
    have "takeWhile is_digit rest = []" using rest by (cases rest) auto
    then show ?thesis using all takeWhile_append2 [of "ascii (decimal n)" is_digit rest] by simp
  qed
  then have tw: "takeWhile is_digit (c # cs @ rest) = c # cs" by (simp add: d)
  have len: "drop (length (c # cs)) (c # cs @ rest) = rest" by simp
  have words: "take 4 (c # cs @ rest) \<noteq> ascii ''null''" "take 4 (c # cs @ rest) \<noteq> ascii ''true''"
    "take 5 (c # cs @ rest) \<noteq> ascii ''false''"
    using no by (auto simp: ascii_def)
  have "skip_ws (ascii (decimal n) @ rest) = c # cs @ rest" using no by (simp add: d)
  then show "json_value (Suc k) (ascii (decimal n) @ rest) = Some (JNum n, rest)"
    using no c words tw len json_number_decimal [of n]
    by (simp del: takeWhile.simps take_Suc_Cons drop_Suc_Cons add: d Let_def)
qed

section \<open>Objects and arrays\<close>

lemma denotes_ws: "all_ws w \<Longrightarrow> denotes v s \<Longrightarrow> denotes v (w @ s)"
  unfolding denotes_def by (simp add: value_ws)

lemma members_wsI: "all_ws w \<Longrightarrow> denotes_members ms s \<Longrightarrow> denotes_members ms (w @ s)"
  unfolding denotes_members_def by (simp add: members_ws)

lemma elems_wsI: "all_ws w \<Longrightarrow> denotes_elems vs s \<Longrightarrow> denotes_elems vs (w @ s)"
  unfolding denotes_elems_def by (simp add: elems_ws)

lemma ws_no_digit: "all_ws w \<Longrightarrow> \<not> is_digit c \<Longrightarrow> w @ c # rest = [] \<or> \<not> is_digit (hd (w @ c # rest))"
  by (cases w) (auto simp: json_ws_def)

lemma elems_last: assumes "denotes v s" "all_ws w" shows "denotes_elems [v] (s @ w)"
proof -
  obtain m where m: "\<And>n rest. n \<ge> m \<Longrightarrow> rest = [] \<or> \<not> is_digit (hd rest) \<Longrightarrow> json_value n (s @ rest) = Some (v, rest)"
    using assms(1) by (auto simp: denotes_def)
  show ?thesis unfolding denotes_elems_def
  proof (rule from_SucI [where m = m], rule allI)
    fix n and rest :: bytes assume "m \<le> n"
    from m [OF this ws_no_digit [OF assms(2), of 93 rest]]
    show "json_elems (Suc n) ((s @ w) @ 93 # rest) = Some ([v], rest)"
      using assms(2) by (simp add: skip_ws_append json_ws_def)
  qed
qed

lemma elems_more:
  assumes "denotes v s" "denotes_elems vs t" shows "denotes_elems (v # vs) (s @ 44 # t)"
proof -
  obtain m where m: "\<And>n rest. n \<ge> m \<Longrightarrow> rest = [] \<or> \<not> is_digit (hd rest) \<Longrightarrow> json_value n (s @ rest) = Some (v, rest)"
    using assms(1) by (auto simp: denotes_def)
  obtain k where k: "\<And>n rest. n \<ge> k \<Longrightarrow> json_elems n (t @ 93 # rest) = Some (vs, rest)"
    using assms(2) by (auto simp: denotes_elems_def)
  show ?thesis unfolding denotes_elems_def
  proof (rule from_SucI [where m = "max m k"], rule allI)
    fix n and rest :: bytes assume "max m k \<le> n"
    then show "json_elems (Suc n) ((s @ 44 # t) @ 93 # rest) = Some (v # vs, rest)"
      using m [of n "44 # t @ 93 # rest"] k [of n rest] by (simp add: json_ws_def)
  qed
qed

text \<open>A member as the programs print it: the name in quotes, a colon, a blank, the value.\<close>

definition json_field :: "string \<Rightarrow> bytes \<Rightarrow> bytes" where
  "json_field k t = 34 # ascii k @ 34 # 58 # 32 # t"

lemma field_value:
  assumes "plain_json k" "json_value n (t @ rest) = Some (v, rest)"
  shows "json_members (Suc n) (json_field k t @ rest) =
    (case skip_ws rest of
       [] \<Rightarrow> None
     | c # cs \<Rightarrow>
         if c = 125 then Some ([(ascii k, v)], cs)
         else if c = 44 then map_option (\<lambda>(ms, r). ((ascii k, v) # ms, r)) (json_members n cs)
         else None)"
proof -
  have "json_body (ascii k @ 34 # 58 # 32 # t @ rest) = Some (ascii k, 58 # 32 # t @ rest)"
    using json_body_chars [of "ascii k" "58 # 32 # t @ rest"] plain_concat [OF assms(1)] by simp
  moreover have "json_value n (32 # t @ rest) = Some (v, rest)"
    using value_ws [of "[32]" n "t @ rest"] assms(2) by (simp add: json_ws_def)
  ultimately show ?thesis by (simp add: json_field_def json_ws_def)
qed

lemma members_last:
  assumes "plain_json k" "denotes v t" "all_ws w" shows "denotes_members [(ascii k, v)] (json_field k t @ w)"
proof -
  obtain m where m: "\<And>n rest. n \<ge> m \<Longrightarrow> rest = [] \<or> \<not> is_digit (hd rest) \<Longrightarrow> json_value n (t @ rest) = Some (v, rest)"
    using assms(2) by (auto simp: denotes_def)
  show ?thesis unfolding denotes_members_def
  proof (rule from_SucI [where m = m], rule allI)
    fix n and rest :: bytes assume "m \<le> n"
    from m [OF this ws_no_digit [OF assms(3), of 125 rest]]
    show "json_members (Suc n) ((json_field k t @ w) @ 125 # rest) = Some ([(ascii k, v)], rest)"
      using field_value [OF assms(1), of n t "w @ 125 # rest" v] assms(3)
      by (simp add: skip_ws_append json_ws_def)
  qed
qed

lemma members_more:
  assumes "plain_json k" "denotes v t" "denotes_members ms s"
  shows "denotes_members ((ascii k, v) # ms) (json_field k t @ 44 # s)"
proof -
  obtain m where m: "\<And>n rest. n \<ge> m \<Longrightarrow> rest = [] \<or> \<not> is_digit (hd rest) \<Longrightarrow> json_value n (t @ rest) = Some (v, rest)"
    using assms(2) by (auto simp: denotes_def)
  obtain l where l: "\<And>n rest. n \<ge> l \<Longrightarrow> json_members n (s @ 125 # rest) = Some (ms, rest)"
    using assms(3) by (auto simp: denotes_members_def)
  show ?thesis unfolding denotes_members_def
  proof (rule from_SucI [where m = "max m l"], rule allI)
    fix n and rest :: bytes assume "max m l \<le> n"
    then show "json_members (Suc n) ((json_field k t @ 44 # s) @ 125 # rest) = Some ((ascii k, v) # ms, rest)"
      using field_value [OF assms(1), of n t "44 # s @ 125 # rest" v] m [of n "44 # s @ 125 # rest"] l [of n rest]
      by (simp add: json_ws_def)
  qed
qed

text \<open>A list of elements or members does not start with its closing bracket.\<close>

lemma elems_open: "denotes_elems vs s \<Longrightarrow> \<not> (skip_ws (s @ 93 # rest) \<noteq> [] \<and> hd (skip_ws (s @ 93 # rest)) = 93)"
proof
  assume d: "denotes_elems vs s" and h: "skip_ws (s @ 93 # rest) \<noteq> [] \<and> hd (skip_ws (s @ 93 # rest)) = 93"
  obtain m where m: "\<forall>n \<ge> m. json_elems n (s @ 93 # rest) = Some (vs, rest)" using d by (auto simp: denotes_elems_def)
  have "json_elems (Suc (Suc m)) (s @ 93 # rest) = Some (vs, rest)" by (rule m [rule_format]) simp
  moreover have "json_value (Suc m) (s @ 93 # rest) = None"
    using h by (cases "skip_ws (s @ 93 # rest)") (auto simp: ascii_def)
  ultimately show False by simp
qed

lemma members_open:
  "denotes_members ms s \<Longrightarrow> \<not> (skip_ws (s @ 125 # rest) \<noteq> [] \<and> hd (skip_ws (s @ 125 # rest)) = 125)"
proof
  assume d: "denotes_members ms s" and h: "skip_ws (s @ 125 # rest) \<noteq> [] \<and> hd (skip_ws (s @ 125 # rest)) = 125"
  obtain m where m: "\<forall>n \<ge> m. json_members n (s @ 125 # rest) = Some (ms, rest)" using d by (auto simp: denotes_members_def)
  have "json_members (Suc m) (s @ 125 # rest) = Some (ms, rest)" by (rule m [rule_format]) simp
  then show False using h by (cases "skip_ws (s @ 125 # rest)") auto
qed

lemma denotes_array: assumes "denotes_elems vs s" shows "denotes (JArr vs) (91 # s @ [93])"
proof -
  obtain m where m: "\<And>n rest. n \<ge> m \<Longrightarrow> json_elems n (s @ 93 # rest) = Some (vs, rest)"
    using assms by (auto simp: denotes_elems_def)
  show ?thesis
    by (rule denotes_SucI [where m = m])
      (use m elems_open [OF assms] in \<open>auto simp: json_ws_def simp del: json_elems.simps\<close>)
qed

lemma denotes_empty_array: "all_ws w \<Longrightarrow> denotes (JArr []) (91 # w @ [93])"
  by (rule denotes_SucI [where m = 0]) (simp add: json_ws_def skip_ws_append)

lemma denotes_object: assumes "denotes_members ms s" shows "denotes (JObj ms) (123 # s @ [125])"
proof -
  obtain m where m: "\<And>n rest. n \<ge> m \<Longrightarrow> json_members n (s @ 125 # rest) = Some (ms, rest)"
    using assms by (auto simp: denotes_members_def)
  show ?thesis
    by (rule denotes_SucI [where m = m])
      (use m members_open [OF assms] in \<open>auto simp: json_ws_def simp del: json_members.simps\<close>)
qed

end
