(* ===== verification/Cmd_Probe.thy ===== *)
theory Cmd_Probe
  imports Cmd_Send Cups Json
begin

text \<open>
  Model of src/cli/cmd_probe.c: what the host, its USB printers and its print queues look like, as text or
  as JSON, and the exit status. libusb, libcups and the system's answers are the environment.
\<close>

section \<open>Querying\<close>

abbreviation (input) MAX_DEVICES :: nat where "MAX_DEVICES \<equiv> 8"
abbreviation (input) MAX_QUEUES :: nat where "MAX_QUEUES \<equiv> 32"

text \<open>\<open>pp_device_id\<close> is the C string in the buffer, \<open>pp_open_error\<close> 0 when the printer was queried.\<close>

record probed_printer =
  pp_info :: usb_info
  pp_device_id :: bytes
  pp_open_error :: int
  pp_status_error :: int
  pp_status :: u8

record utsname =
  un_sysname :: string
  un_release :: string
  un_machine :: string

record probe_env =
  pe_usb :: usb_env
  pe_ctrl :: "nat \<Rightarrow> control"
  pe_strerror :: "int \<Rightarrow> string"
  pe_dests :: "cups_dest list"
  pe_uname :: utsname
  pe_osversion :: "string option"
  pe_version :: string

definition c_string :: "bytes \<Rightarrow> bytes" where
  "c_string s = takeWhile (\<lambda>b. b \<noteq> 0) s"

text \<open>One printer of the list, from a zeroed element with its \<open>info\<close>.\<close>

definition query :: "probe_env \<Rightarrow> usb_info \<Rightarrow> usb_sys \<Rightarrow> probed_printer \<times> usb_sys" where
  "query env i sys =
    (let m = \<lparr>match_vid = vid i, match_pid = pid i, match_serial = Some (serial i)\<rparr>;
         (rc, dev, sys1) = m2022_usb_open (pe_usb env) (Some m) sys
     in case dev of
          None \<Rightarrow>
            (\<lparr>pp_info = i, pp_device_id = [], pp_open_error = rc, pp_status_error = rc, pp_status = 0\<rparr>, sys1)
        | Some d \<Rightarrow>
            let (idrc, idbuf) = m2022_usb_get_device_id (pe_ctrl env (handle d)) d 1024;
                (strc, st) = m2022_usb_get_port_status (pe_ctrl env (handle d)) d
            in (\<lparr>pp_info = i, pp_device_id = c_string (case idbuf of None \<Rightarrow> [] | Some b \<Rightarrow> b),
                 pp_open_error = 0, pp_status_error = strc, pp_status = (case st of None \<Rightarrow> 0 | Some b \<Rightarrow> b)\<rparr>,
                m2022_usb_close dev sys1))"

text \<open>The loop over the printers.\<close>

fun query_all :: "probe_env \<Rightarrow> usb_info list \<Rightarrow> usb_sys \<Rightarrow> probed_printer list \<times> usb_sys" where
  "query_all env [] sys = ([], sys)"
| "query_all env (i # is) sys =
    (let (p, sys1) = query env i sys; (ps, sys2) = query_all env is sys1 in (p # ps, sys2))"

definition os_version :: "probe_env \<Rightarrow> string" where
  "os_version env = (case pe_osversion env of None \<Rightarrow> [] | Some v \<Rightarrow> take 63 v)"

section \<open>Text\<close>

definition printer_text :: "probe_env \<Rightarrow> nat \<times> probed_printer \<Rightarrow> string" where
  "printer_text env = (\<lambda>(n, p).
    let d = pp_info p in
    ''  ['' @ decimal n @ ''] '' @ hex4 (vid d) @ '':'' @ hex4 (pid d) @ '' bus '' @ decimal (unat (bus d))
    @ '' addr '' @ decimal (unat (address d)) @ ''  '' @ dquote @ manufacturer d @ dquote @ '' '' @ dquote
    @ product_name d @ dquote @ '' serial '' @ dquote @ serial d @ dquote @ newline
    @ ''      interface '' @ decimal (unat (interface_number d)) @ '' alt '' @ decimal (unat (alt_setting d))
    @ '' protocol '' @ decimal (unat (protocol d)) @ '' (''
    @ (if protocol d = 1 then ''unidirectional'' else if protocol d = 2 then ''bidirectional'' else ''1284.4'')
    @ ''), bulk out 0x'' @ hex2 (ep_out d) @ '' ('' @ decimal (unat (ep_out_max_packet d))
    @ '' bytes/packet), bulk in 0x'' @ hex2 (ep_in d) @ '', bcdDevice '' @ hex_nat (unat (bcd_device d) div 256)
    @ ''.'' @ hex2 (ucast (bcd_device d AND 0xff)) @ newline
    @ (if pp_open_error p \<noteq> 0 then
         ''      open: '' @ m2022_usb_strerror (pe_strerror env) (pp_open_error p) @ newline
       else
         ''      device id: '' @ (if pp_device_id p \<noteq> [] then byte_chars (pp_device_id p) else ''(none)'') @ newline
         @ (if pp_status_error p \<noteq> 0 then
              ''      port status: '' @ m2022_usb_strerror (pe_strerror env) (pp_status_error p) @ newline
            else
              let (reasons, nr) = m2022_usb_status_reasons (pp_status p) 4
              in ''      port status: 0x'' @ hex2 (pp_status p) @ (if nr \<noteq> 0 then '' ('' else '' (ready'')
                 @ separated '', '' (take nr reasons) @ '')'' @ newline)))"

definition queue_text :: "cups_queue \<Rightarrow> string" where
  "queue_text q =
    ''  '' @ q_name q @ (if q_is_default q then '' (default)'' else []) @ '': '' @ q_make_model q @ '', ''
    @ q_device_uri q @ '', '' @ m2022_cups_state_name (q_state q) @ '', reasons: '' @ q_state_reasons q @ newline"

definition print_text :: "probe_env \<Rightarrow> probed_printer list \<Rightarrow> cups_queue list \<Rightarrow> string" where
  "print_text env ps qs =
    ''m2022-airbridge '' @ pe_version env @ '' probe'' @ newline @ newline @ ''Host:'' @ newline @ ''  ''
    @ un_sysname (pe_uname env) @ '' '' @ un_release (pe_uname env) @ '' '' @ un_machine (pe_uname env)
    @ (if os_version env \<noteq> [] then '', OS '' else []) @ os_version env @ newline
    @ newline @ ''USB printers: '' @ decimal (length ps) @ newline
    @ concat (map (printer_text env) (enumerate 0 ps))
    @ newline @ ''CUPS queues: '' @ decimal (length qs) @ newline
    @ concat (map queue_text qs)"

section \<open>JSON\<close>

text \<open>What \<open>m2022_json_string\<close> writes for a C string, and a quoted text that a format string spells out.\<close>

definition json_text :: "string \<Rightarrow> bytes" where
  "json_text s = m2022_json_string (Some (ascii s))"

definition in_quotes :: "string \<Rightarrow> bytes" where
  "in_quotes s = 34 # ascii s @ [34]"

definition comma :: bytes where "comma = ascii '', ''"

definition comma_line :: bytes where "comma_line = ascii ('','' @ newline @ ''     '')"

text \<open>The loops over reasons, printers and queues put the separator before all elements but the first.\<close>

fun separated_bytes :: "bytes \<Rightarrow> bytes list \<Rightarrow> bytes" where
  "separated_bytes sep [] = []"
| "separated_bytes sep [s] = s"
| "separated_bytes sep (s # t # ss) = s @ sep @ separated_bytes sep (t # ss)"

definition printer_json :: "probe_env \<Rightarrow> probed_printer \<Rightarrow> bytes" where
  "printer_json env p =
    (let d = pp_info p;
         (reasons, nr) = (if pp_status_error p = 0 then m2022_usb_status_reasons (pp_status p) 4 else ([], 0))
     in [123] @ json_field ''vid'' (in_quotes (''0x'' @ hex4 (vid d)))
      @ comma @ json_field ''pid'' (in_quotes (''0x'' @ hex4 (pid d)))
      @ comma @ json_field ''bcd_device'' (in_quotes (''0x'' @ hex4 (bcd_device d)))
      @ comma @ json_field ''bus'' (ascii (decimal (unat (bus d))))
      @ comma @ json_field ''address'' (ascii (decimal (unat (address d))))
      @ comma @ json_field ''manufacturer'' (json_text (manufacturer d))
      @ comma @ json_field ''product'' (json_text (product_name d))
      @ comma @ json_field ''serial'' (json_text (serial d))
      @ comma_line @ json_field ''interface'' (ascii (decimal (unat (interface_number d))))
      @ comma @ json_field ''alt_setting'' (ascii (decimal (unat (alt_setting d))))
      @ comma @ json_field ''protocol'' (ascii (decimal (unat (protocol d))))
      @ comma @ json_field ''ep_out'' (in_quotes (''0x'' @ hex2 (ep_out d)))
      @ comma @ json_field ''ep_out_max_packet'' (ascii (decimal (unat (ep_out_max_packet d))))
      @ comma @ json_field ''ep_in'' (in_quotes (''0x'' @ hex2 (ep_in d)))
      @ comma_line @ json_field ''open_error''
          (if pp_open_error p \<noteq> 0 then json_text (m2022_usb_strerror (pe_strerror env) (pp_open_error p))
           else m2022_json_string None)
      @ comma @ json_field ''device_id''
          (if pp_open_error p \<noteq> 0 then m2022_json_string None else m2022_json_string (Some (pp_device_id p)))
      @ (if pp_status_error p = 0 then
           comma @ json_field ''port_status'' (in_quotes (''0x'' @ hex2 (pp_status p)))
           @ comma @ json_field ''status_reasons''
               ([91] @ separated_bytes comma (map json_text (take nr reasons)) @ [93])
         else
           comma @ json_field ''port_status'' (ascii ''null'') @ comma @ json_field ''status_reasons'' (ascii ''[]''))
      @ [125])"

definition queue_json :: "cups_queue \<Rightarrow> bytes" where
  "queue_json q =
    [123] @ json_field ''name'' (json_text (q_name q))
    @ comma @ json_field ''make_model'' (json_text (q_make_model q))
    @ comma @ json_field ''device_uri'' (json_text (q_device_uri q))
    @ comma @ json_field ''state'' (json_text (m2022_cups_state_name (q_state q)))
    @ comma @ json_field ''state_reasons'' (json_text (q_state_reasons q))
    @ comma @ json_field ''is_default'' (ascii (if q_is_default q then ''true'' else ''false'')) @ [125]"

text \<open>A printer or queue starts a line of its own.\<close>

definition item_lines :: "bytes list \<Rightarrow> bytes" where
  "item_lines items = separated_bytes [44] (map (\<lambda>s. ascii (newline @ ''    '') @ s) items)"

definition print_json :: "probe_env \<Rightarrow> probed_printer list \<Rightarrow> cups_queue list \<Rightarrow> bytes" where
  "print_json env ps qs =
    (let u = pe_uname env; osver = os_version env
     in [123] @ ascii (newline @ ''  '') @ json_field ''version'' (json_text (pe_version env))
      @ [44] @ ascii (newline @ ''  '') @ json_field ''host''
          ([123] @ json_field ''sysname'' (json_text (un_sysname u))
           @ comma @ json_field ''release'' (json_text (un_release u))
           @ comma @ json_field ''machine'' (json_text (un_machine u))
           @ comma @ json_field ''os_version''
               (if osver \<noteq> [] then json_text osver else m2022_json_string None) @ [125])
      @ [44] @ ascii (newline @ ''  '') @ json_field ''usb_printers''
          ([91] @ item_lines (map (printer_json env) ps) @ ascii (newline @ ''  '') @ [93])
      @ [44] @ ascii (newline @ ''  '') @ json_field ''cups_queues''
          ([91] @ item_lines (map queue_json qs) @ ascii (newline @ ''  '') @ [93])
      @ ascii newline @ [125] @ ascii newline)"

section \<open>The command\<close>

fun probe_args :: "string list \<Rightarrow> bool \<Rightarrow> bool \<Rightarrow> (bool \<times> bool) option" where
  "probe_args [] json quiet = Some (json, quiet)"
| "probe_args (arg # rest) json quiet =
    (if arg = ''--json'' then probe_args rest True quiet
     else if arg = ''--quiet'' then probe_args rest json True
     else None)"

definition probe_printers :: "probe_env \<Rightarrow> usb_sys \<Rightarrow> probed_printer list \<times> usb_sys" where
  "probe_printers env sys =
    (let (rc, infos, n, sys1) = m2022_usb_list (pe_usb env) MAX_DEVICES sys;
         np = (if rc \<noteq> 0 then 0 else case n of None \<Rightarrow> 0 | Some k \<Rightarrow> k);
         np = (if np > MAX_DEVICES then MAX_DEVICES else np)
     in query_all env (take np infos) sys1)"

text \<open>The exit status, what is printed, and libusb's handles.\<close>

definition cmd_probe :: "probe_env \<Rightarrow> string list \<Rightarrow> usb_sys \<Rightarrow> int \<times> bytes \<times> usb_sys" where
  "cmd_probe env args sys =
    (case probe_args args False False of
       None \<Rightarrow> (2, [], sys)
     | Some (json, quiet) \<Rightarrow>
         let (printers, sys1) = probe_printers env sys;
             (queues, nq) = m2022_cups_queues (pe_dests env) MAX_QUEUES;
             nq = (if nq > MAX_QUEUES then MAX_QUEUES else nq);
             qs = take nq queues;
             out = (if json then print_json env printers qs
                    else if \<not> quiet then ascii (print_text env printers qs) else [])
         in (if printers = [] then 1
             else if list_ex (\<lambda>p. pp_open_error p = 0) printers then 0 else 2, out, sys1))"

section \<open>The JSON text\<close>

text \<open>The values that the text stands for.\<close>

definition text_value :: "string \<Rightarrow> json" where
  "text_value s = JStr (ascii s)"

definition printer_value :: "probe_env \<Rightarrow> probed_printer \<Rightarrow> json" where
  "printer_value env p =
    (let d = pp_info p
     in JObj
      [(ascii ''vid'', text_value (''0x'' @ hex4 (vid d))), (ascii ''pid'', text_value (''0x'' @ hex4 (pid d))),
       (ascii ''bcd_device'', text_value (''0x'' @ hex4 (bcd_device d))), (ascii ''bus'', JNum (unat (bus d))),
       (ascii ''address'', JNum (unat (address d))), (ascii ''manufacturer'', text_value (manufacturer d)),
       (ascii ''product'', text_value (product_name d)), (ascii ''serial'', text_value (serial d)),
       (ascii ''interface'', JNum (unat (interface_number d))), (ascii ''alt_setting'', JNum (unat (alt_setting d))),
       (ascii ''protocol'', JNum (unat (protocol d))), (ascii ''ep_out'', text_value (''0x'' @ hex2 (ep_out d))),
       (ascii ''ep_out_max_packet'', JNum (unat (ep_out_max_packet d))),
       (ascii ''ep_in'', text_value (''0x'' @ hex2 (ep_in d))),
       (ascii ''open_error'', if pp_open_error p \<noteq> 0
          then text_value (m2022_usb_strerror (pe_strerror env) (pp_open_error p)) else JNull),
       (ascii ''device_id'', if pp_open_error p \<noteq> 0 then JNull else JStr (pp_device_id p)),
       (ascii ''port_status'', if pp_status_error p = 0 then text_value (''0x'' @ hex2 (pp_status p)) else JNull),
       (ascii ''status_reasons'', JArr (if pp_status_error p = 0
          then map text_value (fst (m2022_usb_status_reasons (pp_status p) 4)) else []))])"

definition queue_value :: "cups_queue \<Rightarrow> json" where
  "queue_value q =
    JObj [(ascii ''name'', text_value (q_name q)), (ascii ''make_model'', text_value (q_make_model q)),
      (ascii ''device_uri'', text_value (q_device_uri q)),
      (ascii ''state'', text_value (m2022_cups_state_name (q_state q))),
      (ascii ''state_reasons'', text_value (q_state_reasons q)), (ascii ''is_default'', JBool (q_is_default q))]"

definition probe_value :: "probe_env \<Rightarrow> probed_printer list \<Rightarrow> cups_queue list \<Rightarrow> json" where
  "probe_value env ps qs =
    JObj [(ascii ''version'', text_value (pe_version env)),
      (ascii ''host'', JObj [(ascii ''sysname'', text_value (un_sysname (pe_uname env))),
         (ascii ''release'', text_value (un_release (pe_uname env))),
         (ascii ''machine'', text_value (un_machine (pe_uname env))),
         (ascii ''os_version'', if os_version env \<noteq> [] then text_value (os_version env) else JNull)]),
      (ascii ''usb_printers'', JArr (map (printer_value env) ps)),
      (ascii ''cups_queues'', JArr (map queue_value qs))]"

text \<open>Members with the closing brace, and the separators.\<close>

definition closes :: "(bytes \<times> json) list \<Rightarrow> bytes \<Rightarrow> bool" where
  "closes ms s \<longleftrightarrow> (\<exists>s0. s = s0 @ [125] \<and> denotes_members ms s0)"

lemma closes_last: "\<lbrakk>plain_json k; denotes v t\<rbrakk> \<Longrightarrow> closes [(ascii k, v)] (json_field k t @ [125])"
  using members_last [of k v t "[]"] by (auto simp: closes_def)

lemma closes_last_line:
  "\<lbrakk>plain_json k; denotes v t; all_ws w\<rbrakk> \<Longrightarrow> closes [(ascii k, v)] (json_field k t @ w @ [125])"
  using members_last [of k v t w] by (auto simp: closes_def)

lemma closes_more:
  assumes "plain_json k" "denotes v t" "closes ms s" "all_ws w"
  shows "closes ((ascii k, v) # ms) (json_field k t @ (44 # w) @ s)"
proof -
  obtain s0 where s: "s = s0 @ [125]" "denotes_members ms s0" using assms(3) by (auto simp: closes_def)
  from members_more [OF assms(1,2) members_wsI [OF assms(4) s(2)]] s(1) show ?thesis
    by (intro closes_def [THEN iffD2] exI conjI) simp_all
qed

lemma commas: "comma = 44 # [32]" "comma_line = 44 # [10, 32, 32, 32, 32, 32]"
  by (simp_all add: comma_def comma_line_def ascii_def)

lemma closes_comma: "\<lbrakk>plain_json k; denotes v t; closes ms s\<rbrakk> \<Longrightarrow> closes ((ascii k, v) # ms) (json_field k t @ comma @ s)"
  unfolding commas by (rule closes_more) (simp_all add: json_ws_def)

lemma closes_comma_line:
  "\<lbrakk>plain_json k; denotes v t; closes ms s\<rbrakk> \<Longrightarrow> closes ((ascii k, v) # ms) (json_field k t @ comma_line @ s)"
  unfolding commas by (rule closes_more) (simp_all add: json_ws_def)

lemma closes_line:
  "\<lbrakk>plain_json k; denotes v t; closes ms s\<rbrakk> \<Longrightarrow>
     closes ((ascii k, v) # ms) (json_field k t @ [44] @ ascii (newline @ ''  '') @ s)"
  using closes_more [of k v t ms s "ascii (newline @ ''  '')"] by (simp add: ascii_def json_ws_def)

lemma closes_ws: "closes ms s \<Longrightarrow> all_ws w \<Longrightarrow> closes ms (w @ s)"
  unfolding closes_def using members_wsI by fastforce

lemma denotes_braces: "closes ms s \<Longrightarrow> denotes (JObj ms) ([123] @ s)"
  using denotes_object by (auto simp: closes_def)

text \<open>Lists of elements.\<close>

lemma elems_separated:
  assumes "list_all2 denotes vs ss" "ss \<noteq> []" "all_ws w" "all_ws w'"
  shows "denotes_elems vs (separated_bytes (44 # w) ss @ w')"
  using assms(1,2)
proof (induction "44 # w" ss arbitrary: vs rule: separated_bytes.induct)
  case (2 s)
  then show ?case using elems_last [OF _ assms(4)] by (auto simp: list_all2_Cons2)
next
  case (3 s t ss)
  then obtain v vs' where vs: "vs = v # vs'" "denotes v s" "list_all2 denotes vs' (t # ss)"
    by (auto simp: list_all2_Cons2)
  from elems_more [OF vs(2) elems_wsI [OF assms(3) 3(1) [OF vs(3)]]] vs(1) show ?case by simp
qed simp

lemma denotes_reasons:
  "list_all2 denotes vs ss \<Longrightarrow> denotes (JArr vs) ([91] @ separated_bytes comma ss @ [93])"
proof (cases "ss = []")
  case True
  then show "list_all2 denotes vs ss \<Longrightarrow> denotes (JArr vs) ([91] @ separated_bytes comma ss @ [93])"
    using denotes_empty_array [of "[]"] by simp
next
  case False
  then show "list_all2 denotes vs ss \<Longrightarrow> denotes (JArr vs) ([91] @ separated_bytes comma ss @ [93])"
    using denotes_array [OF elems_separated [of vs ss "[32]" "[]"]] by (simp add: commas json_ws_def)
qed

lemma denotes_items:
  assumes "list_all2 denotes vs ss" "all_ws w"
  shows "denotes (JArr vs) ([91] @ item_lines ss @ w @ [93])"
proof (cases "ss = []")
  case True
  then show ?thesis using denotes_empty_array [OF assms(2)] assms(1) by (simp add: item_lines_def)
next
  case False
  have "all_ws (ascii (newline @ ''    ''))" by (simp add: ascii_def json_ws_def)
  then have "list_all2 denotes vs (map (\<lambda>s. ascii (newline @ ''    '') @ s) ss)"
    using assms(1) denotes_ws by (auto simp: list_all2_conv_all_nth)
  from denotes_array [OF elems_separated [OF this _ _ assms(2), of "[]"]] False
  show ?thesis by (simp add: item_lines_def)
qed

text \<open>The texts of the fields.\<close>

definition plain_char :: "char \<Rightarrow> bool" where
  "plain_char c \<longleftrightarrow> json_char (word_of_nat (of_char c)) = [word_of_nat (of_char c)]"

lemma plain_json_iff: "plain_json s \<longleftrightarrow> list_all plain_char s"
  by (simp add: plain_json_def ascii_def plain_char_def list_all_iff)

lemma plain_hexdigit: "n < 16 \<Longrightarrow> plain_char (hexdigit n)"
proof -
  have "list_all (\<lambda>n. plain_char (hexdigit n)) [0 ..< 16]" by code_simp
  then show "n < 16 \<Longrightarrow> plain_char (hexdigit n)" by (simp add: list_all_iff)
qed

lemma plain_0x: "plain_char (CHR ''0'')" "plain_char (CHR ''x'')"
  by code_simp+

lemma plain_hex4: "plain_json (''0x'' @ hex4 v)"
proof -
  have "unat v div 4096 < 16" using unat_u16_less [of v] by linarith
  then show ?thesis by (simp add: plain_json_iff hex4_def Let_def plain_hexdigit plain_0x)
qed

lemma plain_hex2: "plain_json (''0x'' @ hex2 v)"
proof -
  have "unat v div 16 < 16" using unat_u8_less [of v] by linarith
  then show ?thesis by (simp add: plain_json_iff hex2_def plain_hexdigit plain_0x)
qed

text \<open>The names of the members.\<close>

lemma plain_keys:
  "list_all plain_json
    [''version'', ''host'', ''sysname'', ''release'', ''machine'', ''os_version'', ''usb_printers'', ''cups_queues'',
     ''vid'', ''pid'', ''bcd_device'', ''bus'', ''address'', ''manufacturer'', ''product'', ''serial'', ''interface'',
     ''alt_setting'', ''protocol'', ''ep_out'', ''ep_out_max_packet'', ''ep_in'', ''open_error'', ''device_id'',
     ''port_status'', ''status_reasons'', ''name'', ''make_model'', ''device_uri'', ''state'', ''state_reasons'',
     ''is_default'']"
  by code_simp

lemmas plain_key = plain_keys [unfolded list.pred_inject]

lemma denotes_quotes: "plain_json s \<Longrightarrow> denotes (text_value s) (in_quotes s)"
  using denotes_plain by (simp add: text_value_def in_quotes_def)

lemma denotes_text: "denotes (text_value s) (json_text s)"
  using denotes_string by (simp add: text_value_def json_text_def)

lemma denotes_none: "denotes JNull (m2022_json_string None)"
  using denotes_null by (simp add: m2022_json_string_def)

lemmas field_rules = denotes_quotes [OF plain_hex4] denotes_quotes [OF plain_hex2] denotes_text denotes_none
  denotes_null denotes_number denotes_bool denotes_string

lemma denotes_queue: "denotes (queue_value q) (queue_json q)"
  unfolding queue_value_def queue_json_def
  by (intro denotes_braces closes_comma closes_last field_rules) (simp_all add: plain_key)

lemma denotes_printer: "denotes (printer_value env p) (printer_json env p)"
proof (cases "pp_status_error p = 0")
  case True
  obtain reasons nr where r: "m2022_usb_status_reasons (pp_status p) 4 = (reasons, nr)" by force
  have "take nr reasons = reasons" using r by (auto simp: m2022_usb_status_reasons_def Let_def split: if_splits)
  moreover have "list_all2 denotes (map text_value reasons) (map json_text reasons)"
    by (simp add: list_all2_conv_all_nth denotes_text)
  ultimately have reasons: "denotes (JArr (map text_value reasons)) ([91] @ separated_bytes comma (map json_text (take nr reasons)) @ [93])"
    using denotes_reasons by simp
  show ?thesis
    unfolding printer_value_def printer_json_def Let_def True r if_P [OF refl] prod.case fst_conv append_assoc
    by (intro denotes_braces closes_comma closes_comma_line closes_last field_rules reasons)
      (simp_all add: plain_key field_rules)
next
  case False
  have empty: "denotes (JArr []) (ascii ''[]'')" using denotes_empty_array [of "[]"] by (simp add: ascii_def)
  show ?thesis
    unfolding printer_value_def printer_json_def Let_def if_not_P [OF False] prod.case append_assoc
    by (intro denotes_braces closes_comma closes_comma_line closes_last field_rules empty)
      (simp_all add: plain_key field_rules)
qed

lemma denotes_probe: "\<exists>s. print_json env ps qs = s @ [10] \<and> denotes (probe_value env ps qs) s"
proof -
  define host where "host = [123] @ json_field ''sysname'' (json_text (un_sysname (pe_uname env)))
     @ comma @ json_field ''release'' (json_text (un_release (pe_uname env)))
     @ comma @ json_field ''machine'' (json_text (un_machine (pe_uname env)))
     @ comma @ json_field ''os_version''
         (if os_version env \<noteq> [] then json_text (os_version env) else m2022_json_string None) @ [125]"
  have host: "denotes (JObj [(ascii ''sysname'', text_value (un_sysname (pe_uname env))),
         (ascii ''release'', text_value (un_release (pe_uname env))),
         (ascii ''machine'', text_value (un_machine (pe_uname env))),
         (ascii ''os_version'', if os_version env \<noteq> [] then text_value (os_version env) else JNull)]) host"
    unfolding host_def
    by (intro denotes_braces closes_comma closes_last field_rules) (simp_all add: plain_key field_rules)
  have ws: "all_ws (ascii (newline @ ''  ''))" "all_ws (ascii newline)" by (simp_all add: ascii_def json_ws_def)
  have lists: "list_all2 denotes (map (printer_value env) ps) (map (printer_json env) ps)"
    "list_all2 denotes (map queue_value qs) (map queue_json qs)"
    by (simp_all add: list_all2_conv_all_nth denotes_printer denotes_queue)
  have items: "denotes (JArr (map (printer_value env) ps))
      ([91] @ item_lines (map (printer_json env) ps) @ ascii (newline @ ''  '') @ [93])"
    "denotes (JArr (map queue_value qs)) ([91] @ item_lines (map queue_json qs) @ ascii (newline @ ''  '') @ [93])"
    by (rule denotes_items [OF lists(1) ws(1)], rule denotes_items [OF lists(2) ws(1)])
  have "denotes (probe_value env ps qs)
    ([123] @ ascii (newline @ ''  '') @ json_field ''version'' (json_text (pe_version env))
      @ [44] @ ascii (newline @ ''  '') @ json_field ''host'' host
      @ [44] @ ascii (newline @ ''  '') @ json_field ''usb_printers''
          ([91] @ item_lines (map (printer_json env) ps) @ ascii (newline @ ''  '') @ [93])
      @ [44] @ ascii (newline @ ''  '') @ json_field ''cups_queues''
          ([91] @ item_lines (map queue_json qs) @ ascii (newline @ ''  '') @ [93])
      @ ascii newline @ [125])"
    unfolding probe_value_def
    by (intro denotes_braces closes_ws closes_line closes_last_line field_rules host items ws)
      (simp_all add: plain_key)
  moreover have "ascii newline = [10]" by (simp add: ascii_def)
  ultimately show ?thesis
    by (intro exI conjI) (simp_all add: print_json_def Let_def host_def)
qed

lemma ten_no_digit: "\<not> (48 \<le> (10 :: u8) \<and> (10 :: u8) \<le> 57)"
  by simp

section \<open>Properties\<close>

text \<open>C9: What probe prints as JSON is JSON, whatever the devices and queues call themselves: a JSON reader
  gets back exactly the version, the host, one object per printer with its identifiers, texts, error and
  status, and one per queue, and stops at the line's end.\<close>

theorem probe_json_reads_back:
  "\<exists>n. json_value n (print_json env ps qs) = Some (probe_value env ps qs, [10])"
proof -
  obtain s where s: "print_json env ps qs = s @ [10]" "denotes (probe_value env ps qs) s"
    using denotes_probe by blast
  then obtain n where "json_value n (s @ [10]) = Some (probe_value env ps qs, [10])"
    unfolding denotes_def by (metis list.sel(1) order_refl ten_no_digit)
  then show ?thesis using s(1) by auto
qed

text \<open>The printers of the bus in its order.\<close>

definition printers_of :: "usb_dev list \<Rightarrow> usb_info list" where
  "printers_of ds = map (\<lambda>(k, ui, h). ui) (found_from None 0 ds)"

lemma query_handles: "query env i sys = (p, sys') \<Longrightarrow> sys' = sys"
proof -
  obtain rc dev sys1 where o: "m2022_usb_open (pe_usb env)
      (Some \<lparr>match_vid = vid i, match_pid = pid i, match_serial = Some (serial i)\<rparr>) sys = (rc, dev, sys1)"
    by (metis prod_cases3)
  show "query env i sys = (p, sys') \<Longrightarrow> sys' = sys"
    using usb_open_handles [OF o] o
    by (cases dev) (auto simp: query_def Let_def split: prod.splits)
qed

lemma query_open:
  "pp_open_error (fst (query env i sys)) = 0 \<longleftrightarrow>
    fst (m2022_usb_open (pe_usb env)
      (Some \<lparr>match_vid = vid i, match_pid = pid i, match_serial = Some (serial i)\<rparr>) sys) = 0"
proof -
  obtain rc dev sys1 where o: "m2022_usb_open (pe_usb env)
      (Some \<lparr>match_vid = vid i, match_pid = pid i, match_serial = Some (serial i)\<rparr>) sys = (rc, dev, sys1)"
    by (metis prod_cases3)
  show ?thesis
    using usb_open_handles [OF o] o
    by (cases dev) (auto simp: query_def Let_def split: prod.splits)
qed

lemma query_all_map: "query_all env is sys = (map (\<lambda>i. fst (query env i sys)) is, sys)"
proof (induction "is")
  case (Cons i "is")
  obtain p sys1 where q: "query env i sys = (p, sys1)" by force
  from query_handles [OF q] Cons q show ?case by simp
qed simp

lemma probe_printers_eq:
  assumes "init_rc (pe_usb env) = 0" "device_list (pe_usb env) = Inr ds"
  shows "probe_printers env sys = (map (\<lambda>i. fst (query env i sys)) (take 8 (printers_of ds)), sys)"
  using assms
  by (simp add: probe_printers_def m2022_usb_list_def enumerate_loop_eq Let_def query_all_map printers_of_def min_def)

text \<open>C26: The exit status of probe is what the installer relies on: 1 when no printer is on the bus, 0 when one
  of the first eight can be opened by its identifiers, 2 when there are printers but none can be; libusb is left
  as it was.\<close>

theorem probe_exit_status:
  assumes "init_rc (pe_usb env) = 0" "device_list (pe_usb env) = Inr ds"
    and "probe_args args False False \<noteq> None" "cmd_probe env args sys = (rc, out, sys')"
  shows "sys' = sys \<and> (rc = 1 \<longleftrightarrow> candidates None ds = [])
    \<and> (rc = 0 \<longleftrightarrow> (\<exists>i \<in> set (take 8 (printers_of ds)). fst (m2022_usb_open (pe_usb env)
          (Some \<lparr>match_vid = vid i, match_pid = pid i, match_serial = Some (serial i)\<rparr>) sys) = 0))
    \<and> rc \<in> {0, 1, 2}"
proof -
  obtain json quiet where a: "probe_args args False False = Some (json, quiet)" using assms(3) by auto
  have none: "printers_of ds = [] \<longleftrightarrow> candidates None ds = []"
    using found_length [of None ds] by (auto simp: printers_of_def)
  have rc: "rc = (if printers_of ds = [] then 1
      else if list_ex (\<lambda>i. pp_open_error (fst (query env i sys)) = 0) (take 8 (printers_of ds)) then 0 else 2) \<and> sys' = sys"
    using assms(4) a by (auto simp: cmd_probe_def probe_printers_eq [OF assms(1,2)] Let_def comp_def list_ex_iff split: prod.splits if_splits)
  show ?thesis
    using rc none by (auto simp: list_ex_iff query_open split: if_splits)
qed

definition probe_sample :: probe_env where
  "probe_sample =
    \<lparr>pe_usb = sample_bus, pe_ctrl = (\<lambda>_ _ _ _. Inr [0x18]), pe_strerror = (\<lambda>_. []), pe_dests = [],
     pe_uname = \<lparr>un_sysname = ''Darwin'', un_release = ''25'', un_machine = ''arm64''\<rparr>, pe_osversion = None,
     pe_version = ''1.0''\<rparr>"

lemma probe_exit_status_witness:
  "\<exists>rc out. cmd_probe probe_sample [''--quiet''] no_usb = (rc, out, no_usb) \<and> rc \<in> {0, 2}"
proof -
  obtain rc out sys' where r: "cmd_probe probe_sample [''--quiet''] no_usb = (rc, out, sys')" by (metis prod_cases3)
  have none: "probe (sample_printer\<lparr>dev_desc := None\<rparr>) = None" by (simp add: probe_def)
  have "\<exists>ui. probe sample_printer = Some (ui, True)"
    by (simp add: probe_def sample_printer_def describe_def alt_info_def)
  then have "candidates None [sample_printer\<lparr>dev_desc := None\<rparr>, sample_printer] = [1]"
    using none by (auto simp: candidates_def candidate_def matches_def)
  moreover have "init_rc (pe_usb probe_sample) = 0"
    "device_list (pe_usb probe_sample) = Inr [sample_printer\<lparr>dev_desc := None\<rparr>, sample_printer]"
    by (simp_all add: probe_sample_def sample_bus_def)
  ultimately show ?thesis using probe_exit_status [OF _ _ _ r] r by auto
qed

end
