(* ===== verification/Server.thy ===== *)
theory Server
  imports Cprint
begin

text \<open>
  Model of the program around the components: the version (src/common/version.c), the server command
  (src/cli/cmd_server.c), the set-up of the printer application by \<open>m2022_app_run\<close> (src/app/app.c), and the
  command dispatch of src/cli/main.c. PAPPL is asked call by call; what it answers is the environment.
\<close>

section \<open>Version\<close>

text \<open>\<open>"%d"\<close> of \<open>sscanf\<close>: blanks, a sign, digits; the value and the rest. A literal \<open>.\<close> has to be there.\<close>

definition scan_int :: "string \<Rightarrow> (int \<times> string) option" where
  "scan_int s =
    (let s1 = dropWhile isspace s;
         signed = (s1 \<noteq> [] \<and> hd s1 \<in> {CHR ''+'', CHR ''-''});
         r = (if signed then tl s1 else s1);
         digits = takeWhile (is_digit 10) r;
         v = int (digits_value 10 0 digits)
     in if digits = [] then None
        else Some (if signed \<and> hd s1 = CHR ''-'' then - v else v, drop (length digits) r))"

definition scan_dot :: "string \<Rightarrow> string option" where
  "scan_dot s = (case s of [] \<Rightarrow> None | c # cs \<Rightarrow> if c = CHR ''.'' then Some cs else None)"

definition scan_version :: "string \<Rightarrow> (int \<times> int \<times> int) option" where
  "scan_version s =
    Option.bind (scan_int s) (\<lambda>(a, s1).
    Option.bind (Option.bind (scan_dot s1) scan_int) (\<lambda>(b, s2).
    Option.bind (Option.bind (scan_dot s2) scan_int) (\<lambda>(c, s3). Some (a, b, c))))"

definition m2022_version_components :: "string \<Rightarrow> int \<times> int \<times> int" where
  "m2022_version_components version =
    (case scan_version version of None \<Rightarrow> (0, 0, 0) | Some abc \<Rightarrow> abc)"

section \<open>The application\<close>

record app_config =
  ac_name :: "string option"
  ac_port :: int
  ac_spool_dir :: "string option"
  ac_capture_dir :: "string option"
  ac_device_uri :: "string option"
  ac_log_file :: "string option"
  ac_state_file :: "string option"
  ac_debug :: bool
  ac_no_tls :: bool

definition M2022_USBDEV_DEFAULT_URI :: string where
  "M2022_USBDEV_DEFAULT_URI = ''m2022usb://04e8:3321''"

definition driver_id :: string where
  "driver_id = ''MFG:Samsung;MDL:M2020 Series;CMD:SPL;CLS:PRINTER;''"

text \<open>The calls that \<open>m2022_app_run\<close> makes, with the arguments that the configuration decides.\<close>

datatype app_call =
  Make_dir string nat
| Usbdev_register
| System_create bool string int string "string option" "string option" bool
| Set_versions string string "u16 \<times> u16 \<times> u16"
| Set_footer
| Add_listeners
| Set_drivers string string string
| Load_state string
| Set_save_callback string
| Find_printer string
| Printer_create string string string string
| Save_state string
| Set_default_printer
| Set_active_jobs nat
| Set_completed_jobs nat
| Set_image_size nat nat nat
| Log_ready string int string string
| System_run
| System_delete

text \<open>
  What the calls answer: the \<open>errno\<close> of \<open>mkdir\<close>, whether the system can be created, whether it has a
  printer (from the state file), whether one can be created.
\<close>

record server_env =
  ae_mkdir :: int
  ae_system :: bool
  ae_found :: bool
  ae_printer :: bool
  ae_version :: string

abbreviation (input) EEXIST :: int where "EEXIST \<equiv> 17"

text \<open>The exit status and the calls in their order.\<close>

definition m2022_app_run :: "server_env \<Rightarrow> app_config \<Rightarrow> int \<times> app_call list" where
  "m2022_app_run env cfg =
    (let name = (case ac_name cfg of None \<Rightarrow> ''Samsung M2022'' | Some n \<Rightarrow> n);
         uri = (case ac_device_uri cfg of None \<Rightarrow> M2022_USBDEV_DEFAULT_URI | Some u \<Rightarrow> u);
         capture = (case ac_capture_dir cfg of None \<Rightarrow> [] | Some d \<Rightarrow> take 1023 d);
         port = (if ac_port cfg > 0 then ac_port cfg else 8000);
         made = (if ac_capture_dir cfg = None then [] else [Make_dir capture 493])
     in if ac_capture_dir cfg \<noteq> None \<and> ae_mkdir env \<noteq> 0 \<and> ae_mkdir env \<noteq> EEXIST then (2, made)
        else
          let created = made @ [Usbdev_register,
                System_create (ac_no_tls cfg) ''M2022 AirBridge'' port ''_print,_universal''
                  (ac_spool_dir cfg) (ac_log_file cfg) (ac_debug cfg)]
          in if \<not> ae_system env then (2, created)
             else
               let (major, minor, patch) = m2022_version_components (ae_version env);
                   configured = created @
                     [Set_versions ''m2022-airbridge'' (take 63 (ae_version env))
                        (word_of_int major, word_of_int minor, word_of_int patch),
                      Set_footer, Add_listeners, Set_drivers ''m2022'' ''Samsung Xpress SL-M2022'' driver_id]
                     @ (case ac_state_file cfg of None \<Rightarrow> [] | Some f \<Rightarrow> [Load_state f, Set_save_callback f])
                     @ [Find_printer ''/ipp/print'']
               in if \<not> ae_found env \<and> \<not> ae_printer env
                  then (2, configured @ [Printer_create name ''m2022'' driver_id uri, System_delete])
                  else
                    let ready = configured @
                      (if ae_found env then []
                       else [Printer_create name ''m2022'' driver_id uri]
                         @ (case ac_state_file cfg of None \<Rightarrow> [] | Some f \<Rightarrow> [Save_state f]))
                    in (0, ready @ [Set_default_printer, Set_active_jobs 20, Set_completed_jobs 50,
                          Set_image_size (128 * 1024 * 1024) 16384 16384, Log_ready name port uri capture,
                          System_run, System_delete]))"

section \<open>The server command\<close>

function server_args_loop :: "string list \<Rightarrow> app_config \<Rightarrow> app_config option" where
  "server_args_loop [] c = Some c"
| "server_args_loop (arg # rest) c =
    (if arg = ''--port'' \<and> rest \<noteq> [] then server_args_loop (tl rest) (c\<lparr>ac_port := atoi (hd rest)\<rparr>)
     else if arg = ''--name'' \<and> rest \<noteq> [] then server_args_loop (tl rest) (c\<lparr>ac_name := Some (hd rest)\<rparr>)
     else if arg = ''--capture'' \<and> rest \<noteq> [] then
       server_args_loop (tl rest) (c\<lparr>ac_capture_dir := Some (hd rest)\<rparr>)
     else if arg = ''--device'' \<and> rest \<noteq> [] then server_args_loop (tl rest) (c\<lparr>ac_device_uri := Some (hd rest)\<rparr>)
     else if arg = ''--spool'' \<and> rest \<noteq> [] then server_args_loop (tl rest) (c\<lparr>ac_spool_dir := Some (hd rest)\<rparr>)
     else if arg = ''--log'' \<and> rest \<noteq> [] then server_args_loop (tl rest) (c\<lparr>ac_log_file := Some (hd rest)\<rparr>)
     else if arg = ''--state'' \<and> rest \<noteq> [] then server_args_loop (tl rest) (c\<lparr>ac_state_file := Some (hd rest)\<rparr>)
     else if arg = ''--debug'' then server_args_loop rest (c\<lparr>ac_debug := True\<rparr>)
     else if arg = ''--no-tls'' then server_args_loop rest (c\<lparr>ac_no_tls := True\<rparr>)
     else None)"
  by pat_completeness auto
termination by (relation "measure (\<lambda>(args, c). length args)") auto

definition app_config_zero :: app_config where
  "app_config_zero =
    \<lparr>ac_name = None, ac_port = 0, ac_spool_dir = None, ac_capture_dir = None, ac_device_uri = None,
     ac_log_file = None, ac_state_file = None, ac_debug = False, ac_no_tls = False\<rparr>"

definition cmd_server :: "server_env \<Rightarrow> string list \<Rightarrow> int \<times> app_call list" where
  "cmd_server env args =
    (case server_args_loop args app_config_zero of None \<Rightarrow> (2, []) | Some cfg \<Rightarrow> m2022_app_run env cfg)"

section \<open>Dispatch\<close>

text \<open>What \<open>main\<close> does with its arguments (without the program's name).\<close>

datatype dispatch = Usage_error | Print_version | Print_usage | Run_command string "string list"

definition main_commands :: "string list" where
  "main_commands =
    [''probe'', ''send'', ''decode'', ''server'', ''render'', ''encode'', ''install'', ''uninstall'',
     ''remove-vendor-driver'', ''start'', ''stop'', ''restart'', ''status'', ''logs'', ''doctor'']"

definition main_dispatch :: "string list \<Rightarrow> dispatch" where
  "main_dispatch args =
    (case args of
       [] \<Rightarrow> Usage_error
     | cmd # rest \<Rightarrow>
         if cmd = ''version'' \<or> cmd = ''--version'' then Print_version
         else if cmd = ''help'' \<or> cmd = ''--help'' \<or> cmd = ''-h'' then Print_usage
         else if cmd \<in> set main_commands then Run_command cmd rest
         else Usage_error)"

text \<open>The exit status of the program, given those of the commands.\<close>

definition main_exit :: "(string \<Rightarrow> string list \<Rightarrow> int) \<Rightarrow> string list \<Rightarrow> int" where
  "main_exit commands args =
    (case main_dispatch args of
       Usage_error \<Rightarrow> 2 | Print_version \<Rightarrow> 0 | Print_usage \<Rightarrow> 0 | Run_command c rest \<Rightarrow> commands c rest)"

section \<open>Properties\<close>

text \<open>Digits that were printed are read back.\<close>

lemma decimal_value: "digits_value 10 acc (decimal n) = acc * 10 ^ length (decimal n) + n"
proof (induction n arbitrary: acc rule: decimal.induct)
  case (1 n)
  have digit: "digit_value (char_of (48 + k)) = Some k" if "k < 10" for k :: nat
  proof -
    have "list_all (\<lambda>k. digit_value (char_of (48 + k)) = Some k) [0 ..< 10]" by code_simp
    then show ?thesis using that by (simp add: list_all_iff)
  qed
  show ?case
  proof (cases "n < 10")
    case True
    then show ?thesis using digit [of n] by (subst (1 2) decimal.simps) simp
  next
    case False
    have app: "digits_value 10 a (xs @ [c]) = digits_value 10 a xs * 10 + (case digit_value c of None \<Rightarrow> 0 | Some d \<Rightarrow> d)"
      for a xs c by (induction xs arbitrary: a) auto
    have d: "decimal n = decimal (n div 10) @ [char_of (48 + n mod 10)]" using False by (subst decimal.simps) simp
    show ?thesis
      using "1.IH" [OF False, of acc] digit [of "n mod 10"] by (simp add: d app algebra_simps)
  qed
qed

lemma decimal_is_digits: "\<forall>c \<in> set (decimal n). is_digit 10 c"
proof (induction n rule: decimal.induct)
  case (1 n)
  have digit: "is_digit 10 (char_of (48 + k))" if "k < 10" for k :: nat
  proof -
    have "list_all (\<lambda>k. is_digit 10 (char_of (48 + k))) [0 ..< 10]" by code_simp
    then show ?thesis using that by (simp add: list_all_iff)
  qed
  show ?case
    using 1 digit by (cases "n < 10") (subst decimal.simps, simp)+
qed

lemma decimal_nonempty: "decimal n \<noteq> []"
  by (subst decimal.simps) simp

lemma digit_no_sign: "is_digit 10 c \<Longrightarrow> \<not> isspace c \<and> c \<noteq> CHR ''+'' \<and> c \<noteq> CHR ''-''"
  by (auto simp: is_digit_def digit_value_def isspace_def Let_def split: if_splits)

lemma scan_int_decimal:
  assumes "rest = [] \<or> \<not> is_digit 10 (hd rest)"
  shows "scan_int (decimal n @ rest) = Some (int n, rest)"
proof -
  obtain c cs where d: "decimal n = c # cs" using decimal_nonempty [of n] by (cases "decimal n") auto
  have all: "\<forall>c \<in> set (decimal n). is_digit 10 c" by (rule decimal_is_digits)
  have c: "\<not> isspace c" "c \<noteq> CHR ''+''" "c \<noteq> CHR ''-''" using all digit_no_sign by (auto simp: d)
  have "takeWhile (is_digit 10) rest = []" using assms by (cases rest) auto
  then have tw: "takeWhile (is_digit 10) (decimal n @ rest) = decimal n"
    using all takeWhile_append2 [of "decimal n" "is_digit 10" rest] by simp
  have s1: "dropWhile isspace (decimal n @ rest) = decimal n @ rest" using c by (simp add: d)
  have sign: "\<not> (decimal n @ rest \<noteq> [] \<and> hd (decimal n @ rest) \<in> {CHR ''+'', CHR ''-''})" using c by (simp add: d)
  show ?thesis
    unfolding scan_int_def Let_def s1 if_not_P [OF sign] tw using decimal_nonempty [of n] sign
    by (simp add: decimal_value)
qed

text \<open>The numbers of a version are those of its text: for every \<open>major.minor.patch\<close>, with anything behind
  that does not go on with a digit.\<close>

theorem version_components_read_back:
  assumes "rest = [] \<or> \<not> is_digit 10 (hd rest)"
  shows "m2022_version_components (decimal a @ ''.'' @ decimal b @ ''.'' @ decimal c @ rest) = (int a, int b, int c)"
proof -
  have dot: "\<not> is_digit 10 (CHR ''.'')" by (simp add: is_digit_def digit_value_def)
  show ?thesis
    using scan_int_decimal [of "CHR ''.'' # decimal b @ ''.'' @ decimal c @ rest" a]
      scan_int_decimal [of "CHR ''.'' # decimal c @ rest" b] scan_int_decimal [OF assms, of c] dot
    by (simp add: m2022_version_components_def scan_version_def scan_dot_def)
qed

lemma version_components_read_back_witness:
  "m2022_version_components ''1.12.3-rc1'' = (1, 12, 3)"
proof -
  have "decimal 1 = ''1''" "decimal 12 = ''12''" "decimal 3 = ''3''" by code_simp+
  then show ?thesis
    using version_components_read_back [of "''-rc1''" 1 12 3] by (simp add: is_digit_def digit_value_def)
qed

text \<open>The server gives back what it takes: whenever the PAPPL system was created, its deletion is the last
  call, exactly once, on every path; the main loop runs only after a printer was found or created, at most
  once, and exactly when the exit status is 0.\<close>

theorem server_releases_system:
  assumes "m2022_app_run env cfg = (rc, calls)"
  shows "(ae_system env \<and> (\<exists>a b c d e f g. System_create a b c d e f g \<in> set calls)
        \<longrightarrow> last calls = System_delete \<and> count_list calls System_delete = 1)
    \<and> (System_run \<in> set calls \<longleftrightarrow> rc = 0)
    \<and> (rc = 0 \<longrightarrow> ae_found env \<or> ae_printer env)
    \<and> count_list calls System_run = (if rc = 0 then 1 else 0)
    \<and> rc \<in> {0, 2}"
proof -
  have steps: "System_run \<notin> set (case f of None \<Rightarrow> [] | Some x \<Rightarrow> [Load_state x, Set_save_callback x])"
    "System_delete \<notin> set (case f of None \<Rightarrow> [] | Some x \<Rightarrow> [Load_state x, Set_save_callback x])"
    "System_run \<notin> set (case f of None \<Rightarrow> [] | Some x \<Rightarrow> [Save_state x])"
    "System_delete \<notin> set (case f of None \<Rightarrow> [] | Some x \<Rightarrow> [Save_state x])" for f :: "string option"
    by (cases f; simp)+
  show ?thesis
    using assms steps
    by (auto simp: m2022_app_run_def Let_def case_prod_unfold count_list_append count_list_0_iff split: if_splits)
qed

lemma server_releases_system_witness:
  "\<exists>calls. m2022_app_run \<lparr>ae_mkdir = 0, ae_system = True, ae_found = False, ae_printer = False, ae_version = ''1.0.0''\<rparr>
       app_config_zero = (2, calls) \<and> last calls = System_delete \<and> System_run \<notin> set calls"
proof -
  define env where "env = \<lparr>ae_mkdir = 0, ae_system = True, ae_found = False, ae_printer = False, ae_version = ''1.0.0''\<rparr>"
  obtain rc calls where r: "m2022_app_run env app_config_zero = (rc, calls)" by force
  then have "rc = 2" "\<exists>a b c d e f g. System_create a b c d e f g \<in> set calls" "ae_system env"
    by (auto simp: m2022_app_run_def env_def app_config_zero_def Let_def case_prod_unfold)
  with server_releases_system [OF r] r show ?thesis by (auto simp: env_def)
qed

end
