(* ===== verification/Spec2Isabelle.thy ===== *)
theory Spec2Isabelle
  imports Bluenoise Cmd_Render Decode_Text App_Device Service_Commands Service_Files Cmd_Doctor Cmd_Probe Server
begin

text \<open>
  M2022 AirBridge: a verification development of the print pipeline of src/ for the Samsung SL-M2022, a
  host-based printer that takes QPDL jobs.

  The program. A page comes from PAPPL (src/app/app.c) or from a file (src/cli/cmd_encode.c) as lines
  of pixels. A line is converted to gray and fitted to the printable area (src/raster, src/app/jobmap.c),
  tone mapped, halftoned to one bit per pixel (src/halftone) and given to the job encoder
  (src/qpdl/encode.c), which collects 128 lines into a band, transposes it (band.c), compresses it with
  codec 0x11 (codec11.c) and hands records (records.c) to a sink: the device or a file. \<open>decode\<close>
  (src/cli/cmd_decode.c) walks a job (walk.c) and turns it back into bitmaps.

  The theories, in the order of the data:

    Prelude           machine integers, C strings, buffers, store loops
    Qpdl_Records      src/qpdl/records.c, the constants and errors of include/m2022/qpdl.h
    Qpdl_Band         src/qpdl/band.c
    Codec11_Decode    the decoder of src/qpdl/codec11.c; tokens as its specification
    Codec11_Encode    the encoder of src/qpdl/codec11.c; round trip and capacity
    Codec11_Table     the table choice of src/qpdl/codec11.c
    Qpdl_Walk         src/qpdl/walk.c, callbacks as a trace of events
    Qpdl_Encode       src/qpdl/encode.c, the record \<open>encoder\<close> and one operation per function
    Qpdl_Stream       the locales \<open>byte_sink\<close> and \<open>reliable_sink\<close>, and what the encoder writes
                      through a sink that obeys them (\<open>job_stream\<close>)
    Cmd_Decode        src/cli/cmd_decode.c
    Qpdl_Reading      the walker's events on a job stream
    Qpdl_Roundtrip    decoding a job stream, memory safety of the reader
    Halftone          src/halftone/halftone.c
    Bluenoise         the table of src/halftone/bluenoise64.c and the density of its screen
    Raster            src/raster, and the presets
    Media, Jobmap     src/app/media.c, src/app/jobmap.c
    App               the raster callbacks of src/app/app.c, one operation per callback
    App_Session       their order as a step relation, its invariant; the device as an instance of both locales
    App_Page          the page on paper as a specification: the printable window, ink, halftone; what the
                      line processing of App computes is that page
    App_Job           whole jobs through the callbacks, memory safety of a line
    Cstring           the C string functions the next theories use
    Ieee1284, Usb     src/usb: device IDs, status, selection of the printer, transfers in chunks
    Usbdev            src/app/usbdev.c: the device scheme, its URIs, retries of a write
    App_Device        status and driver data of src/app/app.c; a job down to the USB pipe
    Fileio, Files     src/common/fileio.c and json.c: anymaps and JSON strings; whole files through zlib, bitmaps
    Pipeline          src/cli/pipeline.c
    Cmd_Encode        src/cli/cmd_encode.c; the file sink as an instance of the locales
    Cmd_Render        src/cli/cmd_render.c; its bitmap encodes to the job of the page itself
    Decode_Text       the options, the input file and the report of src/cli/cmd_decode.c
    Cprint            conversions of printf and scanf that the commands share
    Cmd_Send          src/cli/cmd_send.c
    Cups, Dnssd       src/cups, src/service/dnssd.c
    Json, Cmd_Probe   a JSON reader as specification; src/cli/cmd_probe.c
    Service           src/service/service.c: property list, launchctl, user IDs
    Service_Plan      its plans as lists of steps, and their order
    Service_Inspect   its inspection of the machine
    Service_Exec      carrying out a plan call by call; start, stop and restart of src/cli/cmd_service.c
    Service_Files     what the plans leave on the disk: files with their contents and modes
    Service_Commands  printing a plan; the other commands of src/cli/cmd_service.c
    Cmd_Doctor        src/cli/cmd_doctor.c
    Server            src/common/version.c, m2022_app_run of src/app/app.c, src/cli/cmd_server.c, src/cli/main.c

  What the lemmas show. The codec: round trip, capacity, no access outside a buffer, the best table. The
  encoder: what its sink holds after any sequence of calls is \<open>job_stream\<close>, the specification of the
  QPDL format, and reading it gives the pages back. The halftones: thresholds, densities, error bounds. The
  application: every session the callbacks can reach satisfies \<open>phase_inv\<close>, so that a finished job has
  put exactly its stream on the device, and with enough memory and a working device every call succeeds and
  the stream holds the window of every page of the client, pixel by pixel as \<open>printed_page\<close> says. The
  transport: the bytes of a write arrive in order, once, or an error says how many did. The service: the order
  of the plans, that nothing is done after a step that failed or in a dry run, which files an installation
  leaves and that uninstalling takes them away again, and that what the inspection returns is well formed.
  The commands: what each exit status means, and that what they write (bitmaps, JSON, reports) reads back as
  what was there. Where the code misses an error (the header of a bitmap, a read of a copied file), the
  theorem has the condition and a lemma shows that it is needed.

  Conventions. A C struct is a record with the fields of the code, an enum a datatype. Fixed-width
  integers are words; a \<open>size_t\<close> and a count that is bounded by the page size are natural numbers.
  Operations take the state and return it with the C return code. NULL is \<open>None\<close>. Where a model can
  leave a buffer the result is an option, and \<open>None\<close> is undefined behaviour of the C program. Loops
  are total functions with a measure; the two that may not end, the loops of m2022_usb_write and
  usbdev_write, are partial functions, for which \<open>None\<close> is not returning. The only fuel is the depth of the
  JSON reader, which belongs to a specification; its theorem says that enough depth exists. Doubles are real
  numbers. What a command prints is a string (or bytes, where it can hold any) in its result.

  What belongs to libraries or to the machine is a parameter: what \<open>fwrite\<close>, \<open>papplDeviceWrite\<close>,
  \<open>malloc\<close>, \<open>fopen\<close>, zlib, libusb, libcups, the DNS-SD daemon and the system calls of the service answer, what
  how much each read of a copied file delivers, what the programs that it runs print, the date and the clock,
  the version, the sizes of PAPPL's arrays. The blue-noise table is an argument of the halftone too, so that what is proved of
  a page holds for any table; Bluenoise gives the real one. A loop that waits (dnssd.c) goes through a list of
  what each turn meets.

  Not modelled: the declarations of the headers, the usage texts, lines with measured times or floating-point
  numbers, what a plan prints while it is carried out, freeing memory (m2022_plan_free) except where a pointer
  is used again, the registration of the drivers and of the device scheme with PAPPL, the socket calls of the
  IPP probe in service.c. They are text, or calls of the operating system or a library with nothing of the
  program's own to state. The programs that a plan runs are argument lists here: Service_Files takes them not
  to change the files that it follows. Threads are not modelled: PAPPL calls the callbacks of a job in order.
\<close>

end
